(* ===== verification/Prelude.thy ===== *)
theory Prelude
  imports Main
begin

text \<open>
  Shared vocabulary of the development: the two collections of simplification rules the
  component proofs draw on, Go's error values, what a \<open>range\<close> loop over a Go map may
  visit, the monad of fallible steps, and the generic lemmas on maps and lists that more than
  one component needs.
\<close>

named_theorems jm_defs "definitions of the job manager's operations"
named_theorems go_simps "facts about maps, lists and results used throughout"

section \<open>Errors as values\<close>

text \<open>
  The sentinel errors of the packages (\<open>errors.New\<close> and \<open>fmt.Errorf\<close> values), one
  constructor each. Wrapping with \<open>%w\<close> keeps the sentinel visible to \<open>errors.Is\<close>, so a
  wrapped error is modelled by the sentinel it wraps.
\<close>

datatype gerror =
    ErrDuplicateJob | ErrNotInFlight | ErrJobNotFound | ErrNotPending
  | ErrChecksumMismatch | ErrDecode | ErrWALClosed | ErrEncode | ErrSync | ErrFileIO
  | ErrCorruptedSnapshot | ErrIncompatibleVersion
  | ErrPoolClosed | ErrPoolNotStarted | ErrPoolAlreadyStarted
  | ErrLogNotFound | ErrNilResult | ErrRaftNotInitialized | ErrAckRejected | ErrRpc

type_synonym 'a res = "gerror + 'a"

definition res_bind :: "'a res \<Rightarrow> ('a \<Rightarrow> 'b res) \<Rightarrow> 'b res" where
  "res_bind r f = (case r of Inl e \<Rightarrow> Inl e | Inr x \<Rightarrow> f x)"

lemma res_bind_simps [simp]:
  "res_bind (Inl e) f = Inl e"
  "res_bind (Inr x) f = f x"
  by (simp_all add: res_bind_def)

lemma res_bind_Inr_iff: "res_bind r f = Inr y \<longleftrightarrow> (\<exists>x. r = Inr x \<and> f x = Inr y)"
  by (cases r) auto

text \<open>
  \<open>run_all step xs s\<close> is Go's \<open>for _, x := range xs { if err := step(x); err != nil
  { return err } }\<close>: it threads the state and stops at the first error.
\<close>

fun run_all :: "('x \<Rightarrow> 's \<Rightarrow> 's res) \<Rightarrow> 'x list \<Rightarrow> 's \<Rightarrow> 's res" where
  "run_all step [] s = Inr s"
| "run_all step (x # xs) s = res_bind (step x s) (run_all step xs)"

lemma run_all_append:
  "run_all step (xs @ ys) s = res_bind (run_all step xs s) (run_all step ys)"
proof (induction xs arbitrary: s)
  case Nil
  show ?case by simp
next
  case (Cons x xs)
  then show ?case by (cases "step x s") auto
qed

lemma run_all_invariant:
  assumes "run_all step xs s = Inr t" and "P s"
    and "\<And>x u v. x \<in> set xs \<Longrightarrow> P u \<Longrightarrow> step x u = Inr v \<Longrightarrow> P v"
  shows "P t"
  using assms
proof (induction xs arbitrary: s)
  case Nil
  then show ?case by simp
next
  case (Cons x xs)
  from Cons.prems(1) obtain u where u: "step x s = Inr u" "run_all step xs u = Inr t"
    by (auto simp: res_bind_Inr_iff)
  have "P u" using Cons.prems(2,3) u(1) by auto
  then show ?case using Cons.IH [OF u(2)] Cons.prems(3) by auto
qed

lemma run_all_Inl_split:
  "run_all step xs s = Inl e \<Longrightarrow>
     \<exists>ys x zs u. xs = ys @ x # zs \<and> run_all step ys s = Inr u \<and> step x u = Inl e"
proof (induction xs arbitrary: s)
  case Nil
  then show ?case by simp
next
  case (Cons x xs)
  show ?case
  proof (cases "step x s")
    case (Inl e')
    then have "run_all step [] s = Inr s \<and> step x s = Inl e" using Cons.prems by simp
    then show ?thesis by (intro exI [of _ "[]"]) auto
  next
    case (Inr u)
    then have "run_all step xs u = Inl e" using Cons.prems by simp
    then obtain ys y zs v where "xs = ys @ y # zs" "run_all step ys u = Inr v" "step y v = Inl e"
      using Cons.IH by blast
    then have "x # xs = (x # ys) @ y # zs \<and> run_all step (x # ys) s = Inr v \<and> step y v = Inl e"
      using Inr by simp
    then show ?thesis by blast
  qed
qed

section \<open>Go maps and their iteration order\<close>

text \<open>
  A Go map is a partial function. A \<open>range\<close> loop visits every key once, in an order the
  runtime picks: a definition that contains such a loop takes the order as an argument, and
  \<open>enumerates ord m\<close> says that \<open>ord\<close> is one the runtime may pick for the map \<open>m\<close>.
\<close>

definition enumerates :: "'k list \<Rightarrow> ('k \<rightharpoonup> 'v) \<Rightarrow> bool" where
  "enumerates ord m \<longleftrightarrow> distinct ord \<and> set ord = dom m"

lemma enumerates_D:
  assumes "enumerates ord m"
  shows enumerates_distinct: "distinct ord" and enumerates_set: "set ord = dom m"
  using assms by (auto simp: enumerates_def)

lemma enumerates_finite: "enumerates ord m \<Longrightarrow> finite (dom m)"
  by (metis List.finite_set enumerates_set)

lemma enumerates_exists: "finite (dom m) \<Longrightarrow> \<exists>ord. enumerates ord m"
  by (metis enumerates_def finite_distinct_list)

lemma enumerates_length: "enumerates ord m \<Longrightarrow> length ord = card (dom m)"
  by (metis distinct_card enumerates_def)

section \<open>Maps\<close>

lemma inj_on_map_upd [go_simps]: "k \<notin> dom m \<Longrightarrow> inj_on m (dom m) \<Longrightarrow> v \<notin> ran m \<Longrightarrow>
    inj_on (m(k \<mapsto> v)) (dom (m(k \<mapsto> v)))"
  by (auto simp: inj_on_def ran_def dom_def split: if_splits)

lemma in_set_tl: "x \<in> set (tl xs) \<Longrightarrow> x \<in> set xs"
  by (cases xs) auto

end
