(* ===== verification/GoTypes.thy ===== *)
theory GoTypes
  imports Prelude
begin

text \<open>
  The domain types of \<open>pkg/types/types.go\<close>: job identifiers, the job status, the job itself and
  the snapshot data. Times are Unix milliseconds (Go's \<open>int64\<close>), read from the clock by the
  code and passed as arguments here. \<open>*int64\<close> is an option (nil is \<^term>\<open>None\<close>); the code
  never writes through such a pointer.
\<close>

type_synonym JobID = string

text \<open>
  \<open>JobStatus\<close> is a Go string with four named values. \<open>StatusOther s\<close> stands for any other
  string, which a snapshot file or a Raft command may hold.
\<close>

datatype JobStatus =
    StatusPending | StatusInFlight | StatusCompleted | StatusDead | StatusOther string

text \<open>
  The dynamic values a payload of type \<open>map[string]interface{}\<close> holds. \<open>GFloat v\<close> is a
  \<open>float64\<close>, given by its value truncated towards zero to an \<open>int64\<close>: the only
  thing the code computes from it. \<open>GOther\<close> stands for the remaining dynamic types, which
  the code passes on unread.
\<close>

datatype gval = GInt int | GFloat int | GString string | GOther

type_synonym payload = "string \<rightharpoonup> gval"

record Job =
  ID :: JobID
  Payload :: payload
  Status :: JobStatus
  Attempt :: int
  Timeout :: int
  Deadline :: "int option"
  CreatedAt :: int
  UpdatedAt :: int
  WorkerID :: string

record SnapshotData =
  Jobs :: "JobID \<rightharpoonup> Job"
  SchemaVer :: int
  LastSeq :: nat

text \<open>Go's zero value of \<open>types.Job\<close>.\<close>

definition zero_job :: Job where
  "zero_job = \<lparr>ID = [], Payload = Map.empty, Status = StatusOther [], Attempt = 0, Timeout = 0,
     Deadline = None, CreatedAt = 0, UpdatedAt = 0, WorkerID = []\<rparr>"

text \<open>Jobs that still matter for recovery: the test of \<open>PartialSnapshot\<close>.\<close>

definition hot :: "Job \<Rightarrow> bool" where
  "hot j \<longleftrightarrow> Status j = StatusPending \<or> Status j = StatusInFlight"

end
