(* ===== verification/JobManager.thy ===== *)
theory JobManager
  imports GoTypes
begin

text \<open>
  The job manager of \<open>internal/jobmanager/job_manager.go\<close>. Its maps hold pointers to jobs, and
  the design rests on the index maps and the main map sharing them, so the model has an explicit
  store: a job lives at an address, a map entry is an address. \<open>nxt\<close> is the next fresh
  address. The mutex makes every method atomic: a method is one function from state to state,
  and its error returns leave the state unchanged.
\<close>

section \<open>State\<close>

type_synonym addr = nat

record JobManager =
  heap :: "addr \<Rightarrow> Job"
  nxt :: addr
  jobs :: "JobID \<rightharpoonup> addr"
  queue :: "JobID list"
  inFlight :: "JobID \<rightharpoonup> addr"
  completed :: "JobID \<rightharpoonup> addr"
  dead :: "JobID \<rightharpoonup> addr"
  lastAppliedIndex :: int

definition NewJobManager :: JobManager where
  "NewJobManager = \<lparr>heap = (\<lambda>_. zero_job), nxt = 0, jobs = Map.empty, queue = [],
     inFlight = Map.empty, completed = Map.empty, dead = Map.empty, lastAppliedIndex = 0\<rparr>"

section \<open>Operations\<close>

definition SetLastAppliedIndex :: "int \<Rightarrow> JobManager \<Rightarrow> JobManager" where
  "SetLastAppliedIndex index jm = jm\<lparr>lastAppliedIndex := index\<rparr>"

definition GetLastAppliedIndex :: "JobManager \<Rightarrow> int" where
  "GetLastAppliedIndex jm = lastAppliedIndex jm"

text \<open>\<open>Enqueue\<close> takes the job by value and stores the address of its own copy.\<close>

definition Enqueue :: "int \<Rightarrow> Job \<Rightarrow> JobManager \<Rightarrow> JobManager res" where
  "Enqueue now job jm =
     (if jobs jm (ID job) \<noteq> None then Inl ErrDuplicateJob
      else
        let job' = job\<lparr>Status := StatusPending, CreatedAt := now, UpdatedAt := now\<rparr>;
            a = nxt jm
        in Inr (jm\<lparr>heap := (heap jm)(a := job'), nxt := Suc a,
                   jobs := (jobs jm)(ID job \<mapsto> a),
                   queue := queue jm @ [ID job]\<rparr>))"

text \<open>
  The result is the pointer the main map holds for the first queued ID; \<^term>\<open>None\<close> is nil,
  for an empty queue and for an ID that the main map does not hold.
\<close>

definition PopPending :: "JobManager \<Rightarrow> addr option \<times> JobManager" where
  "PopPending jm =
     (case queue jm of
        [] \<Rightarrow> (None, jm)
      | jobID # rest \<Rightarrow> (jobs jm jobID, jm\<lparr>queue := rest\<rparr>))"

definition MarkInFlight :: "int \<Rightarrow> JobID \<Rightarrow> int \<Rightarrow> JobManager \<Rightarrow> JobManager res" where
  "MarkInFlight now jobID deadline jm =
     (case jobs jm jobID of
        None \<Rightarrow> Inl ErrJobNotFound
      | Some a \<Rightarrow>
          if Status (heap jm a) \<noteq> StatusPending then Inl ErrNotPending
          else Inr (jm\<lparr>heap := (heap jm)(a := (heap jm a)
                        \<lparr>Status := StatusInFlight, Deadline := Some deadline, UpdatedAt := now\<rparr>),
                       inFlight := (inFlight jm)(jobID \<mapsto> a)\<rparr>))"

definition MarkCompleted :: "int \<Rightarrow> JobID \<Rightarrow> JobManager \<Rightarrow> JobManager res" where
  "MarkCompleted now jobID jm =
     (case jobs jm jobID of
        None \<Rightarrow> Inl ErrJobNotFound
      | Some a \<Rightarrow>
          if Status (heap jm a) \<noteq> StatusInFlight then Inl ErrNotInFlight
          else Inr (jm\<lparr>heap := (heap jm)(a := (heap jm a)
                        \<lparr>Status := StatusCompleted, Deadline := None, WorkerID := [], UpdatedAt := now\<rparr>),
                       inFlight := (inFlight jm)(jobID := None),
                       completed := (completed jm)(jobID \<mapsto> a)\<rparr>))"

definition Requeue :: "int \<Rightarrow> JobID \<Rightarrow> JobManager \<Rightarrow> JobManager res" where
  "Requeue now jobID jm =
     (case jobs jm jobID of
        None \<Rightarrow> Inl ErrJobNotFound
      | Some a \<Rightarrow>
          if Status (heap jm a) \<noteq> StatusInFlight then Inl ErrNotInFlight
          else Inr (jm\<lparr>heap := (heap jm)(a := (heap jm a)
                        \<lparr>Attempt := Attempt (heap jm a) + 1, Status := StatusPending,
                         Deadline := None, WorkerID := [], UpdatedAt := now\<rparr>),
                       inFlight := (inFlight jm)(jobID := None),
                       queue := queue jm @ [jobID]\<rparr>))"

definition MarkDead :: "int \<Rightarrow> JobID \<Rightarrow> JobManager \<Rightarrow> JobManager res" where
  "MarkDead now jobID jm =
     (case jobs jm jobID of
        None \<Rightarrow> Inl ErrJobNotFound
      | Some a \<Rightarrow>
          Inr (jm\<lparr>heap := (heap jm)(a := (heap jm a)
                    \<lparr>Status := StatusDead, Deadline := None, WorkerID := [], UpdatedAt := now\<rparr>),
                  inFlight := (inFlight jm)(jobID := None),
                  dead := (dead jm)(jobID \<mapsto> a)\<rparr>))"

text \<open>The read-only loops: \<open>ord\<close> is the order in which the runtime visits \<open>inFlight\<close>.\<close>

definition expired :: "int \<Rightarrow> Job \<Rightarrow> bool" where
  "expired nowMs j = (case Deadline j of None \<Rightarrow> False | Some d \<Rightarrow> d < nowMs)"

definition GetExpiredJobs :: "JobID list \<Rightarrow> int \<Rightarrow> JobManager \<Rightarrow> JobID list" where
  "GetExpiredJobs ord nowMs jm =
     filter (\<lambda>jobID. case inFlight jm jobID of None \<Rightarrow> False | Some a \<Rightarrow> expired nowMs (heap jm a)) ord"

definition GetAllInFlightJobs :: "JobID list \<Rightarrow> JobManager \<Rightarrow> JobID list" where
  "GetAllInFlightJobs ord jm = filter (\<lambda>jobID. inFlight jm jobID \<noteq> None) ord"

record JobStats =
  pending_count :: nat
  in_flight_count :: nat
  completed_count :: nat
  dead_count :: nat

definition Stats :: "JobManager \<Rightarrow> JobStats" where
  "Stats jm = \<lparr>pending_count = length (queue jm), in_flight_count = card (dom (inFlight jm)),
     completed_count = card (dom (completed jm)), dead_count = card (dom (dead jm))\<rparr>"

text \<open>
  \<open>Restore\<close> clears the maps and files every job of the snapshot by its status. The jobs
  of the snapshot are objects of their own (fresh from the decoder or deep copies), so each is
  given a fresh address. \<open>ord\<close> is the order in which the runtime visits \<open>data.Jobs\<close>.
\<close>

definition restore_entry :: "JobID \<Rightarrow> Job \<Rightarrow> JobManager \<Rightarrow> JobManager" where
  "restore_entry jobID job jm =
     (let a = nxt jm;
          jm' = jm\<lparr>heap := (heap jm)(a := job), nxt := Suc a, jobs := (jobs jm)(jobID \<mapsto> a)\<rparr>
      in case Status job of
           StatusPending \<Rightarrow> jm'\<lparr>queue := queue jm' @ [jobID]\<rparr>
         | StatusInFlight \<Rightarrow> jm'\<lparr>inFlight := (inFlight jm')(jobID \<mapsto> a)\<rparr>
         | StatusCompleted \<Rightarrow> jm'\<lparr>completed := (completed jm')(jobID \<mapsto> a)\<rparr>
         | StatusDead \<Rightarrow> jm'\<lparr>dead := (dead jm')(jobID \<mapsto> a)\<rparr>
         | StatusOther s \<Rightarrow> jm')"

fun restore_loop :: "JobID list \<Rightarrow> (JobID \<rightharpoonup> Job) \<Rightarrow> JobManager \<Rightarrow> JobManager" where
  "restore_loop [] js jm = jm"
| "restore_loop (jobID # ord) js jm =
     restore_loop ord js (case js jobID of None \<Rightarrow> jm | Some job \<Rightarrow> restore_entry jobID job jm)"

definition cleared :: "JobManager \<Rightarrow> JobManager" where
  "cleared jm = jm\<lparr>jobs := Map.empty, queue := [], inFlight := Map.empty,
     completed := Map.empty, dead := Map.empty\<rparr>"

definition Restore :: "JobID list \<Rightarrow> SnapshotData \<Rightarrow> JobManager \<Rightarrow> JobManager" where
  "Restore ord data jm = restore_loop ord (Jobs data) (cleared jm)"

text \<open>The two snapshots copy the jobs the main map points to; \<open>LastSeq\<close> keeps its zero value.\<close>

definition job_view :: "JobManager \<Rightarrow> JobID \<rightharpoonup> Job" where
  "job_view jm = (\<lambda>jobID. map_option (heap jm) (jobs jm jobID))"

definition Snapshot :: "JobManager \<Rightarrow> SnapshotData" where
  "Snapshot jm = \<lparr>Jobs = job_view jm, SchemaVer = 1, LastSeq = 0\<rparr>"

definition PartialSnapshot :: "JobManager \<Rightarrow> SnapshotData" where
  "PartialSnapshot jm =
     \<lparr>Jobs = (\<lambda>jobID. case job_view jm jobID of
                None \<Rightarrow> None
              | Some job \<Rightarrow>
                  if Status job = StatusPending \<or> Status job = StatusInFlight then Some job else None),
      SchemaVer = 2, LastSeq = 0\<rparr>"

definition IsCompleted :: "JobID \<Rightarrow> JobManager \<Rightarrow> bool" where
  "IsCompleted jobID jm \<longleftrightarrow> completed jm jobID \<noteq> None"

definition IsDead :: "JobID \<Rightarrow> JobManager \<Rightarrow> bool" where
  "IsDead jobID jm \<longleftrightarrow> dead jm jobID \<noteq> None"

definition GetJob :: "JobID \<Rightarrow> JobManager \<Rightarrow> addr option" where
  "GetJob jobID jm = jobs jm jobID"

definition GetTotalJobs :: "JobManager \<Rightarrow> nat" where
  "GetTotalJobs jm = card (dom (jobs jm))"

text \<open>
  The controller holds the pointer \<open>GetJob\<close> returned and executes \<open>job.Attempt++\<close>
  through it: a write to the shared store outside the manager's methods.
\<close>

definition bump_attempt :: "addr \<Rightarrow> JobManager \<Rightarrow> JobManager" where
  "bump_attempt a jm = jm\<lparr>heap := (heap jm)(a := (heap jm a)\<lparr>Attempt := Attempt (heap jm a) + 1\<rparr>)\<rparr>"

lemmas [jm_defs] = SetLastAppliedIndex_def Enqueue_def PopPending_def MarkInFlight_def
  MarkCompleted_def Requeue_def MarkDead_def bump_attempt_def

end
