(* ===== verification/JobInvariant.thy ===== *)
theory JobInvariant
  imports JobManager
begin

text \<open>
  The well-formedness of the job manager's store: the main map is an injective map into allocated
  addresses, and every index map holds exactly the main map's pointers of the jobs with its
  status. The \<open>completed\<close> index is the exception: \<open>MarkDead\<close> never deletes from it, so it may
  keep a job that died after completing. Every operation keeps the invariant.
\<close>

section \<open>The invariant\<close>

text \<open>The main map restricted to the jobs whose status is in a set.\<close>

definition with_status :: "JobStatus set \<Rightarrow> JobManager \<Rightarrow> JobID \<rightharpoonup> addr" where
  "with_status S jm = (\<lambda>i. case jobs jm i of
     None \<Rightarrow> None | Some a \<Rightarrow> if Status (heap jm a) \<in> S then Some a else None)"

definition ptr_inj :: "JobManager \<Rightarrow> bool" where
  "ptr_inj jm \<longleftrightarrow> inj_on (jobs jm) (dom (jobs jm)) \<and> ran (jobs jm) \<subseteq> {..< nxt jm}"

definition index_ok :: "JobManager \<Rightarrow> bool" where
  "index_ok jm \<longleftrightarrow>
     inFlight jm = with_status {StatusInFlight} jm \<and>
     dead jm = with_status {StatusDead} jm \<and>
     with_status {StatusCompleted} jm \<subseteq>\<^sub>m completed jm \<and>
     completed jm \<subseteq>\<^sub>m with_status {StatusCompleted, StatusDead} jm"

definition jm_inv :: "JobManager \<Rightarrow> bool" where
  "jm_inv jm \<longleftrightarrow> ptr_inj jm \<and> index_ok jm \<and>
     finite (dom (jobs jm)) \<and> set (queue jm) \<subseteq> dom (jobs jm)"

lemma with_status_Some:
  "with_status S jm i = Some a \<longleftrightarrow> jobs jm i = Some a \<and> Status (heap jm a) \<in> S"
  by (auto simp: with_status_def split: option.splits)

lemma jm_inv_inj: "jm_inv jm \<Longrightarrow> jobs jm i = Some a \<Longrightarrow> jobs jm j = Some a \<Longrightarrow> i = j"
  unfolding jm_inv_def ptr_inj_def by (metis domI inj_onD)

lemma jm_inv_less: "jm_inv jm \<Longrightarrow> jobs jm i = Some a \<Longrightarrow> a < nxt jm"
  unfolding jm_inv_def ptr_inj_def by (meson lessThan_iff ranI subsetD)

lemma jm_inv_finite: "jm_inv jm \<Longrightarrow> finite (dom (jobs jm))"
  by (simp add: jm_inv_def)

lemma jm_inv_queue: "jm_inv jm \<Longrightarrow> i \<in> set (queue jm) \<Longrightarrow> \<exists>a. jobs jm i = Some a"
  unfolding jm_inv_def by blast

lemma inFlight_eq: "jm_inv jm \<Longrightarrow> inFlight jm = with_status {StatusInFlight} jm"
  by (simp add: jm_inv_def index_ok_def)

lemma dead_eq: "jm_inv jm \<Longrightarrow> dead jm = with_status {StatusDead} jm"
  by (simp add: jm_inv_def index_ok_def)

lemma completed_status:
  assumes "jm_inv jm" and "completed jm i = Some a"
  shows "jobs jm i = Some a \<and> Status (heap jm a) \<in> {StatusCompleted, StatusDead}"
proof -
  have "completed jm \<subseteq>\<^sub>m with_status {StatusCompleted, StatusDead} jm"
    using assms(1) by (simp add: jm_inv_def index_ok_def)
  then have "with_status {StatusCompleted, StatusDead} jm i = Some a"
    using assms(2) by (auto simp: map_le_def dom_def)
  then show ?thesis by (simp only: with_status_Some)
qed

lemma status_completed:
  assumes "jm_inv jm" and "jobs jm i = Some a" and "Status (heap jm a) = StatusCompleted"
  shows "completed jm i = Some a"
proof -
  have "with_status {StatusCompleted} jm \<subseteq>\<^sub>m completed jm"
    using assms(1) by (simp add: jm_inv_def index_ok_def)
  moreover have "with_status {StatusCompleted} jm i = Some a"
    using assms(2,3) by (simp add: with_status_Some)
  ultimately show ?thesis by (metis domI map_le_def)
qed

section \<open>Every operation keeps it\<close>

text \<open>
  A status change writes one object, through the pointer of one ID. By injectivity no other ID
  sees the write, so the restriction to a status changes at that ID only. A new job, at a fresh
  address, is the other way the heap changes.
\<close>

lemma with_status_write:
  assumes inv: "jm_inv jm" and a: "jobs jm i = Some a"
    and jm': "jobs jm' = jobs jm" "heap jm' = (heap jm)(a := j)"
  shows "with_status S jm' = (with_status S jm)(i := if Status j \<in> S then Some a else None)"
proof (rule ext)
  fix k
  show "with_status S jm' k = ((with_status S jm)(i := if Status j \<in> S then Some a else None)) k"
  proof (cases "jobs jm k = Some a")
    case True
    then have "k = i" using inv a by (blast dest: jm_inv_inj)
    then show ?thesis using a jm' by (simp add: with_status_def)
  next
    case False
    then have "k \<noteq> i" using a by auto
    then show ?thesis using False jm' by (auto simp: with_status_def split: option.splits)
  qed
qed

lemma with_status_fresh:
  assumes inv: "jm_inv jm"
    and jm': "jobs jm' = (jobs jm)(i \<mapsto> nxt jm)" "heap jm' = (heap jm)(nxt jm := j)"
  shows "with_status S jm' = (with_status S jm)(i := if Status j \<in> S then Some (nxt jm) else None)"
proof (rule ext)
  fix k
  have "jobs jm k \<noteq> Some (nxt jm)" using inv by (auto dest: jm_inv_less)
  then show "with_status S jm' k
      = ((with_status S jm)(i := if Status j \<in> S then Some (nxt jm) else None)) k"
    using jm' by (auto simp: with_status_def split: option.splits)
qed

lemma ptr_inj_fresh:
  assumes "ptr_inj jm" and "jobs jm i = None"
    and "jobs jm' = (jobs jm)(i \<mapsto> nxt jm)" and "nxt jm' = Suc (nxt jm)"
  shows "ptr_inj jm'"
proof -
  have "i \<notin> dom (jobs jm)" "nxt jm \<notin> ran (jobs jm)"
    using assms(1,2) by (auto simp: ptr_inj_def)
  then have "inj_on (jobs jm') (dom (jobs jm'))"
    unfolding assms(3) using assms(1) by (intro inj_on_map_upd) (simp_all add: ptr_inj_def)
  moreover have "ran (jobs jm') = insert (nxt jm) (ran (jobs jm))"
    using assms(2,3) by simp
  ultimately show ?thesis
    using assms(1,4) by (auto simp: ptr_inj_def)
qed

lemma completed_none:
  assumes "jm_inv jm"
    and "\<And>a. jobs jm i = Some a \<Longrightarrow> Status (heap jm a) \<notin> {StatusCompleted, StatusDead}"
  shows "completed jm i = None"
proof (rule ccontr)
  assume "completed jm i \<noteq> None"
  then obtain a where "completed jm i = Some a" by blast
  from completed_status [OF assms(1) this] show False using assms(2) by blast
qed

lemma index_none: "jm_inv jm \<Longrightarrow> jobs jm i = None \<Longrightarrow> with_status S jm i = None \<and> completed jm i = None"
  by (auto simp: with_status_def intro: completed_none)

text \<open>The index maps after a write: what is left of the invariant for a status operation.\<close>

lemma status_write_inv:
  assumes inv: "jm_inv jm" and a: "jobs jm i = Some a"
    and jm': "jobs jm' = jobs jm" "heap jm' = (heap jm)(a := j)" "nxt jm' = nxt jm"
    and q: "set (queue jm') \<subseteq> insert i (set (queue jm))"
    and fl: "inFlight jm' = (inFlight jm)(i := if Status j = StatusInFlight then Some a else None)"
    and de: "dead jm' = (dead jm)(i := if Status j = StatusDead then Some a else None)"
    and co: "completed jm' = (if Status j = StatusCompleted then (completed jm)(i \<mapsto> a) else completed jm)"
    and nc: "Status j = StatusDead \<or> Status j = StatusCompleted \<or> completed jm i = None"
  shows "jm_inv jm'"
proof -
  note w = with_status_write [OF inv a jm'(1,2)]
  have le: "with_status {StatusCompleted} jm \<subseteq>\<^sub>m completed jm"
    "completed jm \<subseteq>\<^sub>m with_status {StatusCompleted, StatusDead} jm"
    using inv by (simp_all add: jm_inv_def index_ok_def)
  have "completed jm i = Some b \<Longrightarrow> b = a" for b
    using completed_status [OF inv] a by fastforce
  then have "index_ok jm'"
    unfolding index_ok_def w fl de
    using inv le co nc by (auto simp: inFlight_eq dead_eq map_le_def dom_def)
  then show ?thesis
    using inv a jm' q by (auto simp: jm_inv_def ptr_inj_def)
qed

lemma NewJobManager_inv: "jm_inv NewJobManager"
  by (simp add: jm_inv_def ptr_inj_def index_ok_def with_status_def NewJobManager_def)

lemma jm_inv_frame:
  assumes "jm_inv jm" and "jobs jm' = jobs jm" "heap jm' = heap jm" "nxt jm' = nxt jm"
    "inFlight jm' = inFlight jm" "completed jm' = completed jm" "dead jm' = dead jm"
    and "set (queue jm') \<subseteq> set (queue jm)"
  shows "jm_inv jm'"
proof -
  have "with_status S jm' = with_status S jm" for S
    using assms by (simp add: with_status_def cong: option.case_cong)
  then show ?thesis using assms by (auto simp: jm_inv_def ptr_inj_def index_ok_def)
qed

lemma SetLastAppliedIndex_inv: "jm_inv jm \<Longrightarrow> jm_inv (SetLastAppliedIndex n jm)"
  by (erule jm_inv_frame) (simp_all add: SetLastAppliedIndex_def)

lemma PopPending_inv: "jm_inv jm \<Longrightarrow> jm_inv (snd (PopPending jm))"
  by (erule jm_inv_frame) (auto simp: PopPending_def split: list.splits)

lemma bump_attempt_inv: "jm_inv jm \<Longrightarrow> jm_inv (bump_attempt a jm)"
proof -
  have "with_status S (bump_attempt a jm) = with_status S jm" for S
    by (auto simp: with_status_def bump_attempt_def split: option.splits)
  then show "jm_inv jm \<Longrightarrow> ?thesis"
    by (simp add: jm_inv_def ptr_inj_def index_ok_def) (simp add: bump_attempt_def)
qed

lemma fresh_inv:
  assumes inv: "jm_inv jm" and new: "jobs jm i = None"
    and jm': "jobs jm' = (jobs jm)(i \<mapsto> nxt jm)" "heap jm' = (heap jm)(nxt jm := j)" "nxt jm' = Suc (nxt jm)"
    and q: "set (queue jm') \<subseteq> insert i (set (queue jm))"
    and fl: "inFlight jm' = (inFlight jm)(i := if Status j = StatusInFlight then Some (nxt jm) else None)"
    and de: "dead jm' = (dead jm)(i := if Status j = StatusDead then Some (nxt jm) else None)"
    and co: "completed jm' = (completed jm)(i := if Status j = StatusCompleted then Some (nxt jm) else None)"
  shows "jm_inv jm'"
proof -
  note w = with_status_fresh [OF inv jm'(1,2)]
  have le: "with_status {StatusCompleted} jm \<subseteq>\<^sub>m completed jm"
    "completed jm \<subseteq>\<^sub>m with_status {StatusCompleted, StatusDead} jm"
    using inv by (simp_all add: jm_inv_def index_ok_def)
  have "index_ok jm'"
    unfolding index_ok_def w fl de co
    using inv le by (auto simp: inFlight_eq dead_eq map_le_def dom_def)
  moreover have "ptr_inj jm'"
    by (rule ptr_inj_fresh [of jm]) (use inv new jm' in \<open>simp_all add: jm_inv_def\<close>)
  ultimately show ?thesis
    using inv jm' q by (auto simp: jm_inv_def)
qed

lemma Enqueue_inv:
  assumes inv: "jm_inv jm" and e: "Enqueue now job jm = Inr jm'"
  shows "jm_inv jm'"
proof -
  let ?job = "job\<lparr>Status := StatusPending, CreatedAt := now, UpdatedAt := now\<rparr>"
  have new: "jobs jm (ID job) = None"
    and jm': "jm' = jm\<lparr>heap := (heap jm)(nxt jm := ?job), nxt := Suc (nxt jm),
      jobs := (jobs jm)(ID job \<mapsto> nxt jm), queue := queue jm @ [ID job]\<rparr>"
    using e by (auto simp: Enqueue_def Let_def split: if_splits)
  show ?thesis
    by (rule fresh_inv [OF inv new, of jm' ?job])
      (simp_all add: jm' inFlight_eq [OF inv] dead_eq [OF inv] index_none [OF inv new] fun_upd_idem)
qed

text \<open>
  The status operations: each writes one object through the ID's pointer and adjusts the index
  maps as \<open>status_write_inv\<close> wants them.
\<close>

lemma MarkInFlight_inv:
  assumes inv: "jm_inv jm" and e: "MarkInFlight now i d jm = Inr jm'"
  shows "jm_inv jm'"
proof -
  obtain a where a: "jobs jm i = Some a" and st: "Status (heap jm a) = StatusPending"
    using e by (auto simp: MarkInFlight_def split: option.splits if_splits)
  have "completed jm i = None" "dead jm i = None"
    using a st by (auto simp: dead_eq [OF inv] with_status_def intro!: completed_none [OF inv])
  then show ?thesis
    by (intro status_write_inv [OF inv a, of jm' "(heap jm a)\<lparr>Status := StatusInFlight, Deadline := Some d, UpdatedAt := now\<rparr>"])
      (use e a st in \<open>auto simp: MarkInFlight_def fun_upd_idem\<close>)
qed

lemma in_flight_elsewhere:
  assumes inv: "jm_inv jm" and a: "jobs jm i = Some a" and st: "Status (heap jm a) = StatusInFlight"
  shows "completed jm i = None" "dead jm i = None"
  using a st by (auto simp: dead_eq [OF inv] with_status_def intro!: completed_none [OF inv])

lemma MarkCompleted_inv:
  assumes inv: "jm_inv jm" and e: "MarkCompleted now i jm = Inr jm'"
  shows "jm_inv jm'"
proof -
  obtain a where a: "jobs jm i = Some a" and st: "Status (heap jm a) = StatusInFlight"
    using e by (auto simp: MarkCompleted_def split: option.splits if_splits)
  show ?thesis
    using in_flight_elsewhere [OF inv a st]
    by (intro status_write_inv [OF inv a, of jm' "(heap jm a)\<lparr>Status := StatusCompleted, Deadline := None, WorkerID := [], UpdatedAt := now\<rparr>"])
      (use e a st in \<open>auto simp: MarkCompleted_def fun_upd_idem\<close>)
qed

lemma Requeue_inv:
  assumes inv: "jm_inv jm" and e: "Requeue now i jm = Inr jm'"
  shows "jm_inv jm'"
proof -
  obtain a where a: "jobs jm i = Some a" and st: "Status (heap jm a) = StatusInFlight"
    using e by (auto simp: Requeue_def split: option.splits if_splits)
  show ?thesis
    using in_flight_elsewhere [OF inv a st]
    by (intro status_write_inv [OF inv a, of jm' "(heap jm a)\<lparr>Attempt := Attempt (heap jm a) + 1, Status := StatusPending, Deadline := None, WorkerID := [], UpdatedAt := now\<rparr>"])
      (use e a st in \<open>auto simp: Requeue_def fun_upd_idem\<close>)
qed

lemma MarkDead_inv:
  assumes inv: "jm_inv jm" and e: "MarkDead now i jm = Inr jm'"
  shows "jm_inv jm'"
proof -
  obtain a where a: "jobs jm i = Some a"
    using e by (auto simp: MarkDead_def split: option.splits)
  show ?thesis
    by (intro status_write_inv [OF inv a, of jm' "(heap jm a)\<lparr>Status := StatusDead, Deadline := None, WorkerID := [], UpdatedAt := now\<rparr>"])
      (use e a in \<open>auto simp: MarkDead_def\<close>)
qed

section \<open>Restore\<close>

lemma restore_entry_jobs: "jobs (restore_entry i job jm) = (jobs jm)(i \<mapsto> nxt jm)"
  by (simp add: restore_entry_def Let_def split: JobStatus.splits)

lemma restore_entry_inv:
  assumes inv: "jm_inv jm" and new: "jobs jm i = None"
  shows "jm_inv (restore_entry i job jm)"
  using index_none [OF inv new] inv
  by (intro fresh_inv [OF inv new, of _ job])
    (auto simp: restore_entry_def Let_def inFlight_eq dead_eq fun_upd_idem split: JobStatus.splits)

lemma restore_loop_inv:
  "jm_inv jm \<Longrightarrow> distinct ord \<Longrightarrow> (\<And>i. i \<in> set ord \<Longrightarrow> jobs jm i = None) \<Longrightarrow>
   jm_inv (restore_loop ord js jm)"
proof (induction ord arbitrary: jm)
  case Nil
  then show ?case by simp
next
  case (Cons i ord)
  show ?case
  proof (cases "js i")
    case None
    then show ?thesis using Cons by simp
  next
    case (Some job)
    have "jm_inv (restore_entry i job jm)"
      using Cons.prems by (intro restore_entry_inv) auto
    moreover have "j \<in> set ord \<Longrightarrow> jobs (restore_entry i job jm) j = None" for j
      using Cons.prems by (auto simp: restore_entry_jobs)
    ultimately show ?thesis using Cons.IH Cons.prems(2) Some by simp
  qed
qed

lemma cleared_inv: "jm_inv (cleared jm)"
  by (simp add: jm_inv_def ptr_inj_def index_ok_def with_status_def cleared_def)

lemma Restore_inv: "distinct ord \<Longrightarrow> jm_inv (Restore ord data jm)"
  unfolding Restore_def by (rule restore_loop_inv [OF cleared_inv]) (auto simp: cleared_def)

lemmas jm_inv_ops = NewJobManager_inv SetLastAppliedIndex_inv PopPending_inv bump_attempt_inv
  Enqueue_inv MarkInFlight_inv MarkCompleted_inv Requeue_inv MarkDead_inv Restore_inv

end
