(* ===== verification/JobSpec.thy ===== *)
theory JobSpec
  imports JobInvariant
begin

text \<open>
  What the job manager promises, without pointers and index maps: a map from IDs to jobs and the
  pending queue. \<open>jm_abs\<close> reads this state off the manager's store, and every operation of
  the manager implements its specification exactly, errors included: the index maps and the
  sharing of pointers are an implementation detail. The life cycle of a job is then read off the
  specification.
\<close>

section \<open>The specification\<close>

record JobSpec =
  spec_jobs :: "JobID \<rightharpoonup> Job"
  spec_queue :: "JobID list"
  spec_applied :: int

text \<open>The operations a client of the manager can run, with the clock's reading.\<close>

datatype jm_op =
    OpEnqueue int Job
  | OpPop
  | OpInFlight int JobID int
  | OpCompleted int JobID
  | OpRequeue int JobID
  | OpDead int JobID
  | OpBumpAttempt JobID
  | OpApplied int
  | OpRestore "JobID list" SnapshotData

fun op_ok :: "jm_op \<Rightarrow> bool" where
  "op_ok (OpRestore ord data) = enumerates ord (Jobs data)"
| "op_ok _ = True"

fun is_restore :: "jm_op \<Rightarrow> bool" where
  "is_restore (OpRestore ord data) = True"
| "is_restore _ = False"

text \<open>A guarded update of one job: the shape of the four status operations.\<close>

definition spec_update ::
  "JobID \<Rightarrow> (Job \<Rightarrow> Job res) \<Rightarrow> JobSpec \<Rightarrow> JobSpec res" where
  "spec_update i f s =
     (case spec_jobs s i of
        None \<Rightarrow> Inl ErrJobNotFound
      | Some j \<Rightarrow> res_bind (f j) (\<lambda>j'. Inr (s\<lparr>spec_jobs := (spec_jobs s)(i \<mapsto> j')\<rparr>)))"

definition finished :: "int \<Rightarrow> JobStatus \<Rightarrow> Job \<Rightarrow> Job" where
  "finished now st j = j\<lparr>Status := st, Deadline := None, WorkerID := [], UpdatedAt := now\<rparr>"

definition push_queue :: "JobID \<Rightarrow> JobSpec \<Rightarrow> JobSpec" where
  "push_queue i s = s\<lparr>spec_queue := spec_queue s @ [i]\<rparr>"

fun spec_run :: "jm_op \<Rightarrow> JobSpec \<Rightarrow> JobSpec res" where
  "spec_run (OpEnqueue now j) s =
     (if spec_jobs s (ID j) \<noteq> None then Inl ErrDuplicateJob
      else Inr (push_queue (ID j) (s\<lparr>spec_jobs := (spec_jobs s)(ID j \<mapsto>
                  j\<lparr>Status := StatusPending, CreatedAt := now, UpdatedAt := now\<rparr>)\<rparr>)))"
| "spec_run OpPop s = Inr (s\<lparr>spec_queue := tl (spec_queue s)\<rparr>)"
| "spec_run (OpInFlight now i d) s =
     spec_update i (\<lambda>j. if Status j = StatusPending
       then Inr (j\<lparr>Status := StatusInFlight, Deadline := Some d, UpdatedAt := now\<rparr>)
       else Inl ErrNotPending) s"
| "spec_run (OpCompleted now i) s =
     spec_update i (\<lambda>j. if Status j = StatusInFlight
       then Inr (finished now StatusCompleted j) else Inl ErrNotInFlight) s"
| "spec_run (OpRequeue now i) s =
     res_bind (spec_update i (\<lambda>j. if Status j = StatusInFlight
       then Inr (finished now StatusPending (j\<lparr>Attempt := Attempt j + 1\<rparr>)) else Inl ErrNotInFlight) s)
       (\<lambda>s'. Inr (push_queue i s'))"
| "spec_run (OpDead now i) s = spec_update i (\<lambda>j. Inr (finished now StatusDead j)) s"
| "spec_run (OpBumpAttempt i) s = spec_update i (\<lambda>j. Inr (j\<lparr>Attempt := Attempt j + 1\<rparr>)) s"
| "spec_run (OpApplied n) s = Inr (s\<lparr>spec_applied := n\<rparr>)"
| "spec_run (OpRestore ord data) s =
     Inr (s\<lparr>spec_jobs := Jobs data,
            spec_queue := filter (\<lambda>i. case Jobs data i of None \<Rightarrow> False
                                     | Some j \<Rightarrow> Status j = StatusPending) ord\<rparr>)"

text \<open>The job a caller of \<open>PopPending\<close> gets: the one at the front, if there is one.\<close>

definition spec_front :: "JobSpec \<Rightarrow> Job option" where
  "spec_front s = (case spec_queue s of [] \<Rightarrow> None | i # q \<Rightarrow> spec_jobs s i)"

section \<open>The manager's operations\<close>

text \<open>
  \<open>OpBumpAttempt i\<close> is the controller's \<open>job := GetJob(i); if job == nil { return };
  job.Attempt++\<close>, and \<open>OpPop\<close> is \<open>PopPending\<close> with its result read separately.
\<close>

fun run_op :: "jm_op \<Rightarrow> JobManager \<Rightarrow> JobManager res" where
  "run_op (OpEnqueue now j) jm = Enqueue now j jm"
| "run_op OpPop jm = Inr (snd (PopPending jm))"
| "run_op (OpInFlight now i d) jm = MarkInFlight now i d jm"
| "run_op (OpCompleted now i) jm = MarkCompleted now i jm"
| "run_op (OpRequeue now i) jm = Requeue now i jm"
| "run_op (OpDead now i) jm = MarkDead now i jm"
| "run_op (OpBumpAttempt i) jm =
     (case GetJob i jm of None \<Rightarrow> Inl ErrJobNotFound | Some a \<Rightarrow> Inr (bump_attempt a jm))"
| "run_op (OpApplied n) jm = Inr (SetLastAppliedIndex n jm)"
| "run_op (OpRestore ord data) jm = Inr (Restore ord data jm)"

definition jm_abs :: "JobManager \<Rightarrow> JobSpec" where
  "jm_abs jm = \<lparr>spec_jobs = job_view jm, spec_queue = queue jm, spec_applied = lastAppliedIndex jm\<rparr>"

lemma jm_abs_simps [simp]:
  "spec_jobs (jm_abs jm) = job_view jm"
  "spec_queue (jm_abs jm) = queue jm"
  "spec_applied (jm_abs jm) = lastAppliedIndex jm"
  by (simp_all add: jm_abs_def)

lemma job_view_iff: "job_view jm i = Some j \<longleftrightarrow> (\<exists>a. jobs jm i = Some a \<and> j = heap jm a)"
  by (auto simp: job_view_def)

lemma job_view_None [simp]: "job_view jm i = None \<longleftrightarrow> jobs jm i = None"
  by (simp add: job_view_def)

lemma dom_job_view [simp]: "dom (job_view jm) = dom (jobs jm)"
  by (auto simp: dom_def job_view_def)

text \<open>The two ways the view changes: a write through one ID's pointer, a fresh object.\<close>

lemma job_view_write:
  assumes "jm_inv jm" and "jobs jm i = Some a" and "jobs jm' = jobs jm" "heap jm' = (heap jm)(a := j)"
  shows "job_view jm' = (job_view jm)(i \<mapsto> j)"
proof (rule ext)
  fix k
  show "job_view jm' k = ((job_view jm)(i \<mapsto> j)) k"
    using assms by (cases "jobs jm k") (auto simp: job_view_def dest: jm_inv_inj)
qed

lemma job_view_fresh:
  assumes "jm_inv jm" and "jobs jm' = (jobs jm)(i \<mapsto> nxt jm)" "heap jm' = (heap jm)(nxt jm := j)"
  shows "job_view jm' = (job_view jm)(i \<mapsto> j)"
proof (rule ext)
  fix k
  show "job_view jm' k = ((job_view jm)(i \<mapsto> j)) k"
    using assms by (cases "jobs jm k") (auto simp: job_view_def dest: jm_inv_less)
qed

section \<open>Refinement\<close>

lemma run_op_inv:
  assumes "jm_inv jm" and "op_ok op" and "run_op op jm = Inr jm'"
  shows "jm_inv jm'"
  using assms
  by (cases op) (auto intro: jm_inv_ops enumerates_distinct split: option.splits)

lemma restore_loop_view:
  assumes "jm_inv jm" and "distinct ord" and "\<And>i. i \<in> set ord \<Longrightarrow> jobs jm i = None"
  shows "job_view (restore_loop ord js jm) = job_view jm ++ (js |` set ord) \<and>
    queue (restore_loop ord js jm) = queue jm @ filter (\<lambda>i. case js i of None \<Rightarrow> False
                                     | Some j \<Rightarrow> Status j = StatusPending) ord \<and>
    lastAppliedIndex (restore_loop ord js jm) = lastAppliedIndex jm"
  using assms
proof (induction ord arbitrary: jm)
  case Nil
  then show ?case by simp
next
  case (Cons i ord)
  show ?case
  proof (cases "js i")
    case None
    then have "js |` set (i # ord) = js |` set ord"
      by (auto simp: restrict_map_def)
    then show ?thesis using Cons None by simp
  next
    case (Some job)
    let ?jm = "restore_entry i job jm"
    have inv: "jm_inv ?jm" and new: "j \<in> set ord \<Longrightarrow> jobs ?jm j = None" for j
      using Cons.prems by (auto intro: restore_entry_inv simp: restore_entry_jobs)
    have view: "job_view ?jm = (job_view jm)(i \<mapsto> job)"
      by (rule job_view_fresh [OF Cons.prems(1) restore_entry_jobs])
        (simp add: restore_entry_def Let_def split: JobStatus.splits)
    have q: "queue ?jm = queue jm @ (if Status job = StatusPending then [i] else [])"
      "lastAppliedIndex ?jm = lastAppliedIndex jm"
      by (simp_all add: restore_entry_def Let_def split: JobStatus.splits)
    have "(job_view jm)(i \<mapsto> job) ++ (js |` set ord) = job_view jm ++ (js |` set (i # ord))"
      using Some by (auto simp: map_add_def restrict_map_def fun_eq_iff split: option.splits)
    then show ?thesis
      using Cons.IH [OF inv _ new] Cons.prems(2) Some view q by (simp del: fun_upd_apply)
  qed
qed

lemma Restore_abs:
  assumes "enumerates ord (Jobs data)"
  shows "jm_abs (Restore ord data jm) = \<lparr>spec_jobs = Jobs data,
    spec_queue = filter (\<lambda>i. case Jobs data i of None \<Rightarrow> False
                             | Some j \<Rightarrow> Status j = StatusPending) ord,
    spec_applied = lastAppliedIndex jm\<rparr>"
proof -
  have "Jobs data |` set ord = Jobs data"
    using assms by (auto simp: enumerates_def restrict_map_def fun_eq_iff domIff)
  moreover have "job_view (cleared jm) = Map.empty" "queue (cleared jm) = []"
    "lastAppliedIndex (cleared jm) = lastAppliedIndex jm"
    by (simp_all add: cleared_def job_view_def fun_eq_iff)
  ultimately show ?thesis
    using restore_loop_view [OF cleared_inv enumerates_distinct [OF assms], of jm "Jobs data"]
    by (simp add: Restore_def jm_abs_def cleared_def)
qed

lemma status_op_abs:
  assumes "jm_inv jm" and "jobs jm i = Some a"
    and "jobs jm' = jobs jm" "heap jm' = (heap jm)(a := j)" "lastAppliedIndex jm' = lastAppliedIndex jm"
  shows "jm_abs jm' = (jm_abs jm)\<lparr>spec_jobs := (job_view jm)(i \<mapsto> j), spec_queue := queue jm'\<rparr>"
  using job_view_write [OF assms(1-4)] assms(5) by (simp add: jm_abs_def)

lemma run_op_refines:
  assumes inv: "jm_inv jm" and ok: "op_ok op"
  shows "map_sum id jm_abs (run_op op jm) = spec_run op (jm_abs jm)"
proof (cases op)
  case (OpEnqueue now j)
  then show ?thesis
    using job_view_fresh [OF inv, of _ "ID j"]
    by (auto simp: Enqueue_def Let_def jm_abs_def push_queue_def)
next
  case OpPop
  then show ?thesis
    by (simp add: PopPending_def jm_abs_def job_view_def split: list.splits)
next
  case (OpRestore ord data)
  then show ?thesis using ok by (simp add: Restore_abs)
next
  case (OpApplied n)
  then show ?thesis by (simp add: SetLastAppliedIndex_def jm_abs_def job_view_def)
qed (use status_op_abs [OF inv] in
  \<open>auto simp: MarkInFlight_def MarkCompleted_def Requeue_def MarkDead_def GetJob_def bump_attempt_def spec_update_def finished_def
      push_queue_def job_view_iff split: option.splits\<close>)


section \<open>Reachable managers and the life cycle of a job\<close>

text \<open>What a manager can become: any sequence of successful operations from \<open>NewJobManager\<close>.\<close>

inductive jm_reach :: "JobManager \<Rightarrow> bool" where
  reach_new: "jm_reach NewJobManager"
| reach_op: "jm_reach jm \<Longrightarrow> op_ok op \<Longrightarrow> run_op op jm = Inr jm' \<Longrightarrow> jm_reach jm'"

lemma jm_reach_inv: "jm_reach jm \<Longrightarrow> jm_inv jm"
  by (induction rule: jm_reach.induct) (auto intro: NewJobManager_inv run_op_inv)

text \<open>The status changes the specification allows; death is possible from every status.\<close>

fun allowed :: "JobStatus \<Rightarrow> JobStatus \<Rightarrow> bool" where
  "allowed StatusPending StatusInFlight = True"
| "allowed StatusInFlight StatusCompleted = True"
| "allowed StatusInFlight StatusPending = True"
| "allowed s t = (s = t \<or> t = StatusDead)"

lemma allowed_refl [simp]: "allowed s s"
  by (cases s) auto

lemma allowed_dead [simp]: "allowed s StatusDead"
  by (cases s) auto

lemma allowed_from_dead: "allowed StatusDead t \<longleftrightarrow> t = StatusDead"
  by (cases t) auto

lemma allowed_from_completed: "allowed StatusCompleted t \<longleftrightarrow> t \<in> {StatusCompleted, StatusDead}"
  by (cases t) auto

text \<open>One job before and after an operation: what stays, what grows, how the status may move.\<close>

definition job_evolves :: "Job \<Rightarrow> Job \<Rightarrow> bool" where
  "job_evolves j j' \<longleftrightarrow> allowed (Status j) (Status j') \<and> Attempt j \<le> Attempt j' \<and> Attempt j' \<le> Attempt j + 1 \<and>
     ID j' = ID j \<and> Payload j' = Payload j \<and> Timeout j' = Timeout j \<and> CreatedAt j' = CreatedAt j"

lemma spec_update_Inr:
  "spec_update i f s = Inr s' \<longleftrightarrow>
     (\<exists>j j'. spec_jobs s i = Some j \<and> f j = Inr j' \<and> s' = s\<lparr>spec_jobs := (spec_jobs s)(i \<mapsto> j')\<rparr>)"
  by (auto simp: spec_update_def res_bind_Inr_iff split: option.splits)

lemma push_queue_jobs [simp]: "spec_jobs (push_queue i s) = spec_jobs s"
  by (simp add: push_queue_def)

lemma spec_run_evolves:
  assumes "spec_run op s = Inr s'" and "\<not> is_restore op" and "spec_jobs s i = Some j"
  shows "\<exists>j'. spec_jobs s' i = Some j' \<and> job_evolves j j'"
  using assms
  by (cases op)
    (auto simp: spec_update_Inr res_bind_Inr_iff job_evolves_def finished_def split: if_splits)

lemma run_op_abs:
  "jm_inv jm \<Longrightarrow> op_ok op \<Longrightarrow> run_op op jm = Inr jm' \<Longrightarrow> spec_run op (jm_abs jm) = Inr (jm_abs jm')"
  using run_op_refines [of jm op] by simp

lemma run_op_evolves:
  assumes "jm_inv jm" and "op_ok op" and "\<not> is_restore op" and "run_op op jm = Inr jm'"
    and "job_view jm i = Some j"
  shows "\<exists>j'. job_view jm' i = Some j' \<and> job_evolves j j'"
  using spec_run_evolves [OF run_op_abs [OF assms(1,2,4)] assms(3)] assms(5) by simp

text \<open>A whole run of operations, each of which succeeds.\<close>

definition run_ops :: "jm_op list \<Rightarrow> JobManager \<Rightarrow> JobManager res" where
  "run_ops ops jm = run_all run_op ops jm"

definition ops_ok :: "jm_op list \<Rightarrow> bool" where
  "ops_ok ops \<longleftrightarrow> list_all op_ok ops"

definition no_restore :: "jm_op list \<Rightarrow> bool" where
  "no_restore ops \<longleftrightarrow> list_all (\<lambda>op. \<not> is_restore op) ops"

lemma run_ops_inv:
  assumes "jm_inv jm" and "ops_ok ops" and "run_ops ops jm = Inr jm'"
  shows "jm_inv jm'"
  using run_all_invariant [of run_op ops jm jm' jm_inv] assms run_op_inv
  by (auto simp: run_ops_def ops_ok_def list_all_iff)

lemma not_restore_ok: "\<not> is_restore op \<Longrightarrow> op_ok op"
  by (cases op) auto

lemma no_restore_ok: "no_restore ops \<Longrightarrow> ops_ok ops"
  by (auto simp: no_restore_def ops_ok_def list_all_iff intro: not_restore_ok)

definition evolves_to_final :: "Job \<Rightarrow> Job \<Rightarrow> bool" where
  "evolves_to_final j j' \<longleftrightarrow> Attempt j \<le> Attempt j' \<and> ID j' = ID j \<and> Payload j' = Payload j \<and>
     (Status j = StatusDead \<longrightarrow> Status j' = StatusDead) \<and>
     (Status j = StatusCompleted \<longrightarrow> Status j' \<in> {StatusCompleted, StatusDead})"

lemma run_ops_final:
  assumes inv: "jm_inv jm" and nr: "no_restore ops" and run: "run_ops ops jm = Inr jm'"
    and j: "job_view jm i = Some j"
  shows "\<exists>j'. job_view jm' i = Some j' \<and> evolves_to_final j j'"
proof -
  let ?P = "\<lambda>u. jm_inv u \<and> (\<exists>j'. job_view u i = Some j' \<and> evolves_to_final j j')"
  have step: "?P v" if op: "op \<in> set ops" and P: "?P u" and e: "run_op op u = Inr v" for op u v
  proof -
    have nr': "\<not> is_restore op" using op nr by (auto simp: no_restore_def list_all_iff)
    note ok = not_restore_ok [OF nr'] nr'
    obtain k where k: "job_view u i = Some k" "evolves_to_final j k" using P by blast
    obtain k' where k': "job_view v i = Some k'" "job_evolves k k'"
      using run_op_evolves [OF _ ok e k(1)] P by blast
    have "evolves_to_final j k'"
      using k(2) k'(2) unfolding evolves_to_final_def job_evolves_def
      by (auto simp: allowed_from_dead allowed_from_completed)
    then show ?thesis using P e k'(1) run_op_inv ok by blast
  qed
  have "?P jm" using inv j by (simp add: evolves_to_final_def)
  then have "?P jm'"
    by (rule run_all_invariant [of run_op ops jm jm' ?P, OF run [unfolded run_ops_def] _ step])
  then show ?thesis by blast
qed

lemma run_ops_Cons: "run_ops (op # ops) jm = Inr jm' \<longleftrightarrow> (\<exists>u. run_op op jm = Inr u \<and> run_ops ops u = Inr jm')"
  by (simp add: run_ops_def res_bind_Inr_iff)

text \<open>An operation raises the attempt count of a job by at most one.\<close>

lemma run_ops_attempts:
  assumes "jm_inv jm" and "no_restore ops" and "run_ops ops jm = Inr jm'" and "job_view jm i = Some j"
  shows "\<exists>j'. job_view jm' i = Some j' \<and> Attempt j' \<le> Attempt j + int (length ops)"
  using assms
proof (induction ops arbitrary: jm j)
  case Nil
  then show ?case by (simp add: run_ops_def)
next
  case (Cons op ops)
  obtain u where u: "run_op op jm = Inr u" "run_ops ops u = Inr jm'" using Cons.prems(3) by (auto simp: run_ops_Cons)
  have nr: "\<not> is_restore op" "no_restore ops" using Cons.prems(2) by (simp_all add: no_restore_def)
  note ok = not_restore_ok [OF nr(1)]
  obtain k where k: "job_view u i = Some k" "Attempt k \<le> Attempt j + 1"
    using run_op_evolves [OF Cons.prems(1) ok nr(1) u(1) Cons.prems(4)] by (auto simp: job_evolves_def)
  then show ?case using Cons.IH [OF run_op_inv [OF Cons.prems(1) ok u(1)] nr(2) u(2) k(1)] by fastforce
qed

section \<open>The reading operations\<close>

lemma GetExpiredJobs_iff:
  assumes inv: "jm_inv jm" and ord: "enumerates ord (inFlight jm)"
  shows "i \<in> set (GetExpiredJobs ord now jm) \<longleftrightarrow>
    (\<exists>j d. job_view jm i = Some j \<and> Status j = StatusInFlight \<and> Deadline j = Some d \<and> d < now)"
  using enumerates_set [OF ord]
  by (auto simp: GetExpiredJobs_def inFlight_eq [OF inv] with_status_def job_view_iff expired_def
      dom_def split: option.splits if_splits)

lemma GetAllInFlightJobs_set:
  assumes "jm_inv jm" and "enumerates ord (inFlight jm)"
  shows "set (GetAllInFlightJobs ord jm) = {i. \<exists>j. job_view jm i = Some j \<and> Status j = StatusInFlight}"
  using enumerates_set [OF assms(2)]
  by (auto simp: GetAllInFlightJobs_def inFlight_eq [OF assms(1)] with_status_Some job_view_iff)

lemma GetAllInFlightJobs_distinct: "enumerates ord m \<Longrightarrow> distinct (GetAllInFlightJobs ord jm)"
  by (simp add: GetAllInFlightJobs_def enumerates_def)

lemma IsDead_iff: "jm_inv jm \<Longrightarrow>
    IsDead i jm \<longleftrightarrow> (\<exists>j. job_view jm i = Some j \<and> Status j = StatusDead)"
  by (auto simp: IsDead_def dead_eq with_status_Some job_view_iff)

lemma IsCompleted_status: "jm_inv jm \<Longrightarrow> IsCompleted i jm \<Longrightarrow>
    \<exists>j. job_view jm i = Some j \<and> Status j \<in> {StatusCompleted, StatusDead}"
  unfolding IsCompleted_def job_view_iff by (blast dest: completed_status)

lemma status_IsCompleted: "jm_inv jm \<Longrightarrow> job_view jm i = Some j \<Longrightarrow> Status j = StatusCompleted \<Longrightarrow>
    IsCompleted i jm"
  unfolding IsCompleted_def job_view_iff by (auto dest: status_completed)

end
