(* ===== verification/JobStore.thy ===== *)
theory JobStore
  imports JobSpec
begin

text \<open>
  The interface through which the controller and its recovery use the job manager, as contracts:
  \<open>job_store\<close> (the status operations and what each does to the status map) and its extension
  \<open>job_queue\<close> (the pending queue). What a client needs of a store is proved once from the laws:
  two stores that agree on all statuses answer every status operation alike, and popping \<open>n\<close>
  times takes the first \<open>n\<close> IDs in order. The job manager is the provider, and so is its
  specification.
\<close>

section \<open>The status contract\<close>

locale job_store =
  fixes invar :: "'s \<Rightarrow> bool"
    and status :: "'s \<Rightarrow> JobID \<Rightarrow> JobStatus option"
    and mark_in_flight :: "int \<Rightarrow> JobID \<Rightarrow> int \<Rightarrow> 's \<Rightarrow> 's res"
    and mark_completed :: "int \<Rightarrow> JobID \<Rightarrow> 's \<Rightarrow> 's res"
    and requeue :: "int \<Rightarrow> JobID \<Rightarrow> 's \<Rightarrow> 's res"
    and mark_dead :: "int \<Rightarrow> JobID \<Rightarrow> 's \<Rightarrow> 's res"
  assumes in_flight_ok: "invar s \<Longrightarrow> status s i = Some StatusPending \<Longrightarrow>
      \<exists>s'. mark_in_flight now i d s = Inr s' \<and> status s' = (status s)(i \<mapsto> StatusInFlight)"
    and in_flight_err: "invar s \<Longrightarrow> status s i \<noteq> Some StatusPending \<Longrightarrow>
      mark_in_flight now i d s = Inl (if status s i = None then ErrJobNotFound else ErrNotPending)"
    and completed_ok: "invar s \<Longrightarrow> status s i = Some StatusInFlight \<Longrightarrow>
      \<exists>s'. mark_completed now i s = Inr s' \<and> status s' = (status s)(i \<mapsto> StatusCompleted)"
    and completed_err: "invar s \<Longrightarrow> status s i \<noteq> Some StatusInFlight \<Longrightarrow>
      mark_completed now i s = Inl (if status s i = None then ErrJobNotFound else ErrNotInFlight)"
    and requeue_ok: "invar s \<Longrightarrow> status s i = Some StatusInFlight \<Longrightarrow>
      \<exists>s'. requeue now i s = Inr s' \<and> status s' = (status s)(i \<mapsto> StatusPending)"
    and requeue_err: "invar s \<Longrightarrow> status s i \<noteq> Some StatusInFlight \<Longrightarrow>
      requeue now i s = Inl (if status s i = None then ErrJobNotFound else ErrNotInFlight)"
    and dead_ok: "invar s \<Longrightarrow> status s i \<noteq> None \<Longrightarrow>
      \<exists>s'. mark_dead now i s = Inr s' \<and> status s' = (status s)(i \<mapsto> StatusDead)"
    and dead_err: "invar s \<Longrightarrow> status s i = None \<Longrightarrow> mark_dead now i s = Inl ErrJobNotFound"
    and invar_in_flight: "invar s \<Longrightarrow> mark_in_flight now i d s = Inr s' \<Longrightarrow> invar s'"
    and invar_completed: "invar s \<Longrightarrow> mark_completed now i s = Inr s' \<Longrightarrow> invar s'"
    and invar_requeue: "invar s \<Longrightarrow> requeue now i s = Inr s' \<Longrightarrow> invar s'"
    and invar_dead: "invar s \<Longrightarrow> mark_dead now i s = Inr s' \<Longrightarrow> invar s'"
begin

lemma in_flight_Inr: "invar s \<Longrightarrow> mark_in_flight now i d s = Inr s' \<Longrightarrow>
    status s i = Some StatusPending \<and> status s' = (status s)(i \<mapsto> StatusInFlight)"
  by (metis in_flight_err in_flight_ok Inl_Inr_False sum.inject(2))

lemma completed_Inr: "invar s \<Longrightarrow> mark_completed now i s = Inr s' \<Longrightarrow>
    status s i = Some StatusInFlight \<and> status s' = (status s)(i \<mapsto> StatusCompleted)"
  by (metis completed_err completed_ok Inl_Inr_False sum.inject(2))

lemma requeue_Inr: "invar s \<Longrightarrow> requeue now i s = Inr s' \<Longrightarrow>
    status s i = Some StatusInFlight \<and> status s' = (status s)(i \<mapsto> StatusPending)"
  by (metis requeue_err requeue_ok Inl_Inr_False sum.inject(2))

lemma dead_Inr: "invar s \<Longrightarrow> mark_dead now i s = Inr s' \<Longrightarrow>
    status s i \<noteq> None \<and> status s' = (status s)(i \<mapsto> StatusDead)"
  by (metis dead_err dead_ok Inl_Inr_False sum.inject(2))

text \<open>
  Two stores with the same statuses go in lock step: the clocks and deadlines, the attempts and
  the queues may differ.
\<close>

lemma in_flight_lockstep:
  "invar s \<Longrightarrow> invar t \<Longrightarrow> status t = status s \<Longrightarrow> mark_in_flight now i d s = Inr s' \<Longrightarrow>
   \<exists>t'. mark_in_flight now' i d' t = Inr t' \<and> status t' = status s'"
  by (metis in_flight_Inr in_flight_ok)

lemma completed_lockstep:
  "invar s \<Longrightarrow> invar t \<Longrightarrow> status t = status s \<Longrightarrow> mark_completed now i s = Inr s' \<Longrightarrow>
   \<exists>t'. mark_completed now' i t = Inr t' \<and> status t' = status s'"
  by (metis completed_Inr completed_ok)

lemma requeue_lockstep:
  "invar s \<Longrightarrow> invar t \<Longrightarrow> status t = status s \<Longrightarrow> requeue now i s = Inr s' \<Longrightarrow>
   \<exists>t'. requeue now' i t = Inr t' \<and> status t' = status s'"
  by (metis requeue_Inr requeue_ok)

lemma dead_lockstep:
  "invar s \<Longrightarrow> invar t \<Longrightarrow> status t = status s \<Longrightarrow> mark_dead now i s = Inr s' \<Longrightarrow>
   \<exists>t'. mark_dead now' i t = Inr t' \<and> status t' = status s'"
  by (metis dead_Inr dead_ok)

text \<open>A second completion, requeue or dispatch of a job that has moved on is refused.\<close>

lemma completed_twice: "invar s \<Longrightarrow> mark_completed now i s = Inr s' \<Longrightarrow>
    mark_completed now' i s' = Inl ErrNotInFlight"
  using completed_err [of s' i now'] completed_Inr [of s now i s'] invar_completed by simp

lemma in_flight_twice: "invar s \<Longrightarrow> mark_in_flight now i d s = Inr s' \<Longrightarrow>
    mark_in_flight now' i d' s' = Inl ErrNotPending"
  using in_flight_err [of s' i now' d'] in_flight_Inr [of s now i d s'] invar_in_flight by simp

lemma requeue_twice: "invar s \<Longrightarrow> requeue now i s = Inr s' \<Longrightarrow>
    requeue now' i s' = Inl ErrNotInFlight"
  using requeue_err [of s' i now'] requeue_Inr [of s now i s'] invar_requeue by simp

text \<open>One round of work: dispatch and requeue restore the status map.\<close>

lemma dispatch_requeue_status:
  assumes "invar s" and "mark_in_flight now i d s = Inr s'" and "requeue now' i s' = Inr s''"
  shows "status s'' = status s"
  using assms in_flight_Inr [OF assms(1,2)] requeue_Inr [OF invar_in_flight [OF assms(1,2)] assms(3)]
  by (simp add: fun_upd_idem)

end

section \<open>The queue contract\<close>

locale job_queue = job_store +
  fixes pending :: "'s \<Rightarrow> JobID list"
    and pop :: "'s \<Rightarrow> 's"
  assumes pop_pending: "pending (pop s) = tl (pending s)"
    and pop_status: "invar s \<Longrightarrow> status (pop s) = status s"
    and invar_pop: "invar s \<Longrightarrow> invar (pop s)"
    and pending_known: "invar s \<Longrightarrow> i \<in> set (pending s) \<Longrightarrow> status s i \<noteq> None"
    and requeue_pending: "invar s \<Longrightarrow> requeue now i s = Inr s' \<Longrightarrow> pending s' = pending s @ [i]"
    and in_flight_pending: "mark_in_flight now i d s = Inr s' \<Longrightarrow> pending s' = pending s"
    and completed_pending: "mark_completed now i s = Inr s' \<Longrightarrow> pending s' = pending s"
    and dead_pending: "mark_dead now i s = Inr s' \<Longrightarrow> pending s' = pending s"
begin

text \<open>
  A queue is clean when it lists pending jobs only, each once. The discipline of the dispatch
  loop (pop, then mark) keeps it clean; marking a job in flight while it is still queued does
  not, and neither does killing a queued job.
\<close>

lemma pops_pending: "pending ((pop ^^ n) s) = drop n (pending s)"
  by (induction n) (simp_all add: pop_pending drop_Suc tl_drop)

lemma invar_pops: "invar s \<Longrightarrow> invar ((pop ^^ n) s)"
  by (induction n) (simp_all add: invar_pop)

lemma pops_status: "invar s \<Longrightarrow> status ((pop ^^ n) s) = status s"
  by (induction n) (simp_all add: pop_status invar_pops)

lemma requeue_clean:
  assumes "invar s" and "requeue now i s = Inr s'"
    and "distinct (pending s)" and "\<forall>j \<in> set (pending s). status s j = Some StatusPending"
  shows "distinct (pending s') \<and> (\<forall>j \<in> set (pending s'). status s' j = Some StatusPending)"
  using assms requeue_pending requeue_Inr [OF assms(1,2)] by fastforce

lemma in_flight_clean:
  assumes "invar s" and "mark_in_flight now i d s = Inr s'" and "i \<notin> set (pending s)"
    and "distinct (pending s)" and "\<forall>j \<in> set (pending s). status s j = Some StatusPending"
  shows "distinct (pending s') \<and> (\<forall>j \<in> set (pending s'). status s' j = Some StatusPending)"
  using assms in_flight_pending in_flight_Inr [OF assms(1,2)] by fastforce

lemma in_flight_unclean:
  assumes "invar s" and "mark_in_flight now i d s = Inr s'" and "i \<in> set (pending s)"
  shows "i \<in> set (pending s') \<and> status s' i = Some StatusInFlight"
  using assms in_flight_pending in_flight_Inr [OF assms(1,2)] by fastforce

lemma completed_clean:
  assumes "invar s" and "mark_completed now i s = Inr s'"
    and "distinct (pending s)" and "\<forall>j \<in> set (pending s). status s j = Some StatusPending"
  shows "distinct (pending s') \<and> (\<forall>j \<in> set (pending s'). status s' j = Some StatusPending)"
  using assms completed_pending completed_Inr [OF assms(1,2)] by fastforce

lemma dead_clean:
  assumes "invar s" and "mark_dead now i s = Inr s'" and "i \<notin> set (pending s)"
    and "distinct (pending s)" and "\<forall>j \<in> set (pending s). status s j = Some StatusPending"
  shows "distinct (pending s') \<and> (\<forall>j \<in> set (pending s'). status s' j = Some StatusPending)"
  using assms dead_pending dead_Inr [OF assms(1,2)] by fastforce

end

section \<open>The specification is a provider\<close>

definition spec_status :: "JobSpec \<Rightarrow> JobID \<Rightarrow> JobStatus option" where
  "spec_status s = (\<lambda>i. map_option Status (spec_jobs s i))"

definition spec_inv :: "JobSpec \<Rightarrow> bool" where
  "spec_inv s \<longleftrightarrow> set (spec_queue s) \<subseteq> dom (spec_jobs s)"

lemma spec_status_upd: "spec_status (s\<lparr>spec_jobs := (spec_jobs s)(i \<mapsto> j)\<rparr>) = (spec_status s)(i \<mapsto> Status j)"
  by (simp add: spec_status_def fun_eq_iff)

lemma push_queue_status [simp]: "spec_status (push_queue i s) = spec_status s"
  by (simp add: spec_status_def)

interpretation spec_store: job_queue spec_inv spec_status
    "\<lambda>now i d. spec_run (OpInFlight now i d)" "\<lambda>now i. spec_run (OpCompleted now i)"
    "\<lambda>now i. spec_run (OpRequeue now i)" "\<lambda>now i. spec_run (OpDead now i)"
    spec_queue "\<lambda>s. s\<lparr>spec_queue := tl (spec_queue s)\<rparr>"
  by unfold_locales
    (auto simp: spec_update_def spec_status_def finished_def spec_inv_def push_queue_def fun_eq_iff
      res_bind_Inr_iff dest: in_set_tl split: option.splits if_splits)

section \<open>The job manager is a provider\<close>

definition job_status :: "JobManager \<Rightarrow> JobID \<Rightarrow> JobStatus option" where
  "job_status jm = (\<lambda>i. map_option Status (job_view jm i))"

lemma spec_status_abs [simp]: "spec_status (jm_abs jm) = job_status jm"
  by (simp add: spec_status_def job_status_def)

lemma spec_inv_abs: "jm_inv jm \<Longrightarrow> spec_inv (jm_abs jm)"
  by (auto simp: spec_inv_def dest: jm_inv_queue)

text \<open>Every law of the manager is its specification's, through the refinement.\<close>

lemma run_op_Inl: "jm_inv jm \<Longrightarrow> op_ok op \<Longrightarrow> run_op op jm = Inl e \<longleftrightarrow> spec_run op (jm_abs jm) = Inl e"
  using run_op_refines [of jm op] by (cases "run_op op jm") (metis Inl_Inr_False map_sum.simps id_apply)+

lemma run_op_Inr: "jm_inv jm \<Longrightarrow> op_ok op \<Longrightarrow> spec_run op (jm_abs jm) = Inr s \<Longrightarrow>
    \<exists>jm'. run_op op jm = Inr jm' \<and> jm_abs jm' = s"
  using run_op_refines [of jm op] by (cases "run_op op jm") auto

lemma run_op_status_ok:
  assumes "jm_inv jm" and "op_ok op"
    and "\<exists>s. spec_run op (jm_abs jm) = Inr s \<and> spec_status s = f (spec_status (jm_abs jm))"
  shows "\<exists>jm'. run_op op jm = Inr jm' \<and> job_status jm' = f (job_status jm)"
proof -
  obtain s where s: "spec_run op (jm_abs jm) = Inr s" "spec_status s = f (spec_status (jm_abs jm))"
    using assms(3) by blast
  obtain jm' where "run_op op jm = Inr jm'" "jm_abs jm' = s"
    using run_op_Inr [OF assms(1,2) s(1)] by blast
  then show ?thesis using s(2) by auto
qed

lemma run_op_queue:
  assumes "jm_inv jm" and "op_ok op" and "run_op op jm = Inr jm'"
    and "\<And>s. spec_run op (jm_abs jm) = Inr s \<Longrightarrow> spec_queue s = q"
  shows "queue jm' = q"
  using assms(4) [OF run_op_abs [OF assms(1-3)]] by simp

lemma jm_in_flight_ok: "jm_inv s \<Longrightarrow> job_status s i = Some StatusPending \<Longrightarrow>
    \<exists>s'. MarkInFlight now i d s = Inr s' \<and> job_status s' = (job_status s)(i \<mapsto> StatusInFlight)"
  using run_op_status_ok [of s "OpInFlight now i d" "\<lambda>m. m(i \<mapsto> StatusInFlight)"]
    spec_store.in_flight_ok [OF spec_inv_abs, of s i now d] by simp

lemma jm_completed_ok: "jm_inv s \<Longrightarrow> job_status s i = Some StatusInFlight \<Longrightarrow>
    \<exists>s'. MarkCompleted now i s = Inr s' \<and> job_status s' = (job_status s)(i \<mapsto> StatusCompleted)"
  using run_op_status_ok [of s "OpCompleted now i" "\<lambda>m. m(i \<mapsto> StatusCompleted)"]
    spec_store.completed_ok [OF spec_inv_abs, of s i now] by simp

lemma jm_requeue_ok: "jm_inv s \<Longrightarrow> job_status s i = Some StatusInFlight \<Longrightarrow>
    \<exists>s'. Requeue now i s = Inr s' \<and> job_status s' = (job_status s)(i \<mapsto> StatusPending)"
  using run_op_status_ok [of s "OpRequeue now i" "\<lambda>m. m(i \<mapsto> StatusPending)"]
    spec_store.requeue_ok [OF spec_inv_abs, of s i now] by simp

lemma jm_dead_ok: "jm_inv s \<Longrightarrow> job_status s i \<noteq> None \<Longrightarrow>
    \<exists>s'. MarkDead now i s = Inr s' \<and> job_status s' = (job_status s)(i \<mapsto> StatusDead)"
  using run_op_status_ok [of s "OpDead now i" "\<lambda>m. m(i \<mapsto> StatusDead)"]
    spec_store.dead_ok [OF spec_inv_abs, of s i now] by simp

lemma jm_status_err:
  assumes "jm_inv s"
  shows "job_status s i \<noteq> Some StatusPending \<Longrightarrow>
      MarkInFlight now i d s = Inl (if job_status s i = None then ErrJobNotFound else ErrNotPending)"
    and "job_status s i \<noteq> Some StatusInFlight \<Longrightarrow>
      MarkCompleted now i s = Inl (if job_status s i = None then ErrJobNotFound else ErrNotInFlight)"
    and "job_status s i \<noteq> Some StatusInFlight \<Longrightarrow>
      Requeue now i s = Inl (if job_status s i = None then ErrJobNotFound else ErrNotInFlight)"
    and "job_status s i = None \<Longrightarrow> MarkDead now i s = Inl ErrJobNotFound"
  using run_op_Inl [OF assms, of "OpInFlight now i d"] spec_store.in_flight_err [OF spec_inv_abs [OF assms], of i now d]
    run_op_Inl [OF assms, of "OpCompleted now i"] spec_store.completed_err [OF spec_inv_abs [OF assms], of i now]
    run_op_Inl [OF assms, of "OpRequeue now i"] spec_store.requeue_err [OF spec_inv_abs [OF assms], of i now]
    run_op_Inl [OF assms, of "OpDead now i"] spec_store.dead_err [OF spec_inv_abs [OF assms], of i now]
  by simp_all

lemma status_op_queue:
  "MarkInFlight now i d s = Inr s' \<Longrightarrow> queue s' = queue s"
  "MarkCompleted now i s = Inr s' \<Longrightarrow> queue s' = queue s"
  "Requeue now i s = Inr s' \<Longrightarrow> queue s' = queue s @ [i]"
  "MarkDead now i s = Inr s' \<Longrightarrow> queue s' = queue s"
  by (auto simp: MarkInFlight_def MarkCompleted_def Requeue_def MarkDead_def
      split: option.splits if_splits)

lemma pop_queue: "queue (snd (PopPending jm)) = tl (queue jm)"
  by (simp add: PopPending_def split: list.splits)

lemma pop_view [simp]: "job_view (snd (PopPending jm)) = job_view jm"
  by (auto simp: PopPending_def job_view_def split: list.splits)

interpretation jm_store: job_queue jm_inv job_status MarkInFlight MarkCompleted Requeue MarkDead
    queue "\<lambda>jm. snd (PopPending jm)"
proof unfold_locales
  show "queue (snd (PopPending s)) = tl (queue s)" for s
    by (rule pop_queue)
  show "i \<in> set (queue s) \<Longrightarrow> job_status s i \<noteq> None" if "jm_inv s" for s i
    using jm_inv_queue [OF that] by (auto simp: job_status_def)
qed (auto simp: jm_status_err job_status_def [of "snd _"] status_op_queue
    intro: jm_in_flight_ok jm_completed_ok jm_requeue_ok jm_dead_ok jm_inv_ops,
    simp add: job_status_def)

end
