(* ===== verification/JobProps.thy ===== *)
theory JobProps
  imports JobStore
begin

text \<open>
  Properties of the job manager: its store is well formed in every reachable state, it implements
  its specification, a finished job stays finished, snapshots restore, and what its guards
  let through.
\<close>

section \<open>Sample runs\<close>

lemma run_ops_reach:
  assumes "jm_reach jm" and "ops_ok ops" and run: "run_ops ops jm = Inr jm'"
  shows "jm_reach jm'"
proof (rule run_all_invariant [of run_op ops jm jm' jm_reach, OF run [unfolded run_ops_def] assms(1)])
  fix op u v
  assume "op \<in> set ops" "jm_reach u" "run_op op u = Inr v"
  then show "jm_reach v"
    using assms(2) reach_op by (metis list_all_iff ops_ok_def)
qed

definition job_named :: "JobID \<Rightarrow> Job" where
  "job_named i = zero_job\<lparr>ID := i\<rparr>"

lemma ID_job_named [simp]: "ID (job_named i) = i"
  by (simp add: job_named_def)

text \<open>Two jobs are submitted; the first is dispatched with deadline 50 and completes.\<close>

definition sample_ops :: "jm_op list" where
  "sample_ops = [OpEnqueue 1 (job_named ''a''), OpEnqueue 2 (job_named ''b''), OpPop,
     OpInFlight 3 ''a'' 50, OpCompleted 4 ''a'']"

lemma sample_run:
  "\<exists>jm. run_ops sample_ops NewJobManager = Inr jm \<and>
     map_option Status (job_view jm ''a'') = Some StatusCompleted \<and>
     map_option Status (job_view jm ''b'') = Some StatusPending \<and> queue jm = [''b''] \<and>
     dom (jobs jm) = {''a'', ''b''}"
  by (simp add: run_ops_def sample_ops_def jm_defs NewJobManager_def job_view_def Let_def insert_commute)

definition sample_jm :: JobManager where
  "sample_jm = (case run_ops sample_ops NewJobManager of Inr jm \<Rightarrow> jm | Inl e \<Rightarrow> NewJobManager)"

lemma sample_jm:
  "run_ops sample_ops NewJobManager = Inr sample_jm"
  "map_option Status (job_view sample_jm ''a'') = Some StatusCompleted"
  "map_option Status (job_view sample_jm ''b'') = Some StatusPending"
  "queue sample_jm = [''b'']" "dom (jobs sample_jm) = {''a'', ''b''}"
proof -
  obtain jm where jm: "run_ops sample_ops NewJobManager = Inr jm"
    "map_option Status (job_view jm ''a'') = Some StatusCompleted"
    "map_option Status (job_view jm ''b'') = Some StatusPending"
    "queue jm = [''b'']" "dom (jobs jm) = {''a'', ''b''}"
    using sample_run by (elim exE conjE) (rule that)
  have "sample_jm = jm" by (simp only: sample_jm_def jm(1) sum.case)
  note eq = this
  show "run_ops sample_ops NewJobManager = Inr sample_jm"
    "map_option Status (job_view sample_jm ''a'') = Some StatusCompleted"
    "map_option Status (job_view sample_jm ''b'') = Some StatusPending"
    "queue sample_jm = [''b'']" "dom (jobs sample_jm) = {''a'', ''b''}"
    by (simp_all only: eq jm)
qed

lemma sample_b_pending: "job_status sample_jm ''b'' = Some StatusPending"
  using sample_jm(3) by (simp only: job_status_def)

lemma sample_jm_reach: "jm_reach sample_jm"
  using run_ops_reach [OF reach_new _ sample_jm(1)] by (simp add: ops_ok_def sample_ops_def)

section \<open>Well-formedness and refinement\<close>

lemma completed_unless_dead:
  assumes "jm_inv jm" and "job_status jm i \<noteq> Some StatusDead"
  shows "completed jm i = with_status {StatusCompleted} jm i"
proof (cases "completed jm i")
  case None
  then show ?thesis using status_completed [OF assms(1)] by (fastforce simp: with_status_def split: option.splits)
next
  case (Some a)
  have "Status (heap jm a) \<noteq> StatusDead" if "jobs jm i = Some a"
    using assms(2) that by (simp add: job_status_def job_view_def)
  then show ?thesis using completed_status [OF assms(1) Some] Some by (auto simp: with_status_def)
qed

text \<open>C11. In every state a client can bring the job manager to, the main map is injective (no two
  IDs share a job object), the in-flight and the dead index hold exactly the main map's pointers
  of the jobs with that status, the completed index holds every completed job and otherwise only
  jobs that died later (so it is exact for every job that is not dead), and every queued ID is a
  known job.\<close>

theorem manager_indexes_consistent:
  assumes "jm_reach jm"
  shows "inj_on (jobs jm) (dom (jobs jm)) \<and>
    inFlight jm = with_status {StatusInFlight} jm \<and> dead jm = with_status {StatusDead} jm \<and>
    with_status {StatusCompleted} jm \<subseteq>\<^sub>m completed jm \<and>
    completed jm \<subseteq>\<^sub>m with_status {StatusCompleted, StatusDead} jm \<and>
    (\<forall>i. job_status jm i \<noteq> Some StatusDead \<longrightarrow> completed jm i = with_status {StatusCompleted} jm i) \<and>
    set (queue jm) \<subseteq> dom (jobs jm)"
  using jm_reach_inv [OF assms] completed_unless_dead [OF jm_reach_inv [OF assms]]
  by (simp add: jm_inv_def ptr_inj_def index_ok_def)

lemma manager_indexes_consistent_witness:
  "inFlight sample_jm = with_status {StatusInFlight} sample_jm \<and>
   set (queue sample_jm) \<subseteq> dom (jobs sample_jm)"
  using manager_indexes_consistent [OF sample_jm_reach] by blast

text \<open>C7. The job manager implements its specification: in every reachable state and for every
  operation, running the operation and then forgetting pointers and indexes gives the same
  result, error or new state, as running the specification's operation on the abstract state; and the
  job \<open>PopPending\<close> hands out is the one the specification has at the front of its queue.\<close>

theorem manager_refines_spec:
  assumes "jm_reach jm" and "op_ok op"
  shows "map_sum id jm_abs (run_op op jm) = spec_run op (jm_abs jm) \<and>
    map_option (heap jm) (fst (PopPending jm)) = spec_front (jm_abs jm)"
  using run_op_refines [OF jm_reach_inv [OF assms(1)] assms(2)]
  by (simp add: spec_front_def PopPending_def job_view_def split: list.split)

lemma manager_refines_spec_witness:
  "map_sum id jm_abs (run_op (OpInFlight 9 ''b'' 70) sample_jm) = spec_run (OpInFlight 9 ''b'' 70) (jm_abs sample_jm) \<and>
   map_option (heap sample_jm) (fst (PopPending sample_jm)) = job_view sample_jm ''b''"
proof -
  have "op_ok (OpInFlight 9 ''b'' 70)" by simp
  from manager_refines_spec [OF sample_jm_reach this] show ?thesis by (simp add: spec_front_def sample_jm(4))
qed

text \<open>C12. No sequence of operations, restoring a snapshot apart, loses a job, lowers its attempt
  count, changes its ID or payload, or revives it: a dead job stays dead, and a completed job
  stays completed unless it is marked dead. The count is a Go \<open>int\<close>: the job is one whose count lies
  below \<open>2\<^sup>6\<^sup>3\<close> by at least the length of the sequence. It then stays below \<open>2\<^sup>6\<^sup>3\<close>, since an operation
  raises it by at most one, and no \<open>Attempt++\<close> on the way wraps.\<close>

theorem finished_jobs_stay_finished:
  assumes "jm_reach jm" and "no_restore ops" and "run_ops ops jm = Inr jm'" and "job_view jm i = Some j"
    and "Attempt j + int (length ops) < 2 ^ 63"
  shows "\<exists>j'. job_view jm' i = Some j' \<and> Attempt j \<le> Attempt j' \<and> Attempt j' \<le> Attempt j + int (length ops) \<and>
    Attempt j' < 2 ^ 63 \<and> ID j' = ID j \<and> Payload j' = Payload j \<and>
    (Status j = StatusDead \<longrightarrow> Status j' = StatusDead) \<and>
    (Status j = StatusCompleted \<longrightarrow> Status j' \<in> {StatusCompleted, StatusDead})"
  using run_ops_final [OF jm_reach_inv [OF assms(1)] assms(2-4)] run_ops_attempts [OF jm_reach_inv [OF assms(1)] assms(2-4)]
    assms(5) by (auto simp: evolves_to_final_def)

lemma sample_attempt: "map_option Attempt (job_view sample_jm ''a'') = Some 0"
proof -
  have "\<exists>jm. run_ops sample_ops NewJobManager = Inr jm \<and> map_option Attempt (job_view jm ''a'') = Some 0"
    by (simp add: run_ops_def sample_ops_def jm_defs NewJobManager_def job_view_def Let_def job_named_def zero_job_def)
  then show ?thesis using sample_jm(1) by auto
qed

lemma finished_jobs_stay_finished_witness:
  "\<exists>j jm' j'. run_ops [OpInFlight 9 ''b'' 70, OpRequeue 10 ''b''] sample_jm = Inr jm' \<and>
    job_view sample_jm ''a'' = Some j \<and> Status j = StatusCompleted \<and>
    job_view jm' ''a'' = Some j' \<and> Status j' \<in> {StatusCompleted, StatusDead}"
proof -
  obtain j where j: "job_view sample_jm ''a'' = Some j" "Status j = StatusCompleted"
    using sample_jm(2) by auto
  obtain jm' where jm': "run_ops [OpInFlight 9 ''b'' 70, OpRequeue 10 ''b''] sample_jm = Inr jm'"
    using sample_jm(3) by (auto simp: run_ops_def jm_defs job_view_def split: option.splits)
  have "no_restore [OpInFlight 9 ''b'' 70, OpRequeue 10 ''b'']" by (simp add: no_restore_def)
  moreover have "Attempt j + int (length [OpInFlight 9 ''b'' 70, OpRequeue 10 ''b'']) < 2 ^ 63"
    using sample_attempt j(1) by simp
  ultimately obtain j' where "job_view jm' ''a'' = Some j'" "Status j' \<in> {StatusCompleted, StatusDead}"
    using finished_jobs_stay_finished [OF sample_jm_reach _ jm' j(1)] j(2) by blast
  then show ?thesis using j jm' by blast
qed

section \<open>Guards\<close>

text \<open>Which status operations succeed is decided by the job's status alone: dispatch needs a
  pending job, completion and requeue an in-flight one, killing any known job. An unknown ID gives
  \<open>ErrJobNotFound\<close>, and a second completion or dispatch is refused.\<close>

theorem status_guards:
  assumes "jm_reach jm"
  shows "((\<exists>jm'. MarkInFlight now i d jm = Inr jm') = (job_status jm i = Some StatusPending)) \<and>
    ((\<exists>jm'. MarkCompleted now i jm = Inr jm') = (job_status jm i = Some StatusInFlight)) \<and>
    ((\<exists>jm'. Requeue now i jm = Inr jm') = (job_status jm i = Some StatusInFlight)) \<and>
    ((\<exists>jm'. MarkDead now i jm = Inr jm') = (job_status jm i \<noteq> None)) \<and>
    (\<forall>jm'. MarkCompleted now i jm = Inr jm' \<longrightarrow> MarkCompleted now' i jm' = Inl ErrNotInFlight) \<and>
    (\<forall>jm'. MarkInFlight now i d jm = Inr jm' \<longrightarrow> MarkInFlight now' i d' jm' = Inl ErrNotPending)"
proof -
  note inv = jm_reach_inv [OF assms]
  have "(\<exists>jm'. MarkInFlight now i d jm = Inr jm') = (job_status jm i = Some StatusPending)"
    using jm_store.in_flight_ok [OF inv] jm_store.in_flight_Inr [OF inv] by metis
  moreover have "(\<exists>jm'. MarkCompleted now i jm = Inr jm') = (job_status jm i = Some StatusInFlight)"
    using jm_store.completed_ok [OF inv] jm_store.completed_Inr [OF inv] by metis
  moreover have "(\<exists>jm'. Requeue now i jm = Inr jm') = (job_status jm i = Some StatusInFlight)"
    using jm_store.requeue_ok [OF inv] jm_store.requeue_Inr [OF inv] by metis
  moreover have "(\<exists>jm'. MarkDead now i jm = Inr jm') = (job_status jm i \<noteq> None)"
    using jm_store.dead_ok [OF inv] jm_store.dead_Inr [OF inv] by metis
  moreover have "\<forall>jm'. MarkCompleted now i jm = Inr jm' \<longrightarrow> MarkCompleted now' i jm' = Inl ErrNotInFlight"
    using jm_store.completed_twice [OF inv] by blast
  moreover have "\<forall>jm'. MarkInFlight now i d jm = Inr jm' \<longrightarrow> MarkInFlight now' i d' jm' = Inl ErrNotPending"
    using jm_store.in_flight_twice [OF inv] by blast
  ultimately show ?thesis by blast
qed

lemma status_guards_witness:
  "(\<exists>jm'. MarkInFlight 9 ''b'' 70 sample_jm = Inr jm') \<and> \<not> (\<exists>jm'. MarkCompleted 9 ''b'' sample_jm = Inr jm')"
  using status_guards [OF sample_jm_reach, of 9 "''b''" 70 0 0] sample_b_pending by simp

text \<open>\<open>MarkDead\<close> has no guard on the status and never deletes from the completed index: a
  completed job can be killed, and the statistics then count one job twice.\<close>

theorem dead_after_completed_counts_twice:
  "\<exists>jm. run_ops [OpEnqueue 1 (job_named ''a''), OpPop, OpInFlight 2 ''a'' 50, OpCompleted 3 ''a'', OpDead 4 ''a'']
      NewJobManager = Inr jm \<and> GetTotalJobs jm = 1 \<and> IsCompleted ''a'' jm \<and> IsDead ''a'' jm \<and>
    completed_count (Stats jm) = 1 \<and> dead_count (Stats jm) = 1"
  by (simp add: run_ops_def jm_defs NewJobManager_def Stats_def GetTotalJobs_def IsCompleted_def
      IsDead_def Let_def)

section \<open>Expiry\<close>

text \<open>In every reachable state, and in whatever order the runtime walks the index,
  \<open>GetExpiredJobs\<close> lists exactly the in-flight jobs whose deadline lies strictly before the
  given time, each once.\<close>

theorem expired_jobs_exact:
  assumes "jm_reach jm" and "enumerates ord (inFlight jm)"
  shows "distinct (GetExpiredJobs ord now jm) \<and>
    set (GetExpiredJobs ord now jm) = {i. \<exists>j d. job_view jm i = Some j \<and> Status j = StatusInFlight \<and>
      Deadline j = Some d \<and> d < now}"
  using GetExpiredJobs_iff [OF jm_reach_inv [OF assms(1)] assms(2)] assms(2)
  by (auto simp: GetExpiredJobs_def enumerates_def)

lemma expired_jobs_exact_witness:
  "\<exists>jm'. MarkInFlight 9 ''b'' 70 sample_jm = Inr jm' \<and> enumerates [''b''] (inFlight jm') \<and>
    set (GetExpiredJobs [''b''] 71 jm') = {i. \<exists>j d. job_view jm' i = Some j \<and> Status j = StatusInFlight \<and>
      Deadline j = Some d \<and> d < 71} \<and> GetExpiredJobs [''b''] 71 jm' = [''b''] \<and> GetExpiredJobs [''b''] 70 jm' = []"
proof -
  obtain jm' where jm': "MarkInFlight 9 ''b'' 70 sample_jm = Inr jm'"
    using jm_store.in_flight_ok [OF jm_reach_inv [OF sample_jm_reach] sample_b_pending] by blast
  have r: "jm_reach jm'"
    using reach_op [OF sample_jm_reach, of "OpInFlight 9 ''b'' 70"] jm' by simp
  have none: "inFlight sample_jm = Map.empty"
    using run_all_append
    by (auto simp: sample_jm_def sample_ops_def run_ops_def jm_defs NewJobManager_def Let_def)
  have e: "enumerates [''b''] (inFlight jm')"
    using jm' none by (auto simp: MarkInFlight_def enumerates_def split: option.splits if_splits)
  have "GetExpiredJobs [''b''] 71 jm' = [''b'']" "GetExpiredJobs [''b''] 70 jm' = []"
    using jm' by (auto simp: MarkInFlight_def GetExpiredJobs_def expired_def split: option.splits if_splits)
  with expired_jobs_exact [OF r e, of 71] e jm' show ?thesis by blast
qed

section \<open>Snapshots\<close>

lemma Restore_view:
  assumes "enumerates ord (Jobs data)"
  shows "job_view (Restore ord data jm0) = Jobs data"
  using Restore_abs [OF assms, of jm0] by (simp add: jm_abs_def)

lemma Restore_queue:
  assumes "enumerates ord (Jobs data)"
  shows "distinct (queue (Restore ord data jm0))"
    and "set (queue (Restore ord data jm0)) = {i. map_option Status (Jobs data i) = Some StatusPending}"
  using Restore_abs [OF assms, of jm0] enumerates_distinct [OF assms] enumerates_set [OF assms]
  by (auto simp: jm_abs_def split: option.splits)


lemma sample_enumerates: "enumerates [''b'', ''a''] (Jobs (Snapshot sample_jm))"
  using sample_jm(5) by (auto simp: enumerates_def Snapshot_def)


text \<open>A partial snapshot carries exactly the jobs that are still pending or in flight. After
  restoring one, the manager has forgotten every finished job: its ID is accepted as new, and
  \<open>IsCompleted\<close> and \<open>IsDead\<close> deny it.\<close>

theorem partial_snapshot_keeps_hot_jobs:
  assumes "enumerates ord (Jobs (PartialSnapshot jm))"
  shows "let jm' = Restore ord (PartialSnapshot jm) jm0 in
    (\<forall>i. job_view jm' i = (case job_view jm i of None \<Rightarrow> None | Some j \<Rightarrow> if hot j then Some j else None)) \<and>
    (\<forall>i. \<not> IsCompleted i jm' \<and> \<not> IsDead i jm') \<and>
    (\<forall>job now. (Enqueue now job jm' = Inl ErrDuplicateJob) =
       (job_status jm (ID job) \<in> {Some StatusPending, Some StatusInFlight}))"
proof -
  let ?jm = "Restore ord (PartialSnapshot jm) jm0"
  note inv = Restore_inv [OF enumerates_distinct [OF assms], of "PartialSnapshot jm" jm0]
  have view: "job_view ?jm i = (case job_view jm i of None \<Rightarrow> None | Some j \<Rightarrow> if hot j then Some j else None)" for i
    unfolding Restore_view [OF assms] by (simp add: PartialSnapshot_def hot_def del: job_view_None split: option.split)
  have st: "job_status ?jm i = (if job_status jm i \<in> {Some StatusPending, Some StatusInFlight}
      then job_status jm i else None)" for i
    using view [of i] by (auto simp: job_status_def hot_def split: option.splits)
  have "\<not> IsCompleted i ?jm \<and> \<not> IsDead i ?jm" for i
    using IsDead_iff [OF inv, of i] IsCompleted_status [OF inv, of i] st [of i]
    by (auto simp: job_status_def simp del: job_view_None split: if_splits)
  moreover have "(Enqueue now job ?jm = Inl ErrDuplicateJob) =
      (job_status jm (ID job) \<in> {Some StatusPending, Some StatusInFlight})" for now job
  proof -
    have "(Enqueue now job ?jm = Inl ErrDuplicateJob) = (job_status ?jm (ID job) \<noteq> None)"
      by (simp add: Enqueue_def job_status_def Let_def)
    then show ?thesis using st [of "ID job"] by auto
  qed
  ultimately show ?thesis using view by (simp add: Let_def)
qed

lemma partial_snapshot_keeps_hot_jobs_witness:
  "let jm' = Restore [''b''] (PartialSnapshot sample_jm) NewJobManager in
    \<not> IsCompleted ''a'' jm' \<and> Enqueue 9 (job_named ''b'') jm' = Inl ErrDuplicateJob"
proof -
  have "dom (Jobs (PartialSnapshot sample_jm)) = {''b''}"
  proof -
    have "job_view sample_jm i \<noteq> None \<Longrightarrow> i = ''a'' \<or> i = ''b''" for i
      using sample_jm(5) by (auto simp: dom_def job_view_def)
    then show ?thesis
      using sample_jm(2,3) by (fastforce simp: PartialSnapshot_def dom_def split: option.splits if_splits)
  qed
  then have "enumerates [''b''] (Jobs (PartialSnapshot sample_jm))"
    by (simp add: enumerates_def)
  from partial_snapshot_keeps_hot_jobs [OF this, of NewJobManager] show ?thesis
    using sample_b_pending by (simp add: Let_def)
qed

section \<open>Types\<close>

text \<open>
  What the Go types do not say: a job carries the ID it is filed under, its status is one of the four
  named strings, and while it is in flight it has a deadline.
\<close>

definition job_typed :: "JobID \<Rightarrow> Job \<Rightarrow> bool" where
  "job_typed i j \<longleftrightarrow> ID j = i \<and> Status j \<in> {StatusPending, StatusInFlight, StatusCompleted, StatusDead} \<and>
     (Status j = StatusInFlight \<longrightarrow> Deadline j \<noteq> None)"

definition jobs_typed :: "(JobID \<rightharpoonup> Job) \<Rightarrow> bool" where
  "jobs_typed js \<longleftrightarrow> (\<forall>i j. js i = Some j \<longrightarrow> job_typed i j)"

fun op_typed :: "jm_op \<Rightarrow> bool" where
  "op_typed (OpRestore ord data) = (enumerates ord (Jobs data) \<and> jobs_typed (Jobs data))"
| "op_typed _ = True"

lemma jobs_typed_upd: "jobs_typed js \<Longrightarrow> job_typed i j \<Longrightarrow> jobs_typed (js(i \<mapsto> j))"
  by (simp add: jobs_typed_def)

lemma job_typed_simps [simp]:
  "job_typed i j \<Longrightarrow> st \<in> {StatusPending, StatusCompleted, StatusDead} \<Longrightarrow> job_typed i (finished now st j)"
  "job_typed i (j\<lparr>Attempt := n\<rparr>) = job_typed i j"
  by (auto simp: job_typed_def finished_def)

lemma spec_update_typed:
  assumes "spec_update i f s = Inr s'" and "jobs_typed (spec_jobs s)"
    and "\<And>j j'. job_typed i j \<Longrightarrow> f j = Inr j' \<Longrightarrow> job_typed i j'"
  shows "jobs_typed (spec_jobs s')"
proof -
  obtain j j' where j: "spec_jobs s i = Some j" "f j = Inr j'" "s' = s\<lparr>spec_jobs := (spec_jobs s)(i \<mapsto> j')\<rparr>"
    using assms(1) by (auto simp: spec_update_def res_bind_Inr_iff split: option.splits)
  have "job_typed i j" using assms(2) j(1) by (simp add: jobs_typed_def)
  then have "job_typed i j'" by (rule assms(3) [OF _ j(2)])
  then show ?thesis using assms(2) j(3) by (simp add: jobs_typed_upd)
qed

lemma spec_run_typed:
  assumes typed: "op_typed op" "jobs_typed (spec_jobs s)" and run: "spec_run op s = Inr s'"
  shows "jobs_typed (spec_jobs s')"
proof (cases op)
  case (OpEnqueue now j)
  then show ?thesis using typed(2) run
    by (auto simp: push_queue_def job_typed_def intro!: jobs_typed_upd split: if_splits)
next
  case (OpInFlight now i d)
  then show ?thesis using run by (auto intro!: spec_update_typed [OF _ typed(2)] simp: job_typed_def split: if_splits)
next
  case (OpRequeue now i)
  then obtain u where u: "spec_update i (\<lambda>j. if Status j = StatusInFlight
      then Inr (finished now StatusPending (j\<lparr>Attempt := Attempt j + 1\<rparr>)) else Inl ErrNotInFlight) s = Inr u"
    "s' = push_queue i u" using run by (auto simp: res_bind_Inr_iff)
  have "jobs_typed (spec_jobs u)" by (rule spec_update_typed [OF u(1) typed(2)]) (auto split: if_splits)
  then show ?thesis by (simp add: u(2) push_queue_def)
next
  case (OpCompleted now i)
  then show ?thesis using run by (auto intro!: spec_update_typed [OF _ typed(2)] split: if_splits)
next
  case (OpDead now i)
  then show ?thesis using run by (auto intro!: spec_update_typed [OF _ typed(2)])
next
  case (OpBumpAttempt i)
  then show ?thesis using run by (auto intro!: spec_update_typed [OF _ typed(2)])
qed (use typed run in auto)

text \<open>C35. Jobs stay well typed. Starting from an empty manager, whatever operations a client runs (restores of
  well-typed snapshots included), every job carries the ID it is filed under, has one of the four
  statuses, and has a deadline while it is in flight; so do the jobs of every snapshot, full or partial.\<close>

theorem jobs_stay_typed:
  assumes "list_all op_typed ops" and "run_ops ops NewJobManager = Inr jm"
  shows "jobs_typed (job_view jm) \<and> jobs_typed (Jobs (Snapshot jm)) \<and> jobs_typed (Jobs (PartialSnapshot jm))"
proof -
  have ok: "op_typed op \<Longrightarrow> op_ok op" for op by (cases op) simp_all
  have "jm_inv jm \<and> jobs_typed (job_view jm)"
  proof (rule run_all_invariant [of run_op ops NewJobManager jm "\<lambda>u. jm_inv u \<and> jobs_typed (job_view u)"])
    show "run_all run_op ops NewJobManager = Inr jm" using assms(2) by (simp add: run_ops_def)
    show "jm_inv NewJobManager \<and> jobs_typed (job_view NewJobManager)"
      using NewJobManager_inv by (simp add: jobs_typed_def job_view_def NewJobManager_def)
    fix op u v assume o: "op \<in> set ops" "jm_inv u \<and> jobs_typed (job_view u)" "run_op op u = Inr v"
    have t: "op_typed op" using assms(1) o(1) by (simp add: list_all_iff)
    have "jobs_typed (spec_jobs (jm_abs v))"
      by (rule spec_run_typed [OF t _ run_op_abs [OF _ ok [OF t] o(3)]]) (use o(2) in simp_all)
    then show "jm_inv v \<and> jobs_typed (job_view v)" using run_op_inv [OF _ ok [OF t] o(3)] o(2) by simp
  qed
  then show ?thesis by (auto simp: Snapshot_def PartialSnapshot_def jobs_typed_def split: option.splits if_splits)
qed

lemma jobs_stay_typed_witness: "jobs_typed (job_view sample_jm)"
  using jobs_stay_typed [OF _ sample_jm(1)] by (simp add: sample_ops_def)

end
