(* ===== verification/WalTypes.thy ===== *)
theory WalTypes
  imports GoTypes "HOL-Library.Word"
begin

unbundle bit_operations_syntax

text \<open>
  The records of the write-ahead log (\<open>internal/storage/wal/types.go\<close>) and their checksum
  (\<open>checksum.go\<close>): CRC-32 (IEEE) over the bytes of the event type, the job ID and the sequence
  number, the latter converted by \<open>string(rune(seq))\<close>, that is to the UTF-8 encoding of its
  low 32 bits read as a code point. Sequence numbers and checksums keep their widths.
\<close>

section \<open>Events\<close>

datatype EventType =
    EventEnqueue | EventDispatch | EventAck | EventRetry | EventTimeout | EventDead
  | EventOther string

fun event_string :: "EventType \<Rightarrow> string" where
  "event_string EventEnqueue = ''ENQUEUE''"
| "event_string EventDispatch = ''DISPATCH''"
| "event_string EventAck = ''ACK''"
| "event_string EventRetry = ''RETRY''"
| "event_string EventTimeout = ''TIMEOUT''"
| "event_string EventDead = ''DEAD''"
| "event_string (EventOther s) = s"

record Event =
  Seq :: "64 word"
  EvType :: EventType
  EvJobID :: JobID
  Timestamp :: int
  Checksum :: "32 word"

section \<open>CRC-32\<close>

type_synonym byte = "8 word"

definition crc_bit :: "32 word \<Rightarrow> 32 word" where
  "crc_bit s = (if bit s 0 then drop_bit 1 s XOR 0xEDB88320 else drop_bit 1 s)"

definition crc_byte :: "32 word \<Rightarrow> byte \<Rightarrow> 32 word" where
  "crc_byte s b = (crc_bit ^^ 8) (s XOR ucast b)"

definition ChecksumIEEE :: "byte list \<Rightarrow> 32 word" where
  "ChecksumIEEE bs = NOT (foldl crc_byte (NOT 0) bs)"

lemma crc_bit_top: "bit (crc_bit s) 31 \<longleftrightarrow> bit s 0"
proof -
  have "bit (0xEDB88320 :: 32 word) 31" by simp
  moreover have "\<not> bit (drop_bit 1 s) 31"
    using bit_imp_le_length [of s 32] by (auto simp: bit_drop_bit_eq)
  ultimately show ?thesis by (simp add: crc_bit_def bit_xor_iff)
qed

lemma crc_bit_inj: "crc_bit s = crc_bit t \<Longrightarrow> s = t"
proof -
  assume eq: "crc_bit s = crc_bit t"
  then have low: "bit s 0 = bit t 0" by (metis crc_bit_top)
  have "drop_bit 1 s = drop_bit 1 t"
  proof (cases "bit s 0")
    case True
    then have "(drop_bit 1 s XOR 0xEDB88320) XOR 0xEDB88320
        = (drop_bit 1 t XOR 0xEDB88320) XOR (0xEDB88320 :: 32 word)"
      using eq low by (simp add: crc_bit_def)
    then show ?thesis by (simp add: xor.assoc)
  next
    case False
    then show ?thesis using eq low by (simp add: crc_bit_def)
  qed
  then have "bit s (Suc n) = bit t (Suc n)" for n
    by (metis bit_drop_bit_eq plus_1_eq_Suc comp_apply)
  with low show "s = t"
    by (intro bit_word_eqI) (metis not0_implies_Suc)
qed

lemma crc_bits_inj: "(crc_bit ^^ n) s = (crc_bit ^^ n) t \<Longrightarrow> s = t"
  by (induction n) (auto dest: crc_bit_inj)

lemma xor_cancel_left: "(a :: 'a::len word) XOR b = a XOR c \<longleftrightarrow> b = c"
  by (metis xor.assoc xor.left_neutral xor_self_eq)

lemma crc_byte_inj_state: "crc_byte s b = crc_byte t b \<Longrightarrow> s = t"
  unfolding crc_byte_def by (drule crc_bits_inj) (metis xor.commute xor_cancel_left)

lemma ucast_byte_inj: "(ucast (b :: byte) :: 32 word) = ucast c \<Longrightarrow> b = c"
proof (rule bit_word_eqI)
  fix n
  assume eq: "(ucast b :: 32 word) = ucast c" and n: "n < LENGTH(8)"
  have "bit (ucast b :: 32 word) n = bit (ucast c :: 32 word) n" by (simp only: eq)
  then show "bit b n = bit c n" using n by (simp add: bit_unsigned_iff)
qed

lemma crc_byte_inj_byte: "crc_byte s b = crc_byte s c \<Longrightarrow> b = c"
  unfolding crc_byte_def
  by (drule crc_bits_inj) (simp add: xor_cancel_left ucast_byte_inj)

lemma crc_fold_inj: "foldl crc_byte s bs = foldl crc_byte t bs \<Longrightarrow> s = t"
  by (induction bs arbitrary: s t) (auto dest: crc_byte_inj_state)

lemma ChecksumIEEE_one_byte:
  assumes "b \<noteq> c"
  shows "ChecksumIEEE (p @ b # s) \<noteq> ChecksumIEEE (p @ c # s)"
proof
  assume "ChecksumIEEE (p @ b # s) = ChecksumIEEE (p @ c # s)"
  then have "crc_byte (foldl crc_byte (NOT 0) p) b = crc_byte (foldl crc_byte (NOT 0) p) c"
    by (auto simp: ChecksumIEEE_def dest: crc_fold_inj)
  with assms show False by (auto dest: crc_byte_inj_byte)
qed

section \<open>Runes\<close>

text \<open>
  \<open>rune(seq)\<close> keeps the low 32 bits as an \<open>int32\<close>; \<open>string(r)\<close> encodes the code point
  \<open>r\<close>, and every value that is none (negative, above U+10FFFF, a surrogate) as U+FFFD.
\<close>

definition rune :: "64 word \<Rightarrow> int" where
  "rune s = sint (ucast s :: 32 word)"

definition string_of_rune :: "int \<Rightarrow> byte list" where
  "string_of_rune r =
     (if 0 \<le> r \<and> r < 0x80 then [of_int r]
      else if 0 \<le> r \<and> r < 0x800 then [of_int (0xC0 + r div 64), of_int (0x80 + r mod 64)]
      else if r < 0 \<or> 0x10FFFF < r \<or> (0xD800 \<le> r \<and> r \<le> 0xDFFF) then [0xEF, 0xBF, 0xBD]
      else if r < 0x10000 then
        [of_int (0xE0 + r div 4096), of_int (0x80 + r div 64 mod 64), of_int (0x80 + r mod 64)]
      else
        [of_int (0xF0 + r div 262144), of_int (0x80 + r div 4096 mod 64),
         of_int (0x80 + r div 64 mod 64), of_int (0x80 + r mod 64)])"

definition byte_of :: "char \<Rightarrow> byte" where
  "byte_of c = of_nat (of_char c)"

definition bytes_of :: "string \<Rightarrow> byte list" where
  "bytes_of s = map byte_of s"

lemma bytes_of_append [simp]: "bytes_of (s @ t) = bytes_of s @ bytes_of t"
  by (simp add: bytes_of_def)

lemma byte_of_inj: "byte_of c = byte_of d \<Longrightarrow> c = d"
proof -
  have "unat (byte_of e) = of_char e" for e
    using nat_of_char_less_256 [of e] by (simp add: byte_of_def unat_of_nat)
  then show "byte_of c = byte_of d \<Longrightarrow> c = d" by (metis of_char_eq_iff)
qed

section \<open>The checksum of an event\<close>

definition checksum_data :: "EventType \<Rightarrow> JobID \<Rightarrow> 64 word \<Rightarrow> byte list" where
  "checksum_data t i s = bytes_of (event_string t) @ bytes_of i @ string_of_rune (rune s)"

definition CalculateChecksum :: "EventType \<Rightarrow> Job \<Rightarrow> 64 word \<Rightarrow> 32 word" where
  "CalculateChecksum eventType job seq = ChecksumIEEE (checksum_data eventType (ID job) seq)"

definition VerifyChecksum :: "Event \<Rightarrow> bool" where
  "VerifyChecksum event =
     (let job = zero_job\<lparr>ID := EvJobID event\<rparr>;
          expected = CalculateChecksum (EvType event) job (Seq event)
      in Checksum event = expected)"

end
