(* ===== verification/Wal.thy ===== *)
theory Wal
  imports WalTypes
begin

text \<open>
  The write-ahead log of \<open>internal/storage/wal/wal.go\<close> as its callers see it: the file's
  contents, the sequence counter and the closed flag. What the operating system decides (whether
  a write, a sync, a close, a rename or an open fails) is an argument. The goroutine that
  batches concurrent appends is modelled apart, in \<open>WalWriter\<close>; here an append is the batch of
  one that a caller holding the controller's mutex gets.
\<close>

section \<open>Files\<close>

text \<open>
  What \<open>json.Decoder\<close> sees in the file: a sequence of documents that decode to an event, and
  fragments it cannot decode (a write that failed half way).
\<close>

datatype wal_line = Rec Event | Garbage

record WAL =
  w_file :: "wal_line list option"
  w_archive :: "int \<rightharpoonup> wal_line list"
  w_seq :: "64 word"
  w_isClosed :: bool
  w_bufferSize :: int
  w_flushInterval :: int

text \<open>\<open>GetLastEvent\<close> (\<open>utils.go\<close>) is a stub: it returns no event and no error.\<close>

definition GetLastEvent :: "wal_line list \<Rightarrow> Event option res" where
  "GetLastEvent f = Inr None"

text \<open>\<open>ValidateWAL\<close> and \<open>CountEvents\<close> (\<open>utils.go\<close>) are stubs as well.\<close>

definition ValidateWAL :: "wal_line list \<Rightarrow> unit res" where
  "ValidateWAL f = Inr ()"

definition CountEvents :: "wal_line list \<Rightarrow> nat res" where
  "CountEvents f = Inr 0"

definition NewWAL :: "wal_line list option \<Rightarrow> int \<Rightarrow> int \<Rightarrow> WAL" where
  "NewWAL onDisk bufferSize flushInterval =
     (let file = (case onDisk of None \<Rightarrow> [] | Some f \<Rightarrow> f);
          seq = (case GetLastEvent file of Inr (Some lastEvent) \<Rightarrow> Seq lastEvent | _ \<Rightarrow> 0)
      in \<lparr>w_file = Some file, w_archive = Map.empty, w_seq = seq, w_isClosed = False,
          w_bufferSize = (if bufferSize \<le> 0 then 100 else bufferSize),
          w_flushInterval = (if flushInterval \<le> 0 then 10000000 else flushInterval)\<rparr>)"

section \<open>Appending\<close>

text \<open>
  \<open>flushBatch\<close> encodes the events one by one, stops at the first encoding error, syncs once if
  there was none, and sends the same result to every request of the batch. The outcome names
  the call that failed; a failed encoding may leave a fragment.
\<close>

datatype flush_io = FlushOk | EncodeFails nat bool | SyncFails

definition flushBatch :: "flush_io \<Rightarrow> Event list \<Rightarrow> wal_line list \<Rightarrow> gerror option \<times> wal_line list" where
  "flushBatch out batch file =
     (case out of
        EncodeFails k torn \<Rightarrow>
          if k < length batch
          then (Some ErrEncode, file @ map Rec (take k batch) @ (if torn then [Garbage] else []))
          else (None, file @ map Rec batch)
      | FlushOk \<Rightarrow> (None, file @ map Rec batch)
      | SyncFails \<Rightarrow> (Some ErrSync, file @ map Rec batch))"

definition new_event :: "int \<Rightarrow> EventType \<Rightarrow> Job \<Rightarrow> 64 word \<Rightarrow> Event" where
  "new_event now eventType job seq =
     \<lparr>Seq = seq, EvType = eventType, EvJobID = ID job, Timestamp = now,
      Checksum = CalculateChecksum eventType job seq\<rparr>"

text \<open>
  The counter moves before the request is sent, also when the log turns out to be closed. On a
  log that is closed the send may instead win the \<open>select\<close>, and the call never returns:
  see \<open>WalWriter\<close>.
\<close>

definition Append :: "flush_io \<Rightarrow> int \<Rightarrow> EventType \<Rightarrow> Job \<Rightarrow> WAL \<Rightarrow> gerror option \<times> WAL" where
  "Append out now eventType job w =
     (let seq = w_seq w + 1;
          w1 = w\<lparr>w_seq := seq\<rparr>;
          event = new_event now eventType job seq
      in if w_isClosed w then (Some ErrWALClosed, w1)
         else case w_file w of
                None \<Rightarrow> (Some ErrFileIO, w1)
              | Some file \<Rightarrow>
                  (case flushBatch out [event] file of
                     (err, file') \<Rightarrow> (err, w1\<lparr>w_file := Some file'\<rparr>)))"

definition GetLastSeq :: "WAL \<Rightarrow> 64 word" where
  "GetLastSeq w = w_seq w"

section \<open>Replay\<close>

text \<open>
  \<open>Replay\<close> applies the handler to every event from the start and returns at the first decoding
  error, checksum mismatch or handler error; what the handler changed before stays changed.
\<close>

fun replay_loop ::
  "(Event \<Rightarrow> 's \<Rightarrow> gerror option \<times> 's) \<Rightarrow> wal_line list \<Rightarrow> 's \<Rightarrow> gerror option \<times> 's" where
  "replay_loop handler [] s = (None, s)"
| "replay_loop handler (Garbage # ls) s = (Some ErrDecode, s)"
| "replay_loop handler (Rec event # ls) s =
     (if \<not> VerifyChecksum event then (Some ErrChecksumMismatch, s)
      else case handler event s of
             (Some err, s') \<Rightarrow> (Some err, s')
           | (None, s') \<Rightarrow> replay_loop handler ls s')"

definition Replay ::
  "(Event \<Rightarrow> 's \<Rightarrow> gerror option \<times> 's) \<Rightarrow> WAL \<Rightarrow> 's \<Rightarrow> gerror option \<times> 's" where
  "Replay handler w s =
     (case w_file w of None \<Rightarrow> (Some ErrFileIO, s) | Some file \<Rightarrow> replay_loop handler file s)"

section \<open>Rotation and closing\<close>

text \<open>
  \<open>Rotate\<close> stops the writer, closes the file, renames it to a name made of the time in
  seconds, opens an empty one and resets the counter. Each failure returns at once and leaves
  \<open>isClosed\<close> set. \<open>stamp\<close> is the second the clock shows.
\<close>

datatype rotate_io = RotateOk | CloseFails | RenameFails | OpenFails

definition Rotate :: "rotate_io \<Rightarrow> int \<Rightarrow> WAL \<Rightarrow> gerror option \<times> WAL" where
  "Rotate out stamp w =
     (if w_isClosed w then (Some ErrWALClosed, w)
      else
        let w1 = w\<lparr>w_isClosed := True\<rparr>
        in case (out, w_file w) of
             (CloseFails, _) \<Rightarrow> (Some ErrFileIO, w1)
           | (RenameFails, _) \<Rightarrow> (Some ErrFileIO, w1)
           | (_, None) \<Rightarrow> (Some ErrFileIO, w1)
           | (OpenFails, Some file) \<Rightarrow>
               (Some ErrFileIO, w1\<lparr>w_file := None, w_archive := (w_archive w)(stamp \<mapsto> file)\<rparr>)
           | (RotateOk, Some file) \<Rightarrow>
               (None, w1\<lparr>w_file := Some [], w_archive := (w_archive w)(stamp \<mapsto> file),
                         w_seq := 0, w_isClosed := False\<rparr>))"

definition Close :: "bool \<Rightarrow> WAL \<Rightarrow> gerror option \<times> WAL" where
  "Close fails w =
     (if w_isClosed w then (None, w)
      else (if fails then Some ErrFileIO else None, w\<lparr>w_isClosed := True\<rparr>))"

section \<open>Splitting a log file\<close>

text \<open>
  \<open>splitWALFile\<close> copies the events into numbered parts and starts a new part when the current
  one has reached \<open>maxSize\<close>. The size it adds per event is the length of Go's \<open>%v\<close> rendering
  of the struct: the five fields, separated by blanks, in braces.
\<close>

fun dec_len :: "nat \<Rightarrow> nat" where
  "dec_len n = (if n < 10 then 1 else Suc (dec_len (n div 10)))"

declare dec_len.simps [simp del]

definition int_len :: "int \<Rightarrow> nat" where
  "int_len z = (if z < 0 then Suc (dec_len (nat (- z))) else dec_len (nat z))"

definition event_size :: "Event \<Rightarrow> nat" where
  "event_size e = 6 + dec_len (unat (Seq e)) + length (event_string (EvType e)) +
     length (EvJobID e) + int_len (Timestamp e) + dec_len (unat (Checksum e))"

text \<open>\<open>parts\<close> are the files written so far, the current one last; \<open>cur\<close> its size.\<close>

fun split_loop :: "int \<Rightarrow> wal_line list \<Rightarrow> Event list list \<Rightarrow> int \<Rightarrow> Event list list res" where
  "split_loop maxSize [] parts cur = Inr parts"
| "split_loop maxSize (Garbage # ls) parts cur = Inl ErrDecode"
| "split_loop maxSize (Rec event # ls) parts cur =
     (if parts = [] \<or> maxSize \<le> cur
      then split_loop maxSize ls (parts @ [[event]]) (int (event_size event))
      else split_loop maxSize ls (butlast parts @ [last parts @ [event]]) (cur + int (event_size event)))"

definition splitWALFile :: "int \<Rightarrow> wal_line list \<Rightarrow> Event list list res" where
  "splitWALFile maxSize file = split_loop maxSize file [] 0"

end
