(* ===== verification/WalLog.thy ===== *)
theory WalLog
  imports Wal
begin

text \<open>
  The log as an interface: what a client relies on when it appends and replays. The contract
  \<open>event_log\<close> says that an append that returns no error adds one valid record of the given type
  and job at the end, and that replaying applies the handler to exactly the records, in order,
  until one is refused. \<open>WAL\<close> is the provider. Then the facts about corruption, reopening,
  rotation and splitting.
\<close>

section \<open>Valid files\<close>

definition valid_file :: "wal_line list \<Rightarrow> bool" where
  "valid_file ls \<longleftrightarrow> (\<exists>es. ls = map Rec es \<and> list_all VerifyChecksum es)"

fun records :: "wal_line list \<Rightarrow> Event list" where
  "records [] = []"
| "records (Rec e # ls) = e # records ls"
| "records (Garbage # ls) = records ls"

lemma records_map_Rec [simp]: "records (map Rec es) = es"
  by (induction es) auto

lemma records_append [simp]: "records (xs @ ys) = records xs @ records ys"
  by (induction xs rule: records.induct) auto

lemma valid_file_iff: "valid_file ls \<longleftrightarrow> ls = map Rec (records ls) \<and> list_all VerifyChecksum (records ls)"
  by (auto simp: valid_file_def)

lemma valid_file_append: "valid_file xs \<Longrightarrow> valid_file ys \<Longrightarrow> valid_file (xs @ ys)"
  by (auto simp: valid_file_iff)

lemma valid_file_Nil [simp]: "valid_file []"
  by (simp add: valid_file_iff)

lemma VerifyChecksum_new_event [simp]: "VerifyChecksum (new_event now t j s)"
  by (simp add: VerifyChecksum_def new_event_def CalculateChecksum_def Let_def)

lemma new_event_simps [simp]:
  "Seq (new_event now t j s) = s" "EvType (new_event now t j s) = t"
  "EvJobID (new_event now t j s) = ID j" "Timestamp (new_event now t j s) = now"
  by (simp_all add: new_event_def)

section \<open>Replaying\<close>

text \<open>The loop over valid records, without the file around them.\<close>

fun handle_all :: "('e \<Rightarrow> 's \<Rightarrow> gerror option \<times> 's) \<Rightarrow> 'e list \<Rightarrow> 's \<Rightarrow> gerror option \<times> 's" where
  "handle_all h [] s = (None, s)"
| "handle_all h (e # es) s =
     (case h e s of (Some err, s') \<Rightarrow> (Some err, s') | (None, s') \<Rightarrow> handle_all h es s')"

lemma handle_all_append:
  "handle_all h (xs @ ys) s =
     (case handle_all h xs s of (Some err, s') \<Rightarrow> (Some err, s') | (None, s') \<Rightarrow> handle_all h ys s')"
  by (induction xs arbitrary: s) (auto split: prod.splits option.splits)

lemma replay_loop_valid:
  "list_all VerifyChecksum es \<Longrightarrow> replay_loop h (map Rec es @ ls) s =
     (case handle_all h es s of (Some err, s') \<Rightarrow> (Some err, s') | (None, s') \<Rightarrow> replay_loop h ls s')"
  by (induction es arbitrary: s) (auto split: prod.splits option.splits)

lemma replay_loop_file:
  "valid_file ls \<Longrightarrow> replay_loop h ls s = handle_all h (records ls) s"
  using replay_loop_valid [of "records ls" h "[]" s]
  by (auto simp: valid_file_iff split: prod.splits option.splits)

definition bad_line :: "wal_line \<Rightarrow> bool" where
  "bad_line l \<longleftrightarrow> (case l of Garbage \<Rightarrow> True | Rec e \<Rightarrow> \<not> VerifyChecksum e)"

definition line_error :: "wal_line \<Rightarrow> gerror" where
  "line_error l = (case l of Garbage \<Rightarrow> ErrDecode | Rec e \<Rightarrow> ErrChecksumMismatch)"

lemma replay_loop_bad:
  "bad_line l \<Longrightarrow> replay_loop h (l # ls) s = (Some (line_error l), s)"
  by (cases l) (auto simp: bad_line_def line_error_def)

lemma Replay_corrupted:
  assumes "w_file w = Some (map Rec es @ l # ls)" and "list_all VerifyChecksum es" and "bad_line l"
  shows "Replay h w s = (case handle_all h es s of
      (None, s') \<Rightarrow> (Some (line_error l), s')
    | (Some err, s') \<Rightarrow> (Some err, s'))"
  using assms replay_loop_bad [OF assms(3), of h ls]
  by (auto simp: Replay_def replay_loop_valid split: prod.splits option.splits)

definition collect :: "'e \<Rightarrow> 'e list \<Rightarrow> gerror option \<times> 'e list" where
  "collect e es = (None, es @ [e])"

lemma handle_all_collect: "handle_all collect es acc = (None, acc @ es)"
  by (induction es arbitrary: acc) (auto simp: collect_def)

section \<open>The contract\<close>

locale event_log =
  fixes good :: "'w \<Rightarrow> bool"
    and events :: "'w \<Rightarrow> 'e list"
    and event_key :: "'e \<Rightarrow> EventType \<times> JobID"
    and append_ev :: "'io \<Rightarrow> int \<Rightarrow> EventType \<Rightarrow> Job \<Rightarrow> 'w \<Rightarrow> gerror option \<times> 'w"
    and replay :: "('e \<Rightarrow> 's \<Rightarrow> gerror option \<times> 's) \<Rightarrow> 'w \<Rightarrow> 's \<Rightarrow> gerror option \<times> 's"
  assumes append_ok: "good w \<Longrightarrow> append_ev io now t j w = (None, w') \<Longrightarrow>
      good w' \<and> (\<exists>e. events w' = events w @ [e] \<and> event_key e = (t, ID j))"
    and replay_ok: "good w \<Longrightarrow> replay h w s = handle_all h (events w) s"
begin

text \<open>
  A log that took the requests \<open>reqs\<close> without an error replays what it held before and then
  one event for each request, in order.
\<close>

lemma appends_logged:
  assumes "good w"
    and "handle_all (\<lambda>(io, now, t, j). append_ev io now t j) reqs w = (None, w')"
  shows "good w' \<and> (\<exists>new. events w' = events w @ new \<and>
    map event_key new = map (\<lambda>(io, now, t, j). (t, ID j)) reqs)"
  using assms
proof (induction reqs arbitrary: w)
  case Nil
  then show ?case by simp
next
  case (Cons r reqs)
  obtain io now t j where r: "r = (io, now, t, j)" by (cases r)
  obtain w1 where w1: "append_ev io now t j w = (None, w1)"
    and rest: "handle_all (\<lambda>(io, now, t, j). append_ev io now t j) reqs w1 = (None, w')"
    using Cons.prems(2) r by (auto split: prod.splits option.splits)
  obtain e where e: "good w1" "events w1 = events w @ [e]" "event_key e = (t, ID j)"
    using append_ok [OF Cons.prems(1) w1] by blast
  obtain new where "good w'" "events w' = events w1 @ new"
    "map event_key new = map (\<lambda>(io, now, t, j). (t, ID j)) reqs"
    using Cons.IH [OF e(1) rest] by blast
  then show ?case using e r by (intro conjI exI [of _ "e # new"]) auto
qed

lemma replay_appended:
  assumes "good w" and "append_ev io now t j w = (None, w')" and "replay h w s = (None, s1)"
  shows "\<exists>e. event_key e = (t, ID j) \<and> replay h w' s = h e s1"
proof -
  obtain e where e: "good w'" "events w' = events w @ [e]" "event_key e = (t, ID j)"
    using append_ok [OF assms(1,2)] by blast
  have "handle_all h (events w) s = (None, s1)"
    using assms(1,3) by (simp add: replay_ok)
  then have "replay h w' s = h e s1"
    using e by (auto simp: replay_ok handle_all_append split: prod.splits option.splits)
  then show ?thesis using e(3) by blast
qed

end

section \<open>The WAL is a provider\<close>

definition wal_good :: "WAL \<Rightarrow> bool" where
  "wal_good w \<longleftrightarrow> (case w_file w of None \<Rightarrow> False | Some f \<Rightarrow> valid_file f)"

definition wal_events :: "WAL \<Rightarrow> Event list" where
  "wal_events w = (case w_file w of None \<Rightarrow> [] | Some f \<Rightarrow> records f)"

definition event_key :: "Event \<Rightarrow> EventType \<times> JobID" where
  "event_key e = (EvType e, EvJobID e)"

lemma flushBatch_ok: "flushBatch out batch file = (None, file') \<Longrightarrow> file' = file @ map Rec batch"
  by (auto simp: flushBatch_def split: flush_io.splits if_splits)

lemma Append_ok:
  assumes "Append out now t j w = (None, w')"
  shows "\<exists>f. w_file w = Some f \<and> \<not> w_isClosed w \<and>
    w' = w\<lparr>w_seq := w_seq w + 1, w_file := Some (f @ [Rec (new_event now t j (w_seq w + 1))])\<rparr>"
  using assms
  by (auto simp: Append_def Let_def dest!: flushBatch_ok split: if_splits option.splits prod.splits)

lemma Append_good:
  assumes good: "wal_good w" and ap: "Append out now t j w = (None, w')"
  shows "wal_good w' \<and> wal_events w' = wal_events w @ [new_event now t j (w_seq w + 1)]"
proof -
  obtain f where f: "w_file w = Some f"
    and w': "w' = w\<lparr>w_seq := w_seq w + 1, w_file := Some (f @ [Rec (new_event now t j (w_seq w + 1))])\<rparr>"
    using Append_ok [OF ap] by blast
  have "valid_file [Rec (new_event now t j (w_seq w + 1))]"
    by (simp add: valid_file_iff VerifyChecksum_new_event)
  then show ?thesis
    using good f w' by (simp add: wal_good_def wal_events_def valid_file_append)
qed

lemma event_key_new [simp]: "event_key (new_event now t j s) = (t, ID j)"
  by (simp add: event_key_def new_event_def)

lemma Replay_good: "wal_good w \<Longrightarrow> Replay h w s = handle_all h (wal_events w) s"
  by (auto simp: wal_good_def wal_events_def Replay_def replay_loop_file split: option.splits)

interpretation wal_log: event_log wal_good wal_events event_key Append Replay
  by unfold_locales (auto dest: Append_good simp: Replay_good)

lemma NewWAL_empty [simp]:
  "wal_good (NewWAL None b f)" "wal_events (NewWAL None b f) = []" "w_seq (NewWAL None b f) = 0"
  by (simp_all add: wal_good_def wal_events_def NewWAL_def GetLastEvent_def Let_def)

end
