(* ===== verification/WalProps.thy ===== *)
theory WalProps
  imports WalLog
begin

text \<open>
  Properties of the write-ahead log: what is appended is what is replayed, corruption is found
  and stops the replay, what the checksum cannot see, numbering after a reopen, rotation,
  splitting.
\<close>

section \<open>Numbering\<close>

lemma appends_seq:
  assumes "wal_good w"
    and "handle_all (\<lambda>(io, now, t, j). Append io now t j) reqs w = (None, w')"
  shows "\<exists>new. wal_events w' = wal_events w @ new \<and>
    map Seq new = map (\<lambda>k. w_seq w + of_nat (Suc k)) [0..<length reqs]"
  using assms
proof (induction reqs arbitrary: w)
  case Nil
  then show ?case by simp
next
  case (Cons r reqs)
  obtain io now t j where r: "r = (io, now, t, j)" by (cases r)
  obtain w1 where w1: "Append io now t j w = (None, w1)"
    and rest: "handle_all (\<lambda>(io, now, t, j). Append io now t j) reqs w1 = (None, w')"
    using Cons.prems(2) r by (auto split: prod.splits option.splits)
  let ?e = "new_event now t j (w_seq w + 1)"
  have e: "wal_good w1" "wal_events w1 = wal_events w @ [?e]" "w_seq w1 = w_seq w + 1"
    using Append_good [OF Cons.prems(1) w1] Append_ok [OF w1] by auto
  obtain new where new: "wal_events w' = wal_events w1 @ new"
    "map Seq new = map (\<lambda>k. w_seq w1 + of_nat (Suc k)) [0..<length reqs]"
    using Cons.IH [OF e(1) rest] by blast
  have "map Seq (?e # new) = map (\<lambda>k. w_seq w + of_nat (Suc k)) [0..<length (r # reqs)]"
    using new(2) e(3)
    by (simp add: new_event_def upt_conv_Cons map_Suc_upt [symmetric] comp_def algebra_simps
        del: upt_Suc)
  then show ?case using new(1) e(2) by (intro exI [of _ "?e # new"]) simp
qed

text \<open>C18. A log that took a list of append requests without an error replays exactly what it
  held before followed by one event per request, in the order of the requests, each with the
  type and the job ID of its request and numbered consecutively from the counter.\<close>

theorem wal_append_replay:
  assumes "wal_good w"
    and "handle_all (\<lambda>(io, now, t, j). Append io now t j) reqs w = (None, w')"
  shows "\<exists>new. Replay collect w' [] = (None, wal_events w @ new) \<and>
    map event_key new = map (\<lambda>(io, now, t, j). (t, ID j)) reqs \<and>
    map Seq new = map (\<lambda>k. w_seq w + of_nat (Suc k)) [0..<length reqs]"
proof -
  obtain new where new: "wal_good w'" "wal_events w' = wal_events w @ new"
    "map event_key new = map (\<lambda>(io, now, t, j). (t, ID j)) reqs"
    using wal_log.appends_logged [OF assms] by blast
  moreover have "map Seq new = map (\<lambda>k. w_seq w + of_nat (Suc k)) [0..<length reqs]"
    using appends_seq [OF assms] new(2) by auto
  ultimately show ?thesis by (auto simp: Replay_good handle_all_collect)
qed

definition sample_job :: "JobID \<Rightarrow> Job" where
  "sample_job i = zero_job\<lparr>ID := i\<rparr>"

lemma ID_sample_job [simp]: "ID (sample_job i) = i"
  by (simp add: sample_job_def)

definition sample_requests :: "(flush_io \<times> int \<times> EventType \<times> Job) list" where
  "sample_requests = [(FlushOk, 5, EventEnqueue, sample_job ''a''), (FlushOk, 7, EventAck, sample_job ''a'')]"

lemma wal_append_replay_witness:
  "\<exists>w' new. handle_all (\<lambda>(io, now, t, j). Append io now t j) sample_requests (NewWAL None 0 0) = (None, w') \<and>
    Replay collect w' [] = (None, new) \<and>
    map event_key new = [(EventEnqueue, ''a''), (EventAck, ''a'')] \<and> map Seq new = [1, 2]"
proof -
  obtain w' where w': "handle_all (\<lambda>(io, now, t, j). Append io now t j) sample_requests (NewWAL None 0 0)
      = (None, w')"
    by (simp add: sample_requests_def Append_def NewWAL_def flushBatch_def Let_def)
  show ?thesis
    using wal_append_replay [OF NewWAL_empty(1) w'] w' by (auto simp: sample_requests_def)
qed

section \<open>Corruption\<close>

text \<open>C32. Replay does not get past the first line that does not decode or whose checksum is wrong.
  Unless the handler refuses an event before it, exactly the valid records before it have been
  applied, in order, and the result is \<open>ErrDecode\<close> or \<open>ErrChecksumMismatch\<close>; if the handler refuses one,
  replay has stopped there with the handler's error. Whatever follows the bad line makes no
  difference.\<close>

theorem replay_stops_at_corruption:
  assumes "w_file w = Some (map Rec es @ l # ls)" and "list_all VerifyChecksum es" and "bad_line l"
  shows "Replay h w s = (case handle_all h es s of
      (None, s') \<Rightarrow> (Some (case l of Garbage \<Rightarrow> ErrDecode | Rec e \<Rightarrow> ErrChecksumMismatch), s')
    | (Some err, s') \<Rightarrow> (Some err, s'))"
  by (rule Replay_corrupted [OF assms, unfolded line_error_def])

definition sample_event :: Event where
  "sample_event = new_event 5 EventAck (sample_job ''a'') 1"

definition torn_log :: WAL where
  "torn_log = (NewWAL None 0 0)\<lparr>w_file := Some [Rec sample_event, Garbage, Rec sample_event]\<rparr>"

lemma replay_stops_at_corruption_witness:
  "Replay collect torn_log [] = (Some ErrDecode, [sample_event])"
  using replay_stops_at_corruption [of torn_log "[sample_event]" Garbage "[Rec sample_event]" collect "[]"]
  by (simp add: torn_log_def sample_event_def bad_line_def collect_def)

text \<open>A record whose job ID was changed in one byte never passes the checksum test: CRC-32
  separates any two inputs that differ in a single byte.\<close>

theorem checksum_detects_byte_change:
  assumes "VerifyChecksum e" and "EvJobID e = p @ c # q" and "c \<noteq> d"
  shows "\<not> VerifyChecksum (e\<lparr>EvJobID := p @ d # q\<rparr>)"
proof -
  have "byte_of c \<noteq> byte_of d" using assms(3) byte_of_inj by blast
  from ChecksumIEEE_one_byte [OF this, of "bytes_of (event_string (EvType e)) @ bytes_of p"
      "bytes_of q @ string_of_rune (rune (Seq e))"]
  show ?thesis
    using assms(1,2)
    by (simp add: VerifyChecksum_def CalculateChecksum_def checksum_data_def bytes_of_def Let_def)
qed

lemma checksum_detects_byte_change_witness:
  "VerifyChecksum sample_event \<and> \<not> VerifyChecksum (sample_event\<lparr>EvJobID := ''b''\<rparr>)"
  using checksum_detects_byte_change [of sample_event "[]" "CHR ''a''" "[]" "CHR ''b''"]
  by (simp add: sample_event_def)

text \<open>
  The sequence number goes into the checksum as a rune. Every number whose low 32 bits are no
  code point is encoded as U+FFFD.
\<close>

definition no_rune :: "64 word \<Rightarrow> bool" where
  "no_rune s \<longleftrightarrow> rune s < 0 \<or> 0x10FFFF < rune s \<or> (0xD800 \<le> rune s \<and> rune s \<le> 0xDFFF)"

lemma string_of_no_rune: "no_rune s \<Longrightarrow> string_of_rune (rune s) = [0xEF, 0xBF, 0xBD]"
  by (auto simp: no_rune_def string_of_rune_def)

text \<open>The checksum does not protect every sequence number: among the numbers whose low 32
  bits are not a Unicode code point (55296 to 57343, and from 1114112 to 4294967295) one can be
  replaced by another, and the record still passes the test.\<close>

theorem checksum_blind_to_seq:
  assumes "VerifyChecksum e" and "no_rune (Seq e)" and "no_rune s"
  shows "VerifyChecksum (e\<lparr>Seq := s\<rparr>)"
  using assms
  by (simp add: VerifyChecksum_def CalculateChecksum_def checksum_data_def string_of_no_rune Let_def)

lemma checksum_blind_to_seq_witness:
  "VerifyChecksum ((new_event 5 EventAck (sample_job ''a'') 1114112)\<lparr>Seq := 2000000\<rparr>)"
  by (rule checksum_blind_to_seq) (simp_all add: no_rune_def rune_def)

section \<open>Reopening and rotating\<close>

text \<open>Opening a log never continues its numbering: whatever the file holds, the first event
  appended after \<open>NewWAL\<close> has the number 1, behind all the old records.\<close>

theorem reopen_restarts_numbering:
  "wal_events (snd (Append FlushOk now t j (NewWAL (Some f) b i))) = records f @ [new_event now t j 1]"
  by (simp add: Append_def NewWAL_def GetLastEvent_def flushBatch_def wal_events_def Let_def)

text \<open>Rotation keeps the old records under the archive's name and leaves an empty, usable log
  that numbers from 1. A rotation that fails leaves the log closed for good: no later append or
  rotation succeeds, the records are not touched by them, and closing reports no error.\<close>

theorem rotate_outcome:
  assumes "\<not> w_isClosed w" and "w_file w = Some f"
  shows "Rotate RotateOk stamp w = (None, w\<lparr>w_file := Some [], w_archive := (w_archive w)(stamp \<mapsto> f), w_seq := 0\<rparr>)
    \<and> (\<forall>out. out \<noteq> RotateOk \<longrightarrow> (\<exists>w'. Rotate out stamp w = (Some ErrFileIO, w') \<and>
         (w_file w' = Some f \<or> w_archive w' stamp = Some f) \<and>
         (\<forall>io now t j. \<exists>w''. Append io now t j w' = (Some ErrWALClosed, w'') \<and> w_file w'' = w_file w') \<and>
         (\<forall>out' stamp'. Rotate out' stamp' w' = (Some ErrWALClosed, w')) \<and>
         (\<forall>c. Close c w' = (None, w'))))"
proof (intro conjI allI impI)
  show "Rotate RotateOk stamp w = (None, w\<lparr>w_file := Some [], w_archive := (w_archive w)(stamp \<mapsto> f), w_seq := 0\<rparr>)"
    using assms by (simp add: Rotate_def Let_def)
  fix out
  assume "out \<noteq> RotateOk"
  then obtain w' where w': "Rotate out stamp w = (Some ErrFileIO, w')" "w_isClosed w'"
    "w_file w' = Some f \<or> w_archive w' stamp = Some f"
    using assms by (cases out) (auto simp: Rotate_def Let_def)
  then show "\<exists>w'. Rotate out stamp w = (Some ErrFileIO, w') \<and>
         (w_file w' = Some f \<or> w_archive w' stamp = Some f) \<and>
         (\<forall>io now t j. \<exists>w''. Append io now t j w' = (Some ErrWALClosed, w'') \<and> w_file w'' = w_file w') \<and>
         (\<forall>out' stamp'. Rotate out' stamp' w' = (Some ErrWALClosed, w')) \<and>
         (\<forall>c. Close c w' = (None, w'))"
    by (intro exI [of _ w']) (simp add: Append_def Rotate_def Close_def Let_def)
qed

lemma rotate_outcome_witness:
  "fst (Rotate RenameFails 9 (NewWAL (Some [Rec sample_event]) 0 0)) = Some ErrFileIO \<and>
   wal_events (snd (Rotate RotateOk 9 (NewWAL (Some [Rec sample_event]) 0 0))) = []"
proof -
  let ?w = "NewWAL (Some [Rec sample_event]) 0 0"
  have "\<not> w_isClosed ?w" "w_file ?w = Some [Rec sample_event]"
    by (simp_all add: NewWAL_def Let_def)
  from rotate_outcome [OF this, of 9] show ?thesis
    by (auto simp: wal_events_def)
qed

section \<open>Splitting\<close>

definition part_size :: "Event list \<Rightarrow> int" where
  "part_size p = sum_list (map (\<lambda>e. int (event_size e)) p)"

text \<open>A part that was filled under the limit: before its last event it was below \<open>m\<close>.\<close>

definition part_ok :: "int \<Rightarrow> Event list \<Rightarrow> bool" where
  "part_ok m p \<longleftrightarrow> p \<noteq> [] \<and> (length p = 1 \<or> part_size (butlast p) < m)"

lemma part_size_snoc [simp]: "part_size (p @ [e]) = part_size p + int (event_size e)"
  by (simp add: part_size_def)

lemma split_loop_parts:
  assumes "list_all (part_ok m) parts" and "\<forall>p \<in> set (butlast parts). m \<le> part_size p"
    and "parts \<noteq> [] \<Longrightarrow> cur = part_size (last parts)"
  shows "\<exists>out. split_loop m (map Rec es) parts cur = Inr out \<and> concat out = concat parts @ es \<and>
    list_all (part_ok m) out \<and> (\<forall>p \<in> set (butlast out). m \<le> part_size p)"
  using assms
proof (induction es arbitrary: parts cur)
  case Nil
  then show ?case by simp
next
  case (Cons e es)
  show ?case
  proof (cases "parts = [] \<or> m \<le> cur")
    case True
    have "\<forall>p \<in> set parts. m \<le> part_size p"
      using Cons.prems True by (cases parts rule: rev_cases) auto
    then have "\<forall>p \<in> set (butlast (parts @ [[e]])). m \<le> part_size p"
      by (simp only: butlast_snoc)
    then show ?thesis
      using Cons.IH [of "parts @ [[e]]" "int (event_size e)"] Cons.prems(1) True
      by (auto simp: part_ok_def part_size_def)
  next
    case False
    then obtain ps p where parts: "parts = ps @ [p]" by (metis rev_exhaust)
    then have "part_ok m (p @ [e])"
      using Cons.prems False by (auto simp: part_ok_def)
    then show ?thesis
      using Cons.IH [of "ps @ [p @ [e]]" "cur + int (event_size e)"] Cons.prems False parts
      by auto
  qed
qed

text \<open>Splitting a log loses and reorders nothing: the parts, put one after the other, are the
  events of the file. No part is empty, every part but the last has reached the size limit,
  and none had reached it before its last event was written.\<close>

theorem split_keeps_events:
  "\<exists>parts. splitWALFile m (map Rec es) = Inr parts \<and> concat parts = es \<and>
    list_all (part_ok m) parts \<and> (\<forall>p \<in> set (butlast parts). m \<le> part_size p)"
  using split_loop_parts [of m "[]" 0 es] by (simp add: splitWALFile_def)

lemma split_keeps_events_witness:
  "\<exists>parts. splitWALFile 20 (map Rec [sample_event, sample_event]) = Inr parts \<and>
    concat parts = [sample_event, sample_event]"
  using split_keeps_events [of 20 "[sample_event, sample_event]"] by blast

end
