(* ===== verification/SnapshotManager.thy ===== *)
theory SnapshotManager
  imports GoTypes
begin

text \<open>
  The snapshot manager of \<open>internal/snapshot/snapshot_manager.go\<close>. The part of the file
  system it touches is a record: the snapshot file, its temporary file and the dated backups. A
  write is the sequence of system calls the code makes, so that a call may fail, and the machine
  may stop, between any two of them.
\<close>

section \<open>What a file holds\<close>

text \<open>
  A file holds a complete JSON document or a fragment that does not parse. Encoding keeps every
  field of a job but the dynamic type of a payload's numbers: \<open>encoding/json\<close> decodes a
  number into a \<open>float64\<close>. \<open>f64_round\<close> is the nearest double of an integer of at most 64
  bits, ties to even: the identity below \<open>2\<^sup>5\<^sup>3\<close>, a multiple of the unit in the last place above.
\<close>

datatype content = Doc SnapshotData | Fragment

fun ulp :: "nat \<Rightarrow> nat \<Rightarrow> nat" where
  "ulp 0 n = 1"
| "ulp (Suc k) n = (if n < 2 ^ 53 then 1 else 2 * ulp k (n div 2))"

definition f64_nat :: "nat \<Rightarrow> nat" where
  "f64_nat n =
     (let u = ulp 64 n; q = n div u; r = n mod u
      in if 2 * r < u then q * u
         else if u < 2 * r then (q + 1) * u
         else if even q then q * u else (q + 1) * u)"

definition f64_round :: "int \<Rightarrow> int" where
  "f64_round z = (if z < 0 then - int (f64_nat (nat (- z))) else int (f64_nat (nat z)))"

fun json_val :: "gval \<Rightarrow> gval" where
  "json_val (GInt z) = GFloat (f64_round z)"
| "json_val v = v"

definition json_job :: "Job \<Rightarrow> Job" where
  "json_job j = j\<lparr>Payload := map_option json_val \<circ> Payload j\<rparr>"

definition json_data :: "SnapshotData \<Rightarrow> SnapshotData" where
  "json_data d = d\<lparr>Jobs := map_option json_job \<circ> Jobs d\<rparr>"

record SnapFS =
  path_file :: "content option"
  tmp_file :: "content option"
  backups :: "int \<rightharpoonup> content"

section \<open>Writing\<close>

text \<open>
  The disk during a write. \<open>disk_view\<close> is what the processes see. What a crash leaves may be less:
  data written to a file is on the disk for sure only after a \<open>Sync\<close> of that file
  (\<open>tmp_synced\<close>), and a rename changes the directory, which the code never syncs, so the path may
  still name its old file (\<open>old_path\<close>) or the new one, whose data is there for sure only if it was
  synced before the rename (\<open>path_synced\<close>).
\<close>

record SnapDisk =
  disk_view :: SnapFS
  tmp_synced :: bool
  old_path :: "content option"
  path_synced :: bool

text \<open>A disk with nothing under way: what the processes see is what a crash leaves.\<close>

definition settled :: "SnapFS \<Rightarrow> SnapDisk" where
  "settled fs = \<lparr>disk_view = fs, tmp_synced = False, old_path = path_file fs, path_synced = True\<rparr>"

text \<open>
  The system calls of \<open>Write\<close>, in order. \<open>SEncode\<close> fills the buffer and may spill any part
  of it into the file; only \<open>SFlush\<close> completes the document.
\<close>

datatype snap_step = SMkdir | SCreate | SEncode | SFlush | SSync | SRename

definition write_steps :: "snap_step list" where
  "write_steps = [SMkdir, SCreate, SEncode, SFlush, SSync, SRename]"

definition write_tmp :: "content \<Rightarrow> SnapDisk \<Rightarrow> SnapDisk" where
  "write_tmp c d = d\<lparr>disk_view := (disk_view d)\<lparr>tmp_file := Some c\<rparr>, tmp_synced := False\<rparr>"

fun step_effect :: "SnapshotData \<Rightarrow> snap_step \<Rightarrow> SnapDisk \<Rightarrow> SnapDisk" where
  "step_effect data SMkdir d = d"
| "step_effect data SCreate d = write_tmp Fragment d"
| "step_effect data SEncode d = write_tmp Fragment d"
| "step_effect data SFlush d = write_tmp (Doc (json_data data)) d"
| "step_effect data SSync d = d\<lparr>tmp_synced := True\<rparr>"
| "step_effect data SRename d =
     d\<lparr>disk_view := (disk_view d)\<lparr>path_file := tmp_file (disk_view d), tmp_file := None\<rparr>,
       old_path := path_file (disk_view d), path_synced := tmp_synced d\<rparr>"

text \<open>After a failed call the code removes the temporary file, once it has been created.\<close>

fun cleanup :: "snap_step \<Rightarrow> SnapDisk \<Rightarrow> SnapDisk" where
  "cleanup SMkdir d = d"
| "cleanup SCreate d = d"
| "cleanup s d = d\<lparr>disk_view := (disk_view d)\<lparr>tmp_file := None\<rparr>\<rparr>"

fun run_steps ::
  "snap_step option \<Rightarrow> SnapshotData \<Rightarrow> snap_step list \<Rightarrow> SnapDisk \<Rightarrow> gerror option \<times> SnapDisk" where
  "run_steps fault data [] d = (None, d)"
| "run_steps fault data (s # ss) d =
     (if fault = Some s then (Some ErrFileIO, cleanup s d)
      else run_steps fault data ss (step_effect data s d))"

text \<open>\<open>fault\<close> is the call that fails, if any does.\<close>

definition Write :: "snap_step option \<Rightarrow> SnapshotData \<Rightarrow> SnapFS \<Rightarrow> gerror option \<times> SnapFS" where
  "Write fault data fs =
     (case run_steps fault (data\<lparr>SchemaVer := 1\<rparr>) write_steps (settled fs) of (err, d) \<Rightarrow> (err, disk_view d))"

text \<open>
  What a crash may leave of a disk: at the path the old file, the new one, or, if its data was not
  synced, a fragment of it; under the temporary name anything of what was there.
\<close>

definition crash_states :: "SnapDisk \<Rightarrow> SnapFS list" where
  "crash_states d =
     (let fs = disk_view d
      in map (\<lambda>(p, t). fs\<lparr>path_file := p, tmp_file := t\<rparr>)
           (List.product ([old_path d, path_file fs] @ (if path_synced d then [] else [Some Fragment]))
              [tmp_file fs, None, Some Fragment]))"

text \<open>The disks the machine may find when it stops after \<open>k\<close> calls of a write.\<close>

definition crash_after :: "snap_step option \<Rightarrow> nat \<Rightarrow> SnapshotData \<Rightarrow> SnapFS \<Rightarrow> SnapFS list" where
  "crash_after fault k data fs =
     crash_states (snd (run_steps fault (data\<lparr>SchemaVer := 1\<rparr>) (take k write_steps) (settled fs)))"

section \<open>Reading\<close>

definition Exists :: "SnapFS \<Rightarrow> bool" where
  "Exists fs \<longleftrightarrow> path_file fs \<noteq> None"

definition empty_snapshot :: SnapshotData where
  "empty_snapshot = \<lparr>Jobs = Map.empty, SchemaVer = 1, LastSeq = 0\<rparr>"

text \<open>\<open>unreadable\<close>: the file is there and reading it fails.\<close>

definition Load :: "bool \<Rightarrow> SnapFS \<Rightarrow> SnapshotData res" where
  "Load unreadable fs =
     (case path_file fs of
        None \<Rightarrow> Inr empty_snapshot
      | Some c \<Rightarrow>
          if unreadable then Inl ErrFileIO
          else case c of
                 Fragment \<Rightarrow> Inl ErrCorruptedSnapshot
               | Doc data \<Rightarrow> if SchemaVer data \<noteq> 1 then Inl ErrIncompatibleVersion else Inr data)"

section \<open>Writing with a backup\<close>

text \<open>
  The old snapshot is renamed away under the lock, the lock is released and \<open>Write\<close> runs.
  \<open>stamp\<close> is the second in the backup's name.
\<close>

definition backup_old :: "bool \<Rightarrow> int \<Rightarrow> SnapFS \<Rightarrow> gerror option \<times> SnapFS" where
  "backup_old fails stamp fs =
     (case path_file fs of
        None \<Rightarrow> (None, fs)
      | Some c \<Rightarrow>
          if fails then (Some ErrFileIO, fs)
          else (None, fs\<lparr>path_file := None, backups := (backups fs)(stamp \<mapsto> c)\<rparr>))"

definition WriteWithBackup ::
  "bool \<Rightarrow> int \<Rightarrow> snap_step option \<Rightarrow> SnapshotData \<Rightarrow> SnapFS \<Rightarrow> gerror option \<times> SnapFS" where
  "WriteWithBackup fails stamp fault data fs =
     (case backup_old fails stamp fs of
        (Some err, fs') \<Rightarrow> (Some err, fs')
      | (None, fs') \<Rightarrow> Write fault data fs')"

section \<open>Rounding\<close>

lemma ulp_small: "n < 2 ^ 53 \<Longrightarrow> ulp k n = 1"
  by (cases k) auto

lemma f64_round_small: "\<bar>z\<bar> < 2 ^ 53 \<Longrightarrow> f64_round z = z"
  by (simp add: f64_round_def f64_nat_def ulp_small Let_def)

lemma json_val_idem [simp]: "json_val (json_val v) = json_val v"
  by (cases v) auto

text \<open>A job whose payload came out of a JSON decoder is a fixed point of the encoding.\<close>

lemma json_job_idem [simp]: "json_job (json_job j) = json_job j"
  by (simp add: json_job_def fun_eq_iff option.map_comp o_def)

lemma json_job_simps [simp]:
  "ID (json_job j) = ID j" "Status (json_job j) = Status j" "Attempt (json_job j) = Attempt j"
  "Deadline (json_job j) = Deadline j" "Timeout (json_job j) = Timeout j"
  by (simp_all add: json_job_def)

lemma json_data_simps [simp]:
  "SchemaVer (json_data d) = SchemaVer d" "LastSeq (json_data d) = LastSeq d"
  "Jobs (json_data d) i = map_option json_job (Jobs d i)"
  by (simp_all add: json_data_def)

lemmas write_defs = Write_def write_steps_def settled_def write_tmp_def

lemma Write_ok: "Write None data fs = (None, fs\<lparr>path_file := Some (Doc (json_data (data\<lparr>SchemaVer := 1\<rparr>))),
    tmp_file := None\<rparr>)"
  by (simp add: write_defs)

lemma Write_fault: "fault = Some s \<Longrightarrow> fst (Write fault data fs) = Some ErrFileIO \<and>
    path_file (snd (Write fault data fs)) = path_file fs \<and> backups (snd (Write fault data fs)) = backups fs"
  by (cases s) (simp_all add: write_defs)

lemma Load_path: "path_file fs = path_file gs \<Longrightarrow> Load u fs = Load u gs"
  by (simp add: Load_def)

text \<open>At the path there is never anything but the old document or the complete new one.\<close>

definition path_safe :: "content option \<Rightarrow> SnapshotData \<Rightarrow> SnapDisk \<Rightarrow> bool" where
  "path_safe old data d \<longleftrightarrow> path_synced d \<and> old_path d = old \<and>
     path_file (disk_view d) \<in> {old, Some (Doc (json_data data))}"

lemma crash_states_path:
  assumes "path_safe old data d" and "gs \<in> set (crash_states d)"
  shows "path_file gs = old \<or> path_file gs = Some (Doc (json_data data))"
  using assms by (auto simp: path_safe_def crash_states_def Let_def)

lemma path_safe_write_tmp [simp]: "path_safe old data (write_tmp c d) = path_safe old data d"
  by (simp add: path_safe_def write_tmp_def)

lemma path_safe_sync [simp]: "path_safe old data (d\<lparr>tmp_synced := b\<rparr>) = path_safe old data d"
  by (simp add: path_safe_def)

lemma path_safe_cleanup [simp]: "path_safe old data (cleanup s d) = path_safe old data d"
  by (cases s) (simp_all add: path_safe_def)

lemma path_safe_settled: "path_safe (path_file fs) data (settled fs)"
  by (simp add: path_safe_def settled_def)

text \<open>The rename is the only call that touches the path, and it finds a synced complete document.\<close>

lemma path_safe_steps:
  assumes "SRename \<notin> set ss" and "path_safe old data d"
  shows "path_safe old data (snd (run_steps fault data ss d))"
  using assms
proof (induction ss arbitrary: d)
  case Nil
  then show ?case by simp
next
  case (Cons s ss)
  have "path_safe old data (step_effect data s d)" using Cons.prems by (cases s) simp_all
  then show ?case using Cons by simp
qed

lemma path_safe_all: "path_safe (path_file fs) data (snd (run_steps fault data write_steps (settled fs)))"
  by (simp add: write_steps_def path_safe_settled) (simp add: path_safe_def write_tmp_def settled_def)

lemma crash_path:
  assumes "gs \<in> set (crash_after fault k data fs)"
  shows "path_file gs = path_file fs \<or> path_file gs = Some (Doc (json_data (data\<lparr>SchemaVer := 1\<rparr>)))"
proof -
  let ?d = "data\<lparr>SchemaVer := 1\<rparr>"
  have "path_safe (path_file fs) ?d (snd (run_steps fault ?d (take k write_steps) (settled fs)))"
  proof (cases "k < 6")
    case True
    then have "k \<in> {0, 1, 2, 3, 4, 5}" by auto
    then have "SRename \<notin> set (take k write_steps)" by (auto simp: write_steps_def)
    then show ?thesis by (rule path_safe_steps [OF _ path_safe_settled])
  next
    case False
    then have "take k write_steps = write_steps" by (simp add: write_steps_def)
    then show ?thesis using path_safe_all by simp
  qed
  then show ?thesis using crash_states_path assms by (simp add: crash_after_def)
qed

section \<open>Properties\<close>

text \<open>A successful write is read back: every job with all its fields, the sequence number, and
  the version 1 whatever version the caller had set (a partial snapshot says 2). Only integers in
  payloads come back as floating-point numbers.\<close>

theorem snapshot_write_load:
  "\<exists>fs'. Write None data fs = (None, fs') \<and> Exists fs' \<and>
    (\<exists>d. Load False fs' = Inr d \<and> SchemaVer d = 1 \<and> LastSeq d = LastSeq data \<and>
       dom (Jobs d) = dom (Jobs data) \<and>
       (\<forall>i. Jobs d i = map_option json_job (Jobs data i)) \<and>
       Write None d fs' = (None, fs'))"
proof -
  have "json_data (json_data (data\<lparr>SchemaVer := 1\<rparr>)) = json_data (data\<lparr>SchemaVer := 1\<rparr>)"
    by (simp add: json_data_def fun_eq_iff option.map_comp o_def)
  then show ?thesis
    by (simp add: Write_ok Load_def Exists_def dom_map_option_comp json_data_def)
qed

text \<open>C23. A snapshot write is atomic on a disk that may lose whatever has not been synced. If the
  machine stops after any number of its system calls, one of which may have failed, then on every
  disk the crash can leave the next load gives what it would have given before the write, or the
  complete new snapshot; and a write in which a call fails returns an error and leaves the snapshot
  file as it was. The disk is settled when the write begins: what was at the path is there for sure.\<close>

theorem snapshot_write_atomic:
  "(\<forall>gs \<in> set (crash_after fault k data fs).
      Load u gs = Load u fs \<or> Load u gs = Load u (snd (Write None data fs))) \<and>
   (\<forall>s. fst (Write (Some s) data fs) \<noteq> None \<and> Load u (snd (Write (Some s) data fs)) = Load u fs)"
proof (intro conjI ballI allI)
  fix gs assume "gs \<in> set (crash_after fault k data fs)"
  from crash_path [OF this] show "Load u gs = Load u fs \<or> Load u gs = Load u (snd (Write None data fs))"
    by (auto simp: Write_ok intro: Load_path)
next
  fix s
  show "fst (Write (Some s) data fs) \<noteq> None" "Load u (snd (Write (Some s) data fs)) = Load u fs"
    using Write_fault [of "Some s" s data fs] by (simp_all add: Load_def)
qed

definition snap_one :: SnapFS where
  "snap_one = \<lparr>path_file = Some (Doc (empty_snapshot\<lparr>Jobs := [''a'' \<mapsto> zero_job]\<rparr>)), tmp_file = None, backups = Map.empty\<rparr>"

lemma snapshot_write_atomic_witness:
  "\<exists>gs hs. {gs, hs} \<subseteq> set (crash_after None 6 empty_snapshot snap_one) \<and> path_file gs \<noteq> path_file hs \<and>
     (\<forall>fs \<in> {gs, hs}. Load False fs = Load False snap_one \<or> Load False fs = Load False (snd (Write None empty_snapshot snap_one)))"
proof -
  let ?gs = "snap_one" and ?hs = "snd (Write None empty_snapshot snap_one)"
  have c: "{?gs, ?hs} \<subseteq> set (crash_after None 6 empty_snapshot snap_one)"
    by (simp add: crash_after_def crash_states_def write_defs Let_def snap_one_def)
  have d: "path_file ?gs \<noteq> path_file ?hs"
    by (simp add: Write_ok snap_one_def empty_snapshot_def json_data_def fun_eq_iff)
  have "\<forall>fs \<in> {?gs, ?hs}. Load False fs = Load False snap_one \<or> Load False fs = Load False (snd (Write None empty_snapshot snap_one))"
    using conjunct1 [OF snapshot_write_atomic [of None 6 empty_snapshot snap_one False]] c by blast
  with c d show ?thesis by blast
qed

text \<open>What the write does not promise: it has returned without an error, and a crash may still bring the
  old snapshot back, since the directory is not synced after the rename.\<close>

theorem successful_write_may_revert:
  "fst (Write None data fs) = None \<and>
    (\<exists>gs \<in> set (crash_after None (length write_steps) data fs). Load u gs = Load u fs)"
proof -
  have "fs\<lparr>tmp_file := None\<rparr> \<in> set (crash_after None (length write_steps) data fs)"
    by (simp add: crash_after_def crash_states_def write_defs Let_def)
  moreover have "Load u (fs\<lparr>tmp_file := None\<rparr>) = Load u fs" by (simp add: Load_def)
  ultimately show ?thesis by (auto simp: Write_ok)
qed

text \<open>\<open>WriteWithBackup\<close> gives up the atomicity of \<open>Write\<close>: when the write after the rename fails,
  the snapshot is gone from its path, and the next load reports an empty system and no error.\<close>

theorem backup_write_loses_snapshot:
  assumes "path_file fs = Some (Doc d)"
  shows "\<exists>err fs'. WriteWithBackup False stamp (Some s) data fs = (Some err, fs') \<and>
    Load u fs' = Inr empty_snapshot \<and> backups fs' stamp = Some (Doc d)"
  using assms Write_fault [of "Some s" s data]
  by (cases s) (simp_all add: WriteWithBackup_def backup_old_def write_defs Load_def)

lemma backup_write_loses_snapshot_witness:
  "\<exists>err fs'. WriteWithBackup False 7 (Some SSync) empty_snapshot
      \<lparr>path_file = Some (Doc (empty_snapshot\<lparr>Jobs := [''a'' \<mapsto> zero_job]\<rparr>)), tmp_file = None, backups = Map.empty\<rparr> = (Some err, fs') \<and>
    Load False fs' = Inr empty_snapshot \<and>
    backups fs' 7 = Some (Doc (empty_snapshot\<lparr>Jobs := [''a'' \<mapsto> zero_job]\<rparr>))"
  by (rule backup_write_loses_snapshot) simp

end
