(* ===== verification/Worker.thy ===== *)
theory Worker
  imports GoTypes "HOL-Library.Multiset"
begin

text \<open>
  The worker pool of \<open>internal/worker/worker_pool.go\<close>, \<open>worker.go\<close> and \<open>types.go\<close>. Goroutines
  and channels become one state and the atomic steps the runtime may interleave: a sender that
  has passed the checks of \<open>Submit\<close> and waits in its \<open>select\<close>, a worker between taking a
  task and reporting it, the three phases of \<open>Stop\<close>. Durations are nanoseconds.
\<close>

section \<open>Tasks and their execution\<close>

record Task =
  TaskID :: JobID
  TaskPayload :: payload
  TaskLimit :: int

record Result =
  ResultID :: JobID
  Success :: bool
  Duration :: int

text \<open>\<open>time.Duration(v) * time.Millisecond\<close> multiplies 64-bit integers.\<close>

definition wrap64 :: "int \<Rightarrow> int" where
  "wrap64 z = (z + 2 ^ 63) mod 2 ^ 64 - 2 ^ 63"

text \<open>\<open>rnd\<close> is the value of \<open>rand.Intn(500)\<close>.\<close>

definition work_duration :: "int \<Rightarrow> payload \<Rightarrow> int" where
  "work_duration rnd payload =
     (case payload ''sleep_ms'' of
        None \<Rightarrow> wrap64 (rnd * 1000000)
      | Some (GInt v) \<Rightarrow> wrap64 (v * 1000000)
      | Some (GFloat v) \<Rightarrow> wrap64 (v * 1000000)
      | Some v \<Rightarrow> wrap64 (rnd * 1000000))"

text \<open>
  The \<open>select\<close> of \<open>execute\<close> waits for the context's deadline and for the timer; \<open>tie\<close> is
  what the runtime picks when both are ready, as they are at once when neither lies in the future.
  The simulated failure rate is the constant 0, so the timer's branch returns nil.
\<close>

definition execute :: "bool \<Rightarrow> int \<Rightarrow> int \<Rightarrow> payload \<Rightarrow> bool" where
  "execute tie rnd timeout payload =
     (let work = max 0 (work_duration rnd payload); limit = max 0 timeout
      in if work < limit then True else if limit < work then False else tie)"

definition run_task :: "bool \<Rightarrow> int \<Rightarrow> int \<Rightarrow> Task \<Rightarrow> Result" where
  "run_task tie rnd elapsed task =
     \<lparr>ResultID = TaskID task, Success = execute tie rnd (TaskLimit task) (TaskPayload task),
      Duration = elapsed\<rparr>"

section \<open>The pool\<close>

text \<open>
  \<open>sending\<close> holds the tasks of the \<open>Submit\<close> calls that have passed the checks, \<open>running\<close> the
  tasks the workers have taken. The last three fields record what has happened: the tasks sent,
  the results a receiver got and the results a worker threw away.
\<close>

record Pool =
  capacity :: nat
  workers :: nat
  started :: bool
  stopped :: bool
  stopCh_closed :: bool
  taskCh :: "Task list"
  taskCh_closed :: bool
  resultCh :: "Result list"
  resultCh_closed :: bool
  sending :: "Task list"
  running :: "Task list"
  accepted :: "Task list"
  delivered :: "Result list"
  dropped :: "Result list"

text \<open>\<open>make(chan Task, bufferSize)\<close> panics for a negative size: no pool is created.\<close>

definition NewPool :: "int \<Rightarrow> Pool option" where
  "NewPool bufferSize =
     (if bufferSize < 0 then None
      else Some \<lparr>capacity = nat bufferSize, workers = 0, started = False, stopped = False,
        stopCh_closed = False, taskCh = [], taskCh_closed = False, resultCh = [],
        resultCh_closed = False, sending = [], running = [], accepted = [], delivered = [],
        dropped = []\<rparr>)"

definition Start :: "nat \<Rightarrow> Pool \<Rightarrow> Pool res" where
  "Start workerCount p =
     (if started p then Inl ErrPoolAlreadyStarted
      else Inr (p\<lparr>workers := workerCount, started := True\<rparr>))"

text \<open>The part of \<open>Submit\<close> under the mutex.\<close>

definition submit_check :: "Task \<Rightarrow> Pool \<Rightarrow> Pool res" where
  "submit_check task p =
     (if \<not> started p then Inl ErrPoolNotStarted
      else if stopped p then Inl ErrPoolClosed
      else Inr (p\<lparr>sending := task # sending p\<rparr>))"

datatype pool_outcome = Next Pool | Panic

text \<open>
  The \<open>select\<close> of \<open>Submit\<close>. The send case is ready when the buffer has room, when an idle worker
  waits at an empty buffer, and when the channel is closed, in which case choosing it panics.
\<close>

definition idle_worker :: "Pool \<Rightarrow> bool" where
  "idle_worker p \<longleftrightarrow> length (running p) < workers p \<and> taskCh p = []"

definition submit_send :: "Task \<Rightarrow> Pool \<Rightarrow> pool_outcome option" where
  "submit_send task p =
     (if task \<notin> set (sending p) then None
      else if taskCh_closed p then Some Panic
      else if idle_worker p
        then Some (Next (p\<lparr>sending := remove1 task (sending p), running := task # running p,
                           accepted := task # accepted p\<rparr>))
      else if length (taskCh p) < capacity p
        then Some (Next (p\<lparr>sending := remove1 task (sending p), taskCh := taskCh p @ [task],
                           accepted := task # accepted p\<rparr>))
      else None)"

definition submit_stopped :: "Task \<Rightarrow> Pool \<Rightarrow> Pool option" where
  "submit_stopped task p =
     (if task \<in> set (sending p) \<and> stopCh_closed p
      then Some (p\<lparr>sending := remove1 task (sending p)\<rparr>) else None)"

text \<open>One round of a worker's \<open>Run\<close>: take a task from the channel; execute it and report.\<close>

definition worker_take :: "Pool \<Rightarrow> Pool option" where
  "worker_take p =
     (case taskCh p of
        [] \<Rightarrow> None
      | task # rest \<Rightarrow>
          if length (running p) < workers p
          then Some (p\<lparr>taskCh := rest, running := task # running p\<rparr>) else None)"

text \<open>\<open>waiting\<close>: a receiver is blocked on the empty result channel.\<close>

definition worker_report :: "bool \<Rightarrow> Task \<Rightarrow> Result \<Rightarrow> Pool \<Rightarrow> Pool option" where
  "worker_report waiting task result p =
     (if task \<notin> set (running p) then None
      else let p' = p\<lparr>running := remove1 task (running p)\<rparr>
        in if waiting \<and> resultCh p = [] then Some (p'\<lparr>delivered := result # delivered p\<rparr>)
           else if length (resultCh p) < capacity p
             then Some (p'\<lparr>resultCh := resultCh p @ [result]\<rparr>)
           else Some (p'\<lparr>dropped := result # dropped p\<rparr>))"

definition ReceiveResult :: "bool \<Rightarrow> Pool \<Rightarrow> (Result res \<times> Pool) option" where
  "ReceiveResult prefer_stop p =
     (if stopCh_closed p \<and> prefer_stop then Some (Inl ErrPoolClosed, p)
      else case resultCh p of
             result # rest \<Rightarrow> Some (Inr result, p\<lparr>resultCh := rest, delivered := result # delivered p\<rparr>)
           | [] \<Rightarrow> if resultCh_closed p \<or> stopCh_closed p then Some (Inl ErrPoolClosed, p) else None)"

text \<open>\<open>Stop\<close>: the flag under the mutex, the two closes one after the other, and after the last worker the result channel.\<close>

definition stop_flag :: "Pool \<Rightarrow> Pool option" where
  "stop_flag p = (if \<not> started p \<or> stopped p then None else Some (p\<lparr>stopped := True\<rparr>))"

definition stop_signal :: "Pool \<Rightarrow> Pool option" where
  "stop_signal p = (if stopped p \<and> \<not> stopCh_closed p then Some (p\<lparr>stopCh_closed := True\<rparr>) else None)"

definition stop_close :: "Pool \<Rightarrow> Pool option" where
  "stop_close p = (if stopCh_closed p \<and> \<not> taskCh_closed p then Some (p\<lparr>taskCh_closed := True\<rparr>) else None)"

definition stop_wait :: "Pool \<Rightarrow> Pool option" where
  "stop_wait p =
     (if taskCh_closed p \<and> \<not> resultCh_closed p \<and> running p = [] \<and> (taskCh p = [] \<or> workers p = 0)
      then Some (p\<lparr>resultCh_closed := True\<rparr>) else None)"

text \<open>What \<open>pollerLoop\<close> makes of a polled job and what \<open>ackLoop\<close> reports for a result.\<close>

definition poll_task :: "Job \<Rightarrow> Task" where
  "poll_task job = \<lparr>TaskID = ID job, TaskPayload = Payload job, TaskLimit = Timeout job\<rparr>"

definition ack_status :: "Result \<Rightarrow> JobStatus" where
  "ack_status result = (if Success result then StatusCompleted else StatusDead)"

definition GetWorkerCount :: "Pool \<Rightarrow> nat" where
  "GetWorkerCount p = workers p"

definition IsStarted :: "Pool \<Rightarrow> bool" where
  "IsStarted p = started p"

lemmas pool_defs = submit_check_def submit_send_def submit_stopped_def worker_take_def
  worker_report_def ReceiveResult_def stop_flag_def stop_signal_def stop_close_def stop_wait_def Start_def

section \<open>The pool's life\<close>

inductive pool_step :: "Pool \<Rightarrow> pool_outcome \<Rightarrow> bool" where
  st_start: "Start k p = Inr p' \<Longrightarrow> pool_step p (Next p')"
| st_check: "submit_check t p = Inr p' \<Longrightarrow> pool_step p (Next p')"
| st_send: "submit_send t p = Some out \<Longrightarrow> pool_step p out"
| st_abort: "submit_stopped t p = Some p' \<Longrightarrow> pool_step p (Next p')"
| st_take: "worker_take p = Some p' \<Longrightarrow> pool_step p (Next p')"
| st_report: "worker_report wt t (run_task tie rnd el t) p = Some p' \<Longrightarrow> pool_step p (Next p')"
| st_receive: "ReceiveResult b p = Some (r, p') \<Longrightarrow> pool_step p (Next p')"
| st_flag: "stop_flag p = Some p' \<Longrightarrow> pool_step p (Next p')"
| st_signal: "stop_signal p = Some p' \<Longrightarrow> pool_step p (Next p')"
| st_close: "stop_close p = Some p' \<Longrightarrow> pool_step p (Next p')"
| st_wait: "stop_wait p = Some p' \<Longrightarrow> pool_step p (Next p')"

inductive pool_reach :: "int \<Rightarrow> pool_outcome \<Rightarrow> bool" for n :: int where
  pr_new: "NewPool n = Some p \<Longrightarrow> pool_reach n (Next p)"
| pr_step: "pool_reach n (Next p) \<Longrightarrow> pool_step p out \<Longrightarrow> pool_reach n out"

definition task_ids :: "Task list \<Rightarrow> JobID multiset" where
  "task_ids ts = mset (map TaskID ts)"

definition result_ids :: "Result list \<Rightarrow> JobID multiset" where
  "result_ids rs = mset (map ResultID rs)"

definition pool_inv :: "Pool \<Rightarrow> bool" where
  "pool_inv p \<longleftrightarrow>
     task_ids (accepted p) = task_ids (taskCh p) + task_ids (running p) + result_ids (resultCh p)
       + result_ids (delivered p) + result_ids (dropped p) \<and>
     length (taskCh p) \<le> capacity p \<and> length (resultCh p) \<le> capacity p \<and>
     length (running p) \<le> workers p \<and> (taskCh_closed p \<longrightarrow> stopCh_closed p) \<and> (stopCh_closed p \<longrightarrow> stopped p) \<and>
     (workers p \<noteq> 0 \<longrightarrow> started p) \<and> (resultCh_closed p \<longrightarrow> taskCh_closed p \<and> running p = []) \<and>
     (resultCh_closed p \<and> workers p \<noteq> 0 \<longrightarrow> taskCh p = []) \<and> (stopped p \<longrightarrow> started p)"

lemma task_ids_simps [simp]:
  "task_ids [] = {#}" "task_ids (t # ts) = add_mset (TaskID t) (task_ids ts)"
  "task_ids (ts @ us) = task_ids ts + task_ids us"
  by (simp_all add: task_ids_def)

lemma result_ids_simps [simp]:
  "result_ids [] = {#}" "result_ids (r # rs) = add_mset (ResultID r) (result_ids rs)"
  "result_ids (rs @ qs) = result_ids rs + result_ids qs"
  by (simp_all add: result_ids_def)

lemma task_ids_remove1: "t \<in> set ts \<Longrightarrow> task_ids ts = add_mset (TaskID t) (task_ids (remove1 t ts))"
  by (induction ts) auto

lemma ResultID_run_task [simp]: "ResultID (run_task tie rnd el t) = TaskID t"
  by (simp add: run_task_def)

section \<open>The invariant\<close>

lemma remove1_length: "t \<in> set ts \<Longrightarrow> length ts = Suc (length (remove1 t ts))"
  by (induction ts) auto

lemma NewPool_inv: "NewPool n = Some p \<Longrightarrow> pool_inv p"
  by (auto simp: NewPool_def pool_inv_def split: if_splits)

lemma Start_inv: "pool_inv p \<Longrightarrow> Start n p = Inr p' \<Longrightarrow> pool_inv p'"
  by (auto simp: Start_def pool_inv_def split: if_splits)

lemma submit_check_inv: "pool_inv p \<Longrightarrow> submit_check t p = Inr p' \<Longrightarrow> pool_inv p'"
  by (auto simp: submit_check_def pool_inv_def split: if_splits)

lemma submit_send_inv: "pool_inv p \<Longrightarrow> submit_send t p = Some (Next p') \<Longrightarrow> pool_inv p'"
  by (auto simp: submit_send_def pool_inv_def idle_worker_def split: if_splits)

lemma submit_stopped_inv: "pool_inv p \<Longrightarrow> submit_stopped t p = Some p' \<Longrightarrow> pool_inv p'"
  by (auto simp: submit_stopped_def pool_inv_def split: if_splits)

lemma worker_take_inv: "pool_inv p \<Longrightarrow> worker_take p = Some p' \<Longrightarrow> pool_inv p'"
  by (auto simp: worker_take_def pool_inv_def split: list.splits if_splits)

lemma worker_report_inv:
  assumes inv: "pool_inv p" and "worker_report wt t r p = Some p'" and r: "ResultID r = TaskID t"
  shows "pool_inv p'"
proof -
  have t: "t \<in> set (running p)"
    and p': "p' \<in> (\<lambda>f. f (p\<lparr>running := remove1 t (running p)\<rparr>)) `
      {\<lambda>q. q\<lparr>delivered := r # delivered p\<rparr>, \<lambda>q. q\<lparr>dropped := r # dropped p\<rparr>} \<or>
      p' = p\<lparr>running := remove1 t (running p), resultCh := resultCh p @ [r]\<rparr> \<and> length (resultCh p) < capacity p"
    using assms(2) by (auto simp: worker_report_def Let_def split: if_splits)
  obtain rest where rest: "remove1 t (running p) = rest" by blast
  have "task_ids (running p) = add_mset (TaskID t) (task_ids rest)" "length (running p) = Suc (length rest)"
    "running p \<noteq> []"
    using task_ids_remove1 [OF t] remove1_length [OF t] t rest by auto
  with inv p' r rest show ?thesis
    unfolding pool_inv_def by (elim disjE imageE insertE conjE) simp_all
qed

lemma ReceiveResult_cases:
  assumes "ReceiveResult b p = Some (r, p')"
  obtains "p' = p"
  | x rest where "resultCh p = x # rest" "p' = p\<lparr>resultCh := rest, delivered := x # delivered p\<rparr>"
  using assms by (auto simp: ReceiveResult_def split: list.splits if_splits)

lemma ReceiveResult_inv: "pool_inv p \<Longrightarrow> ReceiveResult b p = Some (r, p') \<Longrightarrow> pool_inv p'"
  by (erule ReceiveResult_cases) (simp_all add: pool_inv_def)

lemma stop_flag_inv: "pool_inv p \<Longrightarrow> stop_flag p = Some p' \<Longrightarrow> pool_inv p'"
  by (auto simp: stop_flag_def pool_inv_def split: if_splits)

lemma stop_signal_inv: "pool_inv p \<Longrightarrow> stop_signal p = Some p' \<Longrightarrow> pool_inv p'"
  by (auto simp: stop_signal_def pool_inv_def split: if_splits)

lemma stop_close_inv: "pool_inv p \<Longrightarrow> stop_close p = Some p' \<Longrightarrow> pool_inv p'"
  by (auto simp: stop_close_def pool_inv_def split: if_splits)

lemma stop_wait_inv: "pool_inv p \<Longrightarrow> stop_wait p = Some p' \<Longrightarrow> pool_inv p'"
  by (auto simp: stop_wait_def pool_inv_def split: if_splits)

inductive_cases pool_step_Next: "pool_step p (Next p')"

lemmas pool_op_inv = Start_inv submit_check_inv submit_send_inv submit_stopped_inv worker_take_inv
  worker_report_inv [OF _ _ ResultID_run_task] ReceiveResult_inv stop_flag_inv stop_signal_inv stop_close_inv stop_wait_inv

lemma pool_step_inv: "pool_inv p \<Longrightarrow> pool_step p (Next p') \<Longrightarrow> pool_inv p'"
  by (erule pool_step_Next; erule (1) pool_op_inv)

lemma pool_reach_outcome: "pool_reach n out \<Longrightarrow> out = Next p \<Longrightarrow> pool_inv p"
proof (induction arbitrary: p rule: pool_reach.induct)
  case (pr_new q)
  then show ?case using NewPool_inv by simp
next
  case (pr_step q out)
  then show ?case using pool_step_inv by blast
qed

lemma pool_reach_inv: "pool_reach n (Next p) \<Longrightarrow> pool_inv p"
  using pool_reach_outcome by blast

lemma pool_step_capacity: "pool_step p (Next p') \<Longrightarrow> capacity p' = capacity p"
  by (erule pool_step_Next) (auto simp: pool_defs Let_def split: if_splits list.splits)

lemma pool_reach_capacity: "pool_reach n out \<Longrightarrow> out = Next p \<Longrightarrow> capacity p = nat n"
proof (induction arbitrary: p rule: pool_reach.induct)
  case (pr_new q)
  then show ?case by (auto simp: NewPool_def split: if_splits)
next
  case (pr_step q out)
  then show ?case using pool_step_capacity by fastforce
qed

section \<open>Properties\<close>

text \<open>A sample life: one worker has taken the only task submitted.\<close>

definition task_named :: "JobID \<Rightarrow> Task" where
  "task_named i = \<lparr>TaskID = i, TaskPayload = [''sleep_ms'' \<mapsto> GInt 5], TaskLimit = 1000000000\<rparr>"

lemma sample_pool_reach:
  "\<exists>p. pool_reach (int n) (Next p) \<and> accepted p = [task_named ''a''] \<and>
    running p = [task_named ''a''] \<and> dropped p = []"
proof -
  let ?t = "task_named ''a''"
  obtain p0 where p0: "NewPool (int n) = Some p0" by (simp add: NewPool_def)
  obtain p1 where p1: "Start 1 p0 = Inr p1" using p0 by (auto simp: NewPool_def Start_def)
  obtain p2 where p2: "submit_check ?t p1 = Inr p2"
    using p0 p1 by (auto simp: NewPool_def Start_def submit_check_def)
  obtain p3 where p3: "submit_send ?t p2 = Some (Next p3)"
      "accepted p3 = [?t] \<and> running p3 = [?t] \<and> dropped p3 = []"
    using p0 p1 p2 by (auto simp: NewPool_def Start_def submit_check_def submit_send_def idle_worker_def)
  have "pool_reach (int n) (Next p3)"
    by (rule pr_step [OF pr_step [OF pr_step [OF pr_new [OF p0] st_start [OF p1]] st_check [OF p2]] st_send [OF p3(1)]])
  then show ?thesis using p3(2) by blast
qed

text \<open>The pool neither loses nor duplicates a task on its own: in every reachable state each
  accepted task is in exactly one place, waiting in the channel, with a worker, as a result in
  the channel, with the receiver, or thrown away by a worker that found the result channel full;
  and both channels and the number of running tasks respect their bounds.\<close>

theorem pool_conserves_tasks:
  assumes "pool_reach n (Next p)"
  shows "task_ids (accepted p) = task_ids (taskCh p) + task_ids (running p) + result_ids (resultCh p)
      + result_ids (delivered p) + result_ids (dropped p) \<and>
    length (taskCh p) \<le> capacity p \<and> length (resultCh p) \<le> capacity p \<and> length (running p) \<le> workers p"
  using pool_reach_inv [OF assms] by (simp add: pool_inv_def)

lemma pool_conserves_tasks_witness:
  "\<exists>p. pool_reach 1 (Next p) \<and> accepted p = [task_named ''a''] \<and>
    task_ids (accepted p) = task_ids (taskCh p) + task_ids (running p) + result_ids (resultCh p)
      + result_ids (delivered p) + result_ids (dropped p)"
proof -
  obtain p where p: "pool_reach 1 (Next p)" "accepted p = [task_named ''a'']"
    using sample_pool_reach [of 1] by auto
  with pool_conserves_tasks [OF p(1)] show ?thesis by blast
qed

text \<open>Stopping the pool can crash the program: a sender that has passed the checks of
  \<open>Submit\<close> may find the task channel closed by \<open>Stop\<close>, and its \<open>select\<close> may choose the send, which
  panics. This holds for every buffer size and any number of workers.\<close>

theorem submit_can_panic_during_stop:
  "pool_reach (int n) Panic"
proof -
  let ?t = "task_named ''a''"
  obtain p0 where p0: "NewPool (int n) = Some p0" by (simp add: NewPool_def)
  obtain p1 where p1: "Start 1 p0 = Inr p1" using p0 by (auto simp: NewPool_def Start_def)
  obtain p2 where p2: "submit_check ?t p1 = Inr p2"
    using p0 p1 by (auto simp: NewPool_def Start_def submit_check_def)
  obtain p3 where p3: "stop_flag p2 = Some p3"
    using p0 p1 p2 by (auto simp: NewPool_def Start_def submit_check_def stop_flag_def)
  obtain p4 where p4: "stop_signal p3 = Some p4"
    using p0 p1 p2 p3 by (auto simp: NewPool_def Start_def submit_check_def stop_flag_def stop_signal_def)
  obtain p5 where p5: "stop_close p4 = Some p5"
    using p0 p1 p2 p3 p4 by (auto simp: NewPool_def Start_def submit_check_def stop_flag_def stop_signal_def stop_close_def)
  have p6: "submit_send ?t p5 = Some Panic"
    using p0 p1 p2 p3 p4 p5
    by (auto simp: NewPool_def Start_def submit_check_def stop_flag_def stop_signal_def stop_close_def submit_send_def)
  show ?thesis
    by (rule pr_step [OF pr_step [OF pr_step [OF pr_step [OF pr_step [OF pr_step [OF pr_new [OF p0] st_start [OF p1]]
      st_check [OF p2]] st_flag [OF p3]] st_signal [OF p4]] st_close [OF p5]] st_send [OF p6]])
qed

text \<open>A pool made with buffer size 0, which is what a controller without a WAL buffer size gets,
  has no room for results: a worker that finishes while the receiver is not already waiting throws
  its result away.\<close>

theorem unbuffered_pool_drops_results:
  assumes "pool_reach 0 (Next p)" and "t \<in> set (running p)"
  shows "\<exists>p'. worker_report False t r p = Some p' \<and> dropped p' = r # dropped p \<and>
    resultCh p' = [] \<and> delivered p' = delivered p"
proof -
  have cap: "capacity p = 0" using pool_reach_capacity [OF assms(1)] by simp
  then have "resultCh p = []"
    using pool_reach_inv [OF assms(1)] by (simp add: pool_inv_def)
  then show ?thesis
    using assms(2) cap by (simp add: worker_report_def Let_def)
qed

lemma unbuffered_pool_drops_results_witness:
  "\<exists>p p'. pool_reach 0 (Next p) \<and> running p = [task_named ''a''] \<and>
    worker_report False (task_named ''a'') (run_task True 1 2 (task_named ''a'')) p = Some p' \<and>
    map ResultID (dropped p') = [''a''] \<and> Success (hd (dropped p'))"
proof -
  obtain p where p: "pool_reach 0 (Next p)" "running p = [task_named ''a'']" "dropped p = []"
    using sample_pool_reach [of 0] by auto
  then obtain p' where "worker_report False (task_named ''a'') (run_task True 1 2 (task_named ''a'')) p = Some p'"
      "dropped p' = [run_task True 1 2 (task_named ''a'')]"
    using unbuffered_pool_drops_results [OF p(1), of "task_named ''a''"] by auto
  moreover have "Success (run_task True 1 2 (task_named ''a''))"
    by (simp add: run_task_def execute_def work_duration_def wrap64_def task_named_def Let_def)
  ultimately show ?thesis using p by (intro exI [of _ p] exI [of _ p']) (simp add: task_named_def)
qed

text \<open>A task that asks for \<open>v\<close> milliseconds of work succeeds when that is shorter than its timeout
  and fails when it is longer, whatever the random numbers and the scheduler, as long as the
  product fits 64 bits; the first number of milliseconds for which it does not wraps to a negative
  duration and ends at once.\<close>

theorem execute_outcome:
  "(0 \<le> v \<and> v \<le> 9223372036854 \<and> 0 \<le> timeout \<and> v * 1000000 \<noteq> timeout \<longrightarrow>
      execute tie rnd timeout [''sleep_ms'' \<mapsto> GInt v] = (v * 1000000 < timeout)) \<and>
    (0 < timeout \<longrightarrow> execute tie rnd timeout [''sleep_ms'' \<mapsto> GInt 9223372036855])"
  by (auto simp: execute_def work_duration_def wrap64_def Let_def)

lemma execute_outcome_witness:
  "\<not> execute True 3 2000000 [''sleep_ms'' \<mapsto> GInt 5] \<and> execute True 3 9000000 [''sleep_ms'' \<mapsto> GInt 5]"
  using execute_outcome [of 5 2000000 True 3] execute_outcome [of 5 9000000 True 3] by simp

end
