(* ===== verification/Controller.thy ===== *)
theory Controller
  imports JobStore WalLog SnapshotManager Worker
begin

text \<open>
  The controller of \<open>internal/controller/controller.go\<close> and \<open>job_source_impl.go\<close>. Its mutex
  makes each handler one function of the controller's state; the dispatch loop, which releases
  the mutex between its phases, is one function per phase. A handler takes one reading of the
  clock (milliseconds) and the outcomes of the appends it makes: \<open>io n\<close> is the outcome of the
  n-th append of the call.
\<close>

section \<open>State\<close>

text \<open>
  \<open>TaskTimeout\<close> is in milliseconds (a duration of whole milliseconds), the two intervals are in
  nanoseconds.
\<close>

record Config =
  WorkerCount :: nat
  TaskTimeout :: int
  MaxRetry :: int
  WALBufferSize :: int
  WALFlushInterval :: int
  SnapshotInterval :: int
  DisableDispatchLoop :: bool

text \<open>
  \<open>submitted\<close> lists the tasks handed to \<open>pool.Submit\<close>, in order (what the pool does with them is
  the theory \<open>Worker\<close>); \<open>raftEnabled\<close> says whether a Raft node is attached.
\<close>

record Controller =
  mgr :: JobManager
  wal :: WAL
  snap :: SnapFS
  config :: Config
  ctl_stopped :: bool
  raftEnabled :: bool
  ctl_running :: bool
  submitted :: "Task list"

definition NewController :: "wal_line list option \<Rightarrow> SnapFS \<Rightarrow> Config \<Rightarrow> Controller option" where
  "NewController walFile fs cfg =
     (let bufferSize = (if WALBufferSize cfg \<le> 0 then 100 else WALBufferSize cfg);
          flushInterval = (if WALFlushInterval cfg \<le> 0 then 10000000 else WALFlushInterval cfg)
      in case NewPool (WALBufferSize cfg) of
           None \<Rightarrow> None
         | Some pool \<Rightarrow>
             Some \<lparr>mgr = NewJobManager, wal = NewWAL walFile bufferSize flushInterval, snap = fs,
               config = cfg, ctl_stopped = False, raftEnabled = False, ctl_running = False,
               submitted = []\<rparr>)"

definition SetRaftNode :: "bool \<Rightarrow> Controller \<Rightarrow> Controller" where
  "SetRaftNode rf c = c\<lparr>raftEnabled := rf\<rparr>"

text \<open>An error that is logged and dropped: the manager stays as it was.\<close>

definition logged :: "JobManager res \<Rightarrow> JobManager \<Rightarrow> JobManager" where
  "logged r jm = (case r of Inl err \<Rightarrow> jm | Inr jm' \<Rightarrow> jm')"

text \<open>An error that is returned.\<close>

definition returned :: "JobManager res \<Rightarrow> JobManager \<Rightarrow> gerror option \<times> JobManager" where
  "returned r jm = (case r of Inl err \<Rightarrow> (Some err, jm) | Inr jm' \<Rightarrow> (None, jm'))"

section \<open>Recovery\<close>

text \<open>\<open>ord\<close> is the order in which the runtime walks the snapshot's map.\<close>

definition loadSnapshot :: "bool \<Rightarrow> JobID list \<Rightarrow> Controller \<Rightarrow> Controller res" where
  "loadSnapshot unreadable ord c =
     res_bind (Load unreadable (snap c)) (\<lambda>data. Inr (c\<lparr>mgr := Restore ord data (mgr c)\<rparr>))"

definition replay_handler :: "int \<Rightarrow> int \<Rightarrow> Event \<Rightarrow> JobManager \<Rightarrow> gerror option \<times> JobManager" where
  "replay_handler now taskTimeout event jm =
     (let jobID = EvJobID event in
      case EvType event of
        EventEnqueue \<Rightarrow> (None, jm)
      | EventDispatch \<Rightarrow>
          if IsCompleted jobID jm \<or> IsDead jobID jm then (None, jm)
          else returned (MarkInFlight now jobID (now + taskTimeout) jm) jm
      | EventAck \<Rightarrow>
          if IsCompleted jobID jm then (None, jm) else returned (MarkCompleted now jobID jm) jm
      | EventRetry \<Rightarrow> returned (Requeue now jobID jm) jm
      | EventTimeout \<Rightarrow> returned (Requeue now jobID jm) jm
      | EventDead \<Rightarrow> returned (MarkDead now jobID jm) jm
      | EventOther s \<Rightarrow> (None, jm))"

definition replayWAL :: "int \<Rightarrow> Controller \<Rightarrow> gerror option \<times> Controller" where
  "replayWAL now c =
     (case Replay (replay_handler now (TaskTimeout (config c))) (wal c) (mgr c) of
        (err, jm) \<Rightarrow> (err, c\<lparr>mgr := jm\<rparr>))"

fun requeue_all :: "int \<Rightarrow> JobID list \<Rightarrow> JobManager \<Rightarrow> JobManager" where
  "requeue_all now [] jm = jm"
| "requeue_all now (jobID # ids) jm = requeue_all now ids (logged (Requeue now jobID jm) jm)"

definition recover :: "bool \<Rightarrow> JobID list \<Rightarrow> int \<Rightarrow> Controller \<Rightarrow> Controller res" where
  "recover unreadable ord now c =
     res_bind (loadSnapshot unreadable ord c) (\<lambda>c1.
       case replayWAL now c1 of (Some err, c2) \<Rightarrow> Inl err | (None, c2) \<Rightarrow> Inr c2)"

text \<open>
  \<open>ord'\<close> is the order in which the runtime walks the in-flight map after the replay. The pool
  has just been created, so starting it succeeds, and the loops start.
\<close>

definition Start :: "bool \<Rightarrow> JobID list \<Rightarrow> JobID list \<Rightarrow> int \<Rightarrow> Controller \<Rightarrow> Controller res" where
  "Start unreadable ord ord' now c =
     res_bind (recover unreadable ord now c) (\<lambda>c2.
       Inr (c2\<lparr>mgr := requeue_all now (GetAllInFlightJobs ord' (mgr c2)) (mgr c2),
               ctl_running := True\<rparr>))"

section \<open>Enqueueing\<close>

fun append_enqueue :: "(nat \<Rightarrow> flush_io) \<Rightarrow> nat \<Rightarrow> int \<Rightarrow> Job list \<Rightarrow> WAL \<Rightarrow> gerror option \<times> WAL" where
  "append_enqueue io n now [] w = (None, w)"
| "append_enqueue io n now (job # js) w =
     (case Append (io n) now EventEnqueue job w of
        (Some err, w') \<Rightarrow> (Some err, w')
      | (None, w') \<Rightarrow> append_enqueue io (Suc n) now js w')"

fun enqueue_loop :: "int \<Rightarrow> Job list \<Rightarrow> JobManager \<Rightarrow> gerror option \<times> JobManager" where
  "enqueue_loop now [] jm = (None, jm)"
| "enqueue_loop now (job # js) jm =
     (case Enqueue now job jm of
        Inl err \<Rightarrow> (Some err, jm)
      | Inr jm' \<Rightarrow> enqueue_loop now js jm')"

definition EnqueueJobs :: "(nat \<Rightarrow> flush_io) \<Rightarrow> int \<Rightarrow> Job list \<Rightarrow> Controller \<Rightarrow> gerror option \<times> Controller" where
  "EnqueueJobs io now js c =
     (case append_enqueue io 0 now js (wal c) of
        (Some err, w) \<Rightarrow> (Some err, c\<lparr>wal := w\<rparr>)
      | (None, w) \<Rightarrow> (case enqueue_loop now js (mgr c) of
                        (err, jm) \<Rightarrow> (err, c\<lparr>wal := w, mgr := jm\<rparr>)))"

section \<open>Dispatching\<close>

text \<open>
  The loop that pops up to \<open>n\<close> jobs and stops at the first nil. The popped pointers are read
  through the store later, when the job may have changed.
\<close>

fun pop_batch :: "nat \<Rightarrow> JobManager \<Rightarrow> addr list \<times> JobManager" where
  "pop_batch 0 jm = ([], jm)"
| "pop_batch (Suc n) jm =
     (case PopPending jm of
        (None, jm') \<Rightarrow> ([], jm')
      | (Some a, jm') \<Rightarrow> (case pop_batch n jm' of (as, jm'') \<Rightarrow> (a # as, jm'')))"

text \<open>A failed append is logged; the loop goes on.\<close>

fun append_dispatch :: "(nat \<Rightarrow> flush_io) \<Rightarrow> nat \<Rightarrow> int \<Rightarrow> Job list \<Rightarrow> WAL \<Rightarrow> WAL" where
  "append_dispatch io n now [] w = w"
| "append_dispatch io n now (job # js) w =
     append_dispatch io (Suc n) now js (snd (Append (io n) now EventDispatch job w))"

fun mark_loop :: "int \<Rightarrow> int \<Rightarrow> addr list \<Rightarrow> JobManager \<Rightarrow> JobManager" where
  "mark_loop now deadline [] jm = jm"
| "mark_loop now deadline (a # as) jm =
     mark_loop now deadline as (logged (MarkInFlight now (ID (heap jm a)) deadline jm) jm)"

definition dispatch_pop :: "Controller \<Rightarrow> addr list \<times> Controller" where
  "dispatch_pop c = (case pop_batch 10 (mgr c) of (as, jm) \<Rightarrow> (as, c\<lparr>mgr := jm\<rparr>))"

definition dispatch_log :: "(nat \<Rightarrow> flush_io) \<Rightarrow> int \<Rightarrow> addr list \<Rightarrow> Controller \<Rightarrow> Controller" where
  "dispatch_log io now as c =
     c\<lparr>wal := append_dispatch io 0 now (map (heap (mgr c)) as) (wal c)\<rparr>"

definition dispatch_mark :: "int \<Rightarrow> addr list \<Rightarrow> Controller \<Rightarrow> Controller" where
  "dispatch_mark now as c =
     c\<lparr>mgr := mark_loop now (now + TaskTimeout (config c)) as (mgr c)\<rparr>"

definition dispatch_submit :: "addr list \<Rightarrow> Controller \<Rightarrow> Controller" where
  "dispatch_submit as c =
     c\<lparr>submitted := submitted c @ map (\<lambda>a. \<lparr>TaskID = ID (heap (mgr c) a),
         TaskPayload = Payload (heap (mgr c) a), TaskLimit = TaskTimeout (config c) * 1000000\<rparr>) as\<rparr>"

text \<open>One round of \<open>dispatchLoop\<close> that no other goroutine interrupts.\<close>

definition dispatch_round :: "(nat \<Rightarrow> flush_io) \<Rightarrow> int \<Rightarrow> Controller \<Rightarrow> Controller" where
  "dispatch_round io now c =
     (case dispatch_pop c of
        (as, c1) \<Rightarrow> if as = [] then c1
                   else dispatch_submit as (dispatch_mark now as (dispatch_log io now as c1)))"

text \<open>
  \<open>Poll\<close> does the same under the mutex, job by job. \<open>maxJobs\<close> is the code's \<open>int\<close> where it is not
  negative; a negative one panics and is the caller's case (\<open>PollJobs\<close>).
\<close>

fun poll_loop :: "(nat \<Rightarrow> flush_io) \<Rightarrow> nat \<Rightarrow> int \<Rightarrow> addr list \<Rightarrow> Controller \<Rightarrow> Controller" where
  "poll_loop io n now [] c = c"
| "poll_loop io n now (a # as) c =
     (let job = heap (mgr c) a
      in poll_loop io (Suc n) now as
           (c\<lparr>wal := snd (Append (io n) now EventDispatch job (wal c)),
              mgr := logged (MarkInFlight now (ID job) (now + TaskTimeout (config c)) (mgr c)) (mgr c)\<rparr>))"

definition Poll :: "(nat \<Rightarrow> flush_io) \<Rightarrow> int \<Rightarrow> nat \<Rightarrow> Controller \<Rightarrow> addr list res \<times> Controller" where
  "Poll io now maxJobs c =
     (if ctl_stopped c then (Inl ErrPoolClosed, c)
      else case pop_batch maxJobs (mgr c) of
             (as, jm) \<Rightarrow> if as = [] then (Inr [], c\<lparr>mgr := jm\<rparr>)
                        else (Inr as, poll_loop io 0 now as (c\<lparr>mgr := jm\<rparr>)))"

section \<open>Results\<close>

definition handleResult :: "flush_io \<Rightarrow> int \<Rightarrow> Result \<Rightarrow> Controller \<Rightarrow> Controller" where
  "handleResult io now result c =
     (let jobID = ResultID result in
      case GetJob jobID (mgr c) of
        None \<Rightarrow> c
      | Some a \<Rightarrow>
          if Success result then
            (case Append io now EventAck (heap (mgr c) a) (wal c) of
               (Some err, w) \<Rightarrow> c\<lparr>wal := w\<rparr>
             | (None, w) \<Rightarrow> c\<lparr>wal := w, mgr := logged (MarkCompleted now jobID (mgr c)) (mgr c)\<rparr>)
          else
            let jm = bump_attempt a (mgr c); job = heap jm a
            in if MaxRetry (config c) \<le> Attempt job then
                 (case Append io now EventDead job (wal c) of
                    (Some err, w) \<Rightarrow> c\<lparr>wal := w, mgr := jm\<rparr>
                  | (None, w) \<Rightarrow> c\<lparr>wal := w, mgr := logged (MarkDead now jobID jm) jm\<rparr>)
               else
                 (case Append io now EventRetry job (wal c) of
                    (Some err, w) \<Rightarrow> c\<lparr>wal := w, mgr := jm\<rparr>
                  | (None, w) \<Rightarrow> c\<lparr>wal := w, mgr := logged (Requeue now jobID jm) jm\<rparr>))"

definition Acknowledge :: "flush_io \<Rightarrow> int \<Rightarrow> JobID \<Rightarrow> JobStatus \<Rightarrow> Result option \<Rightarrow> Controller \<Rightarrow> gerror option \<times> Controller" where
  "Acknowledge io now jobID status result c =
     (case result of
        None \<Rightarrow> (Some ErrNilResult, c)
      | Some r \<Rightarrow> (None, handleResult io now r c))"

section \<open>Timeouts\<close>

definition timeout_job :: "flush_io \<Rightarrow> int \<Rightarrow> JobID \<Rightarrow> Controller \<Rightarrow> Controller" where
  "timeout_job io now jobID c =
     (case GetJob jobID (mgr c) of
        None \<Rightarrow> c
      | Some a \<Rightarrow>
          (case Append io now EventTimeout (heap (mgr c) a) (wal c) of
             (Some err, w) \<Rightarrow> c\<lparr>wal := w\<rparr>
           | (None, w) \<Rightarrow>
               let jm = bump_attempt a (mgr c)
               in if MaxRetry (config c) \<le> Attempt (heap jm a)
                  then c\<lparr>wal := w, mgr := logged (MarkDead now jobID jm) jm\<rparr>
                  else c\<lparr>wal := w, mgr := logged (Requeue now jobID jm) jm\<rparr>))"

fun timeout_loop :: "(nat \<Rightarrow> flush_io) \<Rightarrow> nat \<Rightarrow> int \<Rightarrow> JobID list \<Rightarrow> Controller \<Rightarrow> Controller" where
  "timeout_loop io n now [] c = c"
| "timeout_loop io n now (jobID # ids) c = timeout_loop io (Suc n) now ids (timeout_job (io n) now jobID c)"

definition timeout_tick :: "JobID list \<Rightarrow> (nat \<Rightarrow> flush_io) \<Rightarrow> int \<Rightarrow> Controller \<Rightarrow> Controller" where
  "timeout_tick ord io now c = timeout_loop io 0 now (GetExpiredJobs ord now (mgr c)) c"

section \<open>Snapshots and shutdown\<close>

text \<open>
  Phase 1 copies the state under the mutex; the write and the rotation run without it, so that
  other handlers may run in between: \<open>snapshot_copy\<close> and \<open>snapshot_save\<close> are two steps. In Raft
  mode the node is then told to compact its log up to \<open>LastSeq\<close> (the theory \<open>Raft\<close>).
\<close>

definition snapshot_copy :: "Controller \<Rightarrow> SnapshotData" where
  "snapshot_copy c =
     (if raftEnabled c
      then (PartialSnapshot (mgr c))\<lparr>LastSeq := unat (word_of_int (GetLastAppliedIndex (mgr c)) :: 64 word)\<rparr>
      else (Snapshot (mgr c))\<lparr>LastSeq := unat (GetLastSeq (wal c))\<rparr>)"

definition snapshot_save ::
  "snap_step option \<Rightarrow> rotate_io \<Rightarrow> int \<Rightarrow> SnapshotData \<Rightarrow> Controller \<Rightarrow> gerror option \<times> Controller" where
  "snapshot_save fault rot stamp data c =
     (case Write fault data (snap c) of
        (Some err, fs) \<Rightarrow> (Some err, c\<lparr>snap := fs\<rparr>)
      | (None, fs) \<Rightarrow>
          (case Rotate rot stamp (wal c) of
             (err, w) \<Rightarrow> (err, c\<lparr>snap := fs, wal := w\<rparr>)))"

definition takeSnapshot ::
  "snap_step option \<Rightarrow> rotate_io \<Rightarrow> int \<Rightarrow> Controller \<Rightarrow> gerror option \<times> Controller" where
  "takeSnapshot fault rot stamp c = snapshot_save fault rot stamp (snapshot_copy c) c"

text \<open>
  \<open>Stop\<close>: the flag, the loops and the pool, a last snapshot and the log's close. Errors of the
  last two are logged.
\<close>

definition Stop :: "snap_step option \<Rightarrow> rotate_io \<Rightarrow> bool \<Rightarrow> int \<Rightarrow> Controller \<Rightarrow> Controller" where
  "Stop fault rot closeFails stamp c =
     (if ctl_stopped c then c
      else
        let c1 = c\<lparr>ctl_stopped := True, ctl_running := False\<rparr>;
            c2 = snd (takeSnapshot fault rot stamp c1)
        in c2\<lparr>wal := snd (Close closeFails (wal c2))\<rparr>)"

definition GetStats :: "Controller \<Rightarrow> JobStats" where
  "GetStats c = Stats (mgr c)"

section \<open>Raft commands\<close>

text \<open>
  What \<open>applyLoop\<close> finds in a committed entry: an undecodable command, an enqueue or an
  acknowledgement (\<open>internal/raft/commands.go\<close>), or another type, which is ignored.
\<close>

datatype raft_command = CmdEnqueue "Job list" | CmdAck JobID JobStatus | CmdOther | CmdUndecodable

fun apply_enqueue :: "int \<Rightarrow> Job list \<Rightarrow> JobManager \<Rightarrow> JobManager" where
  "apply_enqueue now [] jm = jm"
| "apply_enqueue now (job # js) jm =
     apply_enqueue now js
       (if GetJob (ID job) jm \<noteq> None then jm else logged (Enqueue now job jm) jm)"

definition handleRaftCommand :: "int \<Rightarrow> raft_command \<Rightarrow> JobManager \<Rightarrow> JobManager" where
  "handleRaftCommand now cmd jm =
     (case cmd of
        CmdEnqueue js \<Rightarrow> apply_enqueue now js jm
      | CmdAck jobID status \<Rightarrow>
          if IsCompleted jobID jm \<or> IsDead jobID jm then jm
          else (case GetJob jobID jm of
                  None \<Rightarrow> jm
                | Some a \<Rightarrow>
                    if status = StatusCompleted then logged (MarkCompleted now (ID (heap jm a)) jm) jm
                    else logged (MarkDead now (ID (heap jm a)) jm) jm)
      | CmdOther \<Rightarrow> jm
      | CmdUndecodable \<Rightarrow> jm)"

definition apply_msg :: "int \<Rightarrow> raft_command \<Rightarrow> int \<Rightarrow> Controller \<Rightarrow> Controller" where
  "apply_msg now cmd index c = c\<lparr>mgr := SetLastAppliedIndex index (handleRaftCommand now cmd (mgr c))\<rparr>"

end
