(* ===== verification/Recovery.thy ===== *)
theory Recovery
  imports Controller
begin

text \<open>
  Why recovery works when it works. A controller is recoverable when loading its snapshot file
  and replaying its log file gives a manager with the statuses it has in memory. A checkpoint
  makes it so, and every handler whose event describes what it then does keeps it so.
\<close>

section \<open>Names and clean queues\<close>

definition named :: "JobManager \<Rightarrow> bool" where
  "named jm \<longleftrightarrow> (\<forall>i a. jobs jm i = Some a \<longrightarrow> ID (heap jm a) = i)"

definition clean_queue :: "JobManager \<Rightarrow> bool" where
  "clean_queue jm \<longleftrightarrow> distinct (queue jm) \<and> (\<forall>i \<in> set (queue jm). job_status jm i = Some StatusPending)"

text \<open>The part of the invariant that is the manager's alone.\<close>

definition jm_ok :: "JobManager \<Rightarrow> bool" where
  "jm_ok jm \<longleftrightarrow> jm_inv jm \<and> named jm \<and> clean_queue jm"

lemma jm_ok_D: "jm_ok jm \<Longrightarrow> jm_inv jm" "jm_ok jm \<Longrightarrow> named jm" "jm_ok jm \<Longrightarrow> clean_queue jm"
  by (simp_all add: jm_ok_def)

lemma named_ID: "named jm \<Longrightarrow> jobs jm i = Some a \<Longrightarrow> ID (heap jm a) = i"
  unfolding named_def by blast

lemma run_op_named:
  assumes "named jm" and "jm_inv jm" and "op_ok op" and "\<not> is_restore op" and "run_op op jm = Inr jm'"
    and "dom (jobs jm') = dom (jobs jm)"
  shows "named jm'"
  unfolding named_def
proof (intro allI impI)
  fix i a'
  assume a': "jobs jm' i = Some a'"
  then obtain a where a: "jobs jm i = Some a"
    using assms(6) by blast
  then have j: "job_view jm i = Some (heap jm a)" by (simp add: job_view_def)
  obtain j' where "job_view jm' i = Some j'" "job_evolves (heap jm a) j'"
    using run_op_evolves [OF assms(2-5) j] by blast
  then show "ID (heap jm' a') = i"
    using a' named_ID [OF assms(1) a] by (simp add: job_view_def job_evolves_def)
qed

lemma status_op_jobs:
  "MarkInFlight now i d jm = Inr jm' \<Longrightarrow> jobs jm' = jobs jm"
  "MarkCompleted now i jm = Inr jm' \<Longrightarrow> jobs jm' = jobs jm"
  "Requeue now i jm = Inr jm' \<Longrightarrow> jobs jm' = jobs jm"
  "MarkDead now i jm = Inr jm' \<Longrightarrow> jobs jm' = jobs jm"
  by (auto simp: jm_defs split: option.splits if_splits)

lemma bump_simps [simp]:
  "jobs (bump_attempt a jm) = jobs jm" "queue (bump_attempt a jm) = queue jm"
  "ID (heap (bump_attempt a jm) b) = ID (heap jm b)"
  "Status (heap (bump_attempt a jm) b) = Status (heap jm b)"
  by (simp_all add: bump_attempt_def)

lemma bump_status [simp]: "job_status (bump_attempt a jm) = job_status jm"
  by (simp add: job_status_def job_view_def option.map_comp o_def)

lemma job_status_iff: "job_status jm i = Some s \<longleftrightarrow> (\<exists>a. jobs jm i = Some a \<and> Status (heap jm a) = s)"
  by (auto simp: job_status_def job_view_def)

lemma named_cong:
  assumes "named jm" and "jobs jm' = jobs jm" and "\<And>a. ID (heap jm' a) = ID (heap jm a)"
  shows "named jm'"
  using assms unfolding named_def by simp

lemma bump_ok: "jm_ok jm \<Longrightarrow> jm_ok (bump_attempt a jm)"
  using named_cong [of jm "bump_attempt a jm"] by (simp add: jm_ok_def clean_queue_def bump_attempt_inv)

lemma not_queued: "clean_queue jm \<Longrightarrow> job_status jm i = Some StatusInFlight \<Longrightarrow> i \<notin> set (queue jm)"
  by (auto simp: clean_queue_def)

text \<open>The four status operations keep the manager in order, and do what their event says.\<close>

lemma in_flight_step:
  assumes "jm_ok jm" and "job_status jm i = Some StatusPending" and "i \<notin> set (queue jm)"
  shows "\<exists>jm'. MarkInFlight now i d jm = Inr jm' \<and> jm_ok jm' \<and>
    job_status jm' = (job_status jm)(i \<mapsto> StatusInFlight) \<and> jobs jm' = jobs jm \<and> queue jm' = queue jm"
proof -
  note D = jm_ok_D [OF assms(1)]
  obtain jm' where jm': "MarkInFlight now i d jm = Inr jm'" "job_status jm' = (job_status jm)(i \<mapsto> StatusInFlight)"
    using jm_store.in_flight_ok [OF D(1) assms(2)] by blast
  have "clean_queue jm'"
    using jm_store.in_flight_clean [OF D(1) jm'(1) assms(3)] D(3) by (simp add: clean_queue_def)
  moreover have "named jm'"
    using run_op_named [OF D(2,1), of "OpInFlight now i d" jm'] jm'(1) status_op_jobs(1) by simp
  ultimately have "jm_ok jm'"
    using MarkInFlight_inv [OF D(1) jm'(1)] by (simp add: jm_ok_def)
  then show ?thesis
    using jm' status_op_jobs(1) [OF jm'(1)] status_op_queue(1) [OF jm'(1)] by blast
qed

lemma completed_step:
  assumes "jm_ok jm" and "job_status jm i = Some StatusInFlight"
  shows "\<exists>jm'. MarkCompleted now i jm = Inr jm' \<and> jm_ok jm' \<and>
    job_status jm' = (job_status jm)(i \<mapsto> StatusCompleted)"
proof -
  note D = jm_ok_D [OF assms(1)]
  obtain jm' where jm': "MarkCompleted now i jm = Inr jm'" "job_status jm' = (job_status jm)(i \<mapsto> StatusCompleted)"
    using jm_store.completed_ok [OF D(1) assms(2)] by blast
  have "clean_queue jm'"
    using jm_store.completed_clean [OF D(1) jm'(1)] D(3) by (simp add: clean_queue_def)
  moreover have "named jm'"
    using run_op_named [OF D(2,1), of "OpCompleted now i" jm'] jm'(1) status_op_jobs(2) by simp
  ultimately show ?thesis
    using MarkCompleted_inv [OF D(1) jm'(1)] jm' by (auto simp: jm_ok_def)
qed

lemma requeue_step:
  assumes "jm_ok jm" and "job_status jm i = Some StatusInFlight"
  shows "\<exists>jm'. Requeue now i jm = Inr jm' \<and> jm_ok jm' \<and>
    job_status jm' = (job_status jm)(i \<mapsto> StatusPending)"
proof -
  note D = jm_ok_D [OF assms(1)]
  obtain jm' where jm': "Requeue now i jm = Inr jm'" "job_status jm' = (job_status jm)(i \<mapsto> StatusPending)"
    using jm_store.requeue_ok [OF D(1) assms(2)] by blast
  have "clean_queue jm'"
    using jm_store.requeue_clean [OF D(1) jm'(1)] D(3) by (simp add: clean_queue_def)
  moreover have "named jm'"
    using run_op_named [OF D(2,1), of "OpRequeue now i" jm'] jm'(1) status_op_jobs(3) by simp
  ultimately show ?thesis
    using Requeue_inv [OF D(1) jm'(1)] jm' by (auto simp: jm_ok_def)
qed

lemma dead_step:
  assumes "jm_ok jm" and "job_status jm i = Some StatusInFlight"
  shows "\<exists>jm'. MarkDead now i jm = Inr jm' \<and> jm_ok jm' \<and>
    job_status jm' = (job_status jm)(i \<mapsto> StatusDead)"
proof -
  note D = jm_ok_D [OF assms(1)]
  obtain jm' where jm': "MarkDead now i jm = Inr jm'" "job_status jm' = (job_status jm)(i \<mapsto> StatusDead)"
    using jm_store.dead_ok [OF D(1), of i] assms(2) by auto
  have "clean_queue jm'"
    using jm_store.dead_clean [OF D(1) jm'(1) not_queued [OF D(3) assms(2)]] D(3)
    by (simp add: clean_queue_def)
  moreover have "named jm'"
    using run_op_named [OF D(2,1), of "OpDead now i" jm'] jm'(1) status_op_jobs(4) by simp
  ultimately show ?thesis
    using MarkDead_inv [OF D(1) jm'(1)] jm' by (auto simp: jm_ok_def)
qed

section \<open>Popping\<close>

lemma pop_batch_char:
  "set (queue jm) \<subseteq> dom (jobs jm) \<Longrightarrow>
     pop_batch n jm = (map (\<lambda>i. the (jobs jm i)) (take n (queue jm)), jm\<lparr>queue := drop n (queue jm)\<rparr>)"
proof (induction n arbitrary: jm)
  case 0
  then show ?case by simp
next
  case (Suc n)
  show ?case
  proof (cases "queue jm")
    case Nil
    then show ?thesis by (simp add: PopPending_def)
  next
    case (Cons i rest)
    then obtain a where a: "jobs jm i = Some a" using Suc.prems by auto
    show ?thesis
      using Suc.IH [of "jm\<lparr>queue := rest\<rparr>"] Suc.prems Cons a by (simp add: PopPending_def)
  qed
qed

lemma pop_batch_ok:
  assumes "jm_ok jm"
  shows "jm_ok (jm\<lparr>queue := drop n (queue jm)\<rparr>)" "job_status (jm\<lparr>queue := q\<rparr>) = job_status jm"
proof -
  have view: "job_view (jm\<lparr>queue := q\<rparr>) = job_view jm" for q
    by (simp add: job_view_def fun_eq_iff)
  then show st: "job_status (jm\<lparr>queue := q\<rparr>) = job_status jm" for q
    by (simp add: job_status_def)
  have "jm_inv (jm\<lparr>queue := drop n (queue jm)\<rparr>)"
    by (rule jm_inv_frame [OF jm_ok_D(1) [OF assms]])
      (simp_all add: set_drop_subset)
  then show "jm_ok (jm\<lparr>queue := drop n (queue jm)\<rparr>)"
    using assms set_drop_subset [of n "queue jm"] by (auto simp: jm_ok_def named_def clean_queue_def st)
qed

end
