(* ===== verification/RecoveryProps.thy ===== *)
theory RecoveryProps
  imports Recovery
begin

text \<open>
  The controller's crash recovery: the invariant behind it, the handlers that keep it, and the
  theorem that a restart reproduces the statuses; then the runs that break it.
\<close>

section \<open>Recoverable controllers\<close>

definition wal_live :: "WAL \<Rightarrow> bool" where
  "wal_live w \<longleftrightarrow> wal_good w \<and> \<not> w_isClosed w"

text \<open>
  What a restart with this controller's files replays, started from any manager: \<open>replays_with\<close>
  is a property of the replay's result, \<open>replays_to\<close> the case of a success with known statuses.
\<close>

definition replays_with :: "Controller \<Rightarrow> (gerror option \<times> JobManager \<Rightarrow> bool) \<Rightarrow> bool" where
  "replays_with c P \<longleftrightarrow>
     (\<exists>d. Load False (snap c) = Inr d \<and> finite (dom (Jobs d)) \<and>
        (\<forall>ord now jm0. enumerates ord (Jobs d) \<longrightarrow>
          P (Replay (replay_handler now (TaskTimeout (config c))) (wal c) (Restore ord d jm0))))"

definition succeeds_with :: "(JobID \<Rightarrow> JobStatus option) \<Rightarrow> gerror option \<times> JobManager \<Rightarrow> bool" where
  "succeeds_with st r \<longleftrightarrow> (\<exists>jm. r = (None, jm) \<and> jm_inv jm \<and> job_status jm = st)"

definition replays_to :: "Controller \<Rightarrow> (JobID \<Rightarrow> JobStatus option) \<Rightarrow> bool" where
  "replays_to c st \<longleftrightarrow> replays_with c (succeeds_with st)"

lemmas replays_defs = replays_to_def replays_with_def

definition recoverable :: "Controller \<Rightarrow> bool" where
  "recoverable c \<longleftrightarrow> jm_ok (mgr c) \<and> wal_live (wal c) \<and> replays_to c (job_status (mgr c))"

lemma recoverable_D:
  "recoverable c \<Longrightarrow> jm_ok (mgr c)" "recoverable c \<Longrightarrow> wal_live (wal c)"
  by (simp_all add: recoverable_def)

lemma Append_live:
  assumes "wal_live w"
  shows "\<exists>w'. Append FlushOk now t j w = (None, w') \<and> wal_live w' \<and>
    wal_events w' = wal_events w @ [new_event now t j (w_seq w + 1)]"
proof -
  obtain w' where w': "Append FlushOk now t j w = (None, w')" "w_isClosed w' = w_isClosed w"
    using assms
    by (auto simp: wal_live_def wal_good_def Append_def flushBatch_def Let_def split: option.splits)
  then show ?thesis
    using Append_good [OF _ w'(1)] assms by (auto simp: wal_live_def)
qed

text \<open>Appending one event: the replay goes as before and ends with the handler on that event.\<close>

lemma append_replays:
  assumes live: "wal_live (wal c)" and rep: "replays_to c st"
    and ap: "Append FlushOk now ty j (wal c) = (None, w')"
    and P: "\<And>t now e. jm_inv t \<Longrightarrow> job_status t = st \<Longrightarrow> event_key e = (ty, ID j) \<Longrightarrow>
      P (replay_handler now (TaskTimeout (config c)) e t)"
  shows "replays_with (c\<lparr>wal := w', mgr := jm'\<rparr>) P"
proof -
  have good: "wal_good (wal c)" using live by (simp add: wal_live_def)
  obtain d where d: "Load False (snap c) = Inr d" "finite (dom (Jobs d))"
    and rep': "\<And>ord now jm0. enumerates ord (Jobs d) \<Longrightarrow>
      succeeds_with st (Replay (replay_handler now (TaskTimeout (config c))) (wal c) (Restore ord d jm0))"
    using rep unfolding replays_defs by blast
  have "P (Replay (replay_handler now1 (TaskTimeout (config c))) w' (Restore ord d jm0))"
    if ord: "enumerates ord (Jobs d)" for ord now1 jm0
  proof -
    obtain jm1 where jm1: "Replay (replay_handler now1 (TaskTimeout (config c))) (wal c) (Restore ord d jm0) = (None, jm1)"
      "jm_inv jm1" "job_status jm1 = st" using rep' [OF ord] unfolding succeeds_with_def by blast
    obtain e where e: "event_key e = (ty, ID j)"
      "Replay (replay_handler now1 (TaskTimeout (config c))) w' (Restore ord d jm0) =
         replay_handler now1 (TaskTimeout (config c)) e jm1"
      using wal_log.replay_appended [OF good ap jm1(1)] by blast
    show ?thesis using P [OF jm1(2,3) e(1), of now1] e(2) by simp
  qed
  then show ?thesis using d unfolding replays_with_def by auto
qed

text \<open>
  One logged step: the event goes to the log, the manager goes to \<open>jm'\<close>, and the replay handler
  takes any manager with the old statuses to one with the new statuses.
\<close>

lemma logged_step:
  assumes rec: "recoverable c" and ok: "jm_ok jm'"
    and lock: "\<And>t now e. jm_inv t \<Longrightarrow> job_status t = job_status (mgr c) \<Longrightarrow> event_key e = (ty, ID j) \<Longrightarrow>
      \<exists>t'. replay_handler now (TaskTimeout (config c)) e t = (None, t') \<and> jm_inv t' \<and> job_status t' = job_status jm'"
  shows "\<exists>w'. Append FlushOk now ty j (wal c) = (None, w') \<and> recoverable (c\<lparr>wal := w', mgr := jm'\<rparr>)"
proof -
  obtain w' where w': "Append FlushOk now ty j (wal c) = (None, w')" "wal_live w'"
    using Append_live [OF recoverable_D(2) [OF rec]] by blast
  have "replays_to c (job_status (mgr c))" using rec by (simp add: recoverable_def)
  then have "replays_with (c\<lparr>wal := w', mgr := jm'\<rparr>) (succeeds_with (job_status jm'))"
    by (rule append_replays [OF recoverable_D(2) [OF rec] _ w'(1)]) (auto simp: succeeds_with_def dest: lock)
  then show ?thesis using w' ok by (simp add: recoverable_def replays_defs)
qed

section \<open>The replay handler in lock step\<close>

lemma handler_key: "event_key e = (ty, i) \<Longrightarrow> EvType e = ty \<and> EvJobID e = i"
  by (simp add: event_key_def)

lemma pending_not_final:
  assumes "jm_inv t" and "job_status t i = Some s" and "s \<notin> {StatusCompleted, StatusDead}"
  shows "\<not> IsCompleted i t" "\<not> IsDead i t"
  using IsCompleted_status [OF assms(1), of i] IsDead_iff [OF assms(1), of i] assms(2,3)
  by (auto simp: job_status_def)

lemma replay_dispatch:
  assumes "jm_inv t" and "job_status t i = Some StatusPending" and "event_key e = (EventDispatch, i)"
  shows "\<exists>t'. replay_handler now T e t = (None, t') \<and> jm_inv t' \<and> job_status t' = (job_status t)(i \<mapsto> StatusInFlight)"
proof -
  obtain t' where "MarkInFlight now i (now + T) t = Inr t'" "job_status t' = (job_status t)(i \<mapsto> StatusInFlight)"
    using jm_store.in_flight_ok [OF assms(1,2)] by blast
  then show ?thesis
    using pending_not_final [OF assms(1,2)] handler_key [OF assms(3)] MarkInFlight_inv [OF assms(1)]
    by (auto simp: replay_handler_def returned_def)
qed

lemma replay_ack:
  assumes "jm_inv t" and "job_status t i = Some StatusInFlight" and "event_key e = (EventAck, i)"
  shows "\<exists>t'. replay_handler now T e t = (None, t') \<and> jm_inv t' \<and> job_status t' = (job_status t)(i \<mapsto> StatusCompleted)"
proof -
  obtain t' where "MarkCompleted now i t = Inr t'" "job_status t' = (job_status t)(i \<mapsto> StatusCompleted)"
    using jm_store.completed_ok [OF assms(1,2)] by blast
  then show ?thesis
    using pending_not_final [OF assms(1,2)] handler_key [OF assms(3)] MarkCompleted_inv [OF assms(1)]
    by (auto simp: replay_handler_def returned_def)
qed

lemma replay_requeue:
  assumes "jm_inv t" and "job_status t i = Some StatusInFlight"
    and "event_key e = (EventRetry, i) \<or> event_key e = (EventTimeout, i)"
  shows "\<exists>t'. replay_handler now T e t = (None, t') \<and> jm_inv t' \<and> job_status t' = (job_status t)(i \<mapsto> StatusPending)"
proof -
  obtain t' where "Requeue now i t = Inr t'" "job_status t' = (job_status t)(i \<mapsto> StatusPending)"
    using jm_store.requeue_ok [OF assms(1,2)] by blast
  then show ?thesis
    using handler_key [of e] assms(3) Requeue_inv [OF assms(1)]
    by (auto simp: replay_handler_def returned_def)
qed

lemma replay_dead:
  assumes "jm_inv t" and "job_status t i \<noteq> None" and "event_key e = (EventDead, i)"
  shows "\<exists>t'. replay_handler now T e t = (None, t') \<and> jm_inv t' \<and> job_status t' = (job_status t)(i \<mapsto> StatusDead)"
proof -
  obtain t' where "MarkDead now i t = Inr t'" "job_status t' = (job_status t)(i \<mapsto> StatusDead)"
    using jm_store.dead_ok [OF assms(1,2)] by blast
  then show ?thesis
    using handler_key [OF assms(3)] MarkDead_inv [OF assms(1)]
    by (auto simp: replay_handler_def returned_def)
qed

section \<open>The handlers keep a controller recoverable\<close>

lemma status_address:
  assumes "jm_ok (mgr c)" and "job_status (mgr c) i = Some s"
  shows "\<exists>a. jobs (mgr c) i = Some a \<and> ID (heap (mgr c) a) = i \<and> Status (heap (mgr c) a) = s"
  using assms named_ID [OF jm_ok_D(2) [OF assms(1)]] by (auto simp: job_status_iff)

lemma recoverable_mgr:
  assumes "recoverable c" and "jm_ok jm" and "job_status jm = job_status (mgr c)"
  shows "recoverable (c\<lparr>mgr := jm\<rparr>)"
  using assms by (simp add: recoverable_def replays_defs)

lemma handleResult_recoverable:
  assumes rec: "recoverable c" and fl: "job_status (mgr c) (ResultID r) = Some StatusInFlight"
  shows "recoverable (handleResult FlushOk now r c)"
proof -
  let ?i = "ResultID r"
  note ok = recoverable_D(1) [OF rec]
  obtain a where a: "jobs (mgr c) ?i = Some a" "ID (heap (mgr c) a) = ?i"
    using status_address [OF ok fl] by blast
  let ?jb = "bump_attempt a (mgr c)"
  have okb: "jm_ok ?jb" and flb: "job_status ?jb ?i = Some StatusInFlight"
    using bump_ok [OF ok] fl by simp_all
  have recb: "recoverable (c\<lparr>mgr := ?jb\<rparr>)"
    by (rule recoverable_mgr [OF rec okb]) simp
  obtain j1 where j1: "MarkCompleted now ?i (mgr c) = Inr j1" "jm_ok j1"
    "job_status j1 = (job_status (mgr c))(?i \<mapsto> StatusCompleted)"
    using completed_step [OF ok fl] by blast
  obtain j2 where j2: "Requeue now ?i ?jb = Inr j2" "jm_ok j2"
    "job_status j2 = (job_status (mgr c))(?i \<mapsto> StatusPending)"
    using requeue_step [OF okb flb] by auto
  obtain j3 where j3: "MarkDead now ?i ?jb = Inr j3" "jm_ok j3"
    "job_status j3 = (job_status (mgr c))(?i \<mapsto> StatusDead)"
    using dead_step [OF okb flb] by auto
  obtain w1 where w1: "Append FlushOk now EventAck (heap (mgr c) a) (wal c) = (None, w1)"
    "recoverable (c\<lparr>wal := w1, mgr := j1\<rparr>)"
    using logged_step [OF rec j1(2), of EventAck "heap (mgr c) a" now] replay_ack fl j1(3) a(2) by metis
  obtain w2 where w2: "Append FlushOk now EventRetry (heap ?jb a) (wal c) = (None, w2)"
    "recoverable (c\<lparr>wal := w2, mgr := j2\<rparr>)"
    using logged_step [OF rec j2(2), of EventRetry "heap ?jb a" now] replay_requeue fl j2(3) a(2)
    by (metis bump_simps(3))
  obtain w3 where w3: "Append FlushOk now EventDead (heap ?jb a) (wal c) = (None, w3)"
    "recoverable (c\<lparr>wal := w3, mgr := j3\<rparr>)"
    using logged_step [OF rec j3(2), of EventDead "heap ?jb a" now] replay_dead fl j3(3) a(2)
    by (metis bump_simps(3) option.distinct(1))
  show ?thesis
    using a w1 w2 w3 j1(1) j2(1) j3(1)
    by (simp add: handleResult_def GetJob_def logged_def Let_def)
qed

lemma timeout_recoverable:
  assumes rec: "recoverable c" and fl: "job_view (mgr c) i = Some j" "Status j = StatusInFlight"
    and at: "Attempt j + 1 < MaxRetry (config c)"
  shows "recoverable (timeout_job FlushOk now i c)"
proof -
  have fl': "job_status (mgr c) i = Some StatusInFlight" using fl by (simp add: job_status_def)
  note ok = recoverable_D(1) [OF rec]
  obtain a where a: "jobs (mgr c) i = Some a" "ID (heap (mgr c) a) = i" "heap (mgr c) a = j"
    using status_address [OF ok fl'] fl(1) by (auto simp: job_view_def)
  let ?jb = "bump_attempt a (mgr c)"
  have okb: "jm_ok ?jb" and flb: "job_status ?jb i = Some StatusInFlight"
    using bump_ok [OF ok] fl' by simp_all
  obtain j2 where j2: "Requeue now i ?jb = Inr j2" "jm_ok j2"
    "job_status j2 = (job_status (mgr c))(i \<mapsto> StatusPending)"
    using requeue_step [OF okb flb] by auto
  obtain w2 where w2: "Append FlushOk now EventTimeout (heap (mgr c) a) (wal c) = (None, w2)"
    "recoverable (c\<lparr>wal := w2, mgr := j2\<rparr>)"
    using logged_step [OF rec j2(2), of EventTimeout "heap (mgr c) a" now] replay_requeue fl' j2(3) a(2) by metis
  have "Attempt (heap ?jb a) = Attempt j + 1" using a(3) by (simp add: bump_attempt_def)
  then show ?thesis
    using a w2 j2(1) at by (simp add: timeout_job_def GetJob_def logged_def Let_def)
qed

section \<open>Dispatching\<close>

text \<open>An event depends on its job through the job's ID alone.\<close>

lemma Append_ID: "ID j = ID j' \<Longrightarrow> Append io now t j w = Append io now t j' w"
  by (simp add: Append_def new_event_def CalculateChecksum_def)

lemma append_dispatch_ID:
  "map ID js = map ID js' \<Longrightarrow> append_dispatch io n now js w = append_dispatch io n now js' w"
proof (induction js arbitrary: js' n w)
  case Nil
  then show ?case by simp
next
  case (Cons j js)
  then obtain k ks where "js' = k # ks" "ID k = ID j" "map ID ks = map ID js"
    by (cases js') auto
  then show ?case using Cons.IH [of ks] Append_ID [of j k] by simp
qed

lemma mark_ID: "ID (heap (logged (MarkInFlight now i d jm) jm) b) = ID (heap jm b)"
  by (simp add: logged_def MarkInFlight_def split: option.split)

lemma poll_loop_phases:
  "poll_loop io n now as c = c\<lparr>wal := append_dispatch io n now (map (heap (mgr c)) as) (wal c),
     mgr := mark_loop now (now + TaskTimeout (config c)) as (mgr c)\<rparr>"
proof (induction as arbitrary: n c)
  case Nil
  then show ?case by simp
next
  case (Cons a as)
  let ?jm = "logged (MarkInFlight now (ID (heap (mgr c) a)) (now + TaskTimeout (config c)) (mgr c)) (mgr c)"
  have "append_dispatch io m now (map (heap ?jm) as) w = append_dispatch io m now (map (heap (mgr c)) as) w" for m w
    by (rule append_dispatch_ID) (simp add: mark_ID)
  then show ?case by (simp add: Cons.IH Let_def)
qed

lemma dispatch_round_poll:
  assumes "\<not> ctl_stopped c"
  shows "\<exists>as c'. Poll io now 10 c = (Inr as, c') \<and>
    (\<exists>ts. dispatch_round io now c = c'\<lparr>submitted := ts\<rparr>)"
proof -
  obtain as jm where p: "pop_batch 10 (mgr c) = (as, jm)" by fastforce
  have "\<exists>ts. c\<lparr>mgr := jm\<rparr> = c\<lparr>mgr := jm, submitted := ts\<rparr>" by (cases c) simp
  then show ?thesis
    using assms p by (auto simp: Poll_def dispatch_round_def dispatch_pop_def dispatch_log_def
          dispatch_mark_def dispatch_submit_def poll_loop_phases)
qed

text \<open>The two ways to hand out work agree: one uninterrupted round of the dispatch loop leaves the
  log and the manager exactly as one \<open>Poll\<close> for ten jobs does, whatever fails on the way, and
  submits one task for each job \<open>Poll\<close> would have returned, in the same order.\<close>

theorem dispatch_round_is_poll:
  assumes "\<not> ctl_stopped c"
  shows "\<exists>as c'. Poll io now 10 c = (Inr as, c') \<and>
    dispatch_round io now c = c'\<lparr>submitted := submitted c @ map (\<lambda>a. \<lparr>TaskID = ID (heap (mgr c') a),
      TaskPayload = Payload (heap (mgr c') a), TaskLimit = TaskTimeout (config c) * 1000000\<rparr>) as\<rparr>"
proof -
  obtain as jm where p: "pop_batch 10 (mgr c) = (as, jm)" by fastforce
  show ?thesis
  proof (cases "as = []")
    case True
    then show ?thesis
      using assms p by (cases c) (simp add: Poll_def dispatch_round_def dispatch_pop_def)
  next
    case False
    then show ?thesis
      using assms p by (simp add: Poll_def dispatch_round_def dispatch_pop_def dispatch_log_def
          dispatch_mark_def dispatch_submit_def poll_loop_phases)
  qed
qed

lemma dispatch_round_is_poll_witness:
  "\<exists>c as c'. Poll (\<lambda>_. SyncFails) 5 10 c = (Inr as, c') \<and>
    dispatch_round (\<lambda>_. SyncFails) 5 c = c'\<lparr>submitted := submitted c @ map (\<lambda>a. \<lparr>TaskID = ID (heap (mgr c') a),
      TaskPayload = Payload (heap (mgr c') a), TaskLimit = TaskTimeout (config c) * 1000000\<rparr>) as\<rparr>"
proof -
  obtain c where "NewController None \<lparr>path_file = None, tmp_file = None, backups = Map.empty\<rparr>
      \<lparr>WorkerCount = 1, TaskTimeout = 100, MaxRetry = 3, WALBufferSize = 10, WALFlushInterval = 10000000, SnapshotInterval = 1000000000,
       DisableDispatchLoop = False\<rparr> = Some c"
    by (simp add: NewController_def NewPool_def Let_def)
  then have "\<not> ctl_stopped c" by (auto simp: NewController_def NewPool_def Let_def)
  from dispatch_round_is_poll [OF this, of "\<lambda>_. SyncFails" 5] show ?thesis by blast
qed

text \<open>Popped IDs and their pointers.\<close>

definition addrs :: "JobManager \<Rightarrow> JobID list \<Rightarrow> addr list" where
  "addrs jm ids = map (\<lambda>i. the (jobs jm i)) ids"

lemma poll_loop_recoverable:
  assumes "recoverable c" and "distinct ids"
    and "\<And>i. i \<in> set ids \<Longrightarrow> job_status (mgr c) i = Some StatusPending \<and> i \<notin> set (queue (mgr c))"
    and "c' = poll_loop (\<lambda>_. FlushOk) n now (addrs (mgr c) ids) c"
  shows "recoverable c' \<and> queue (mgr c') = queue (mgr c) \<and>
    job_status (mgr c') = (\<lambda>i. if i \<in> set ids then Some StatusInFlight else job_status (mgr c) i) \<and>
    (\<exists>new. wal_events (wal c') = wal_events (wal c) @ new \<and> map event_key new = map (Pair EventDispatch) ids)"
  using assms
proof (induction ids arbitrary: n c)
  case Nil
  then show ?case by (simp add: addrs_def)
next
  case (Cons i ids)
  note rec = Cons.prems(1)
  note ok = recoverable_D(1) [OF rec]
  have st: "job_status (mgr c) i = Some StatusPending" and nq: "i \<notin> set (queue (mgr c))"
    using Cons.prems(3) [of i] by auto
  obtain a where a: "jobs (mgr c) i = Some a" "ID (heap (mgr c) a) = i"
    using status_address [OF ok st] by blast
  let ?d = "now + TaskTimeout (config c)"
  obtain jm' where jm': "MarkInFlight now i ?d (mgr c) = Inr jm'" "jm_ok jm'"
    "job_status jm' = (job_status (mgr c))(i \<mapsto> StatusInFlight)" "jobs jm' = jobs (mgr c)" "queue jm' = queue (mgr c)"
    using in_flight_step [OF ok st nq] by blast
  obtain w' where w': "Append FlushOk now EventDispatch (heap (mgr c) a) (wal c) = (None, w')"
    "recoverable (c\<lparr>wal := w', mgr := jm'\<rparr>)"
    using logged_step [OF rec jm'(2), of EventDispatch "heap (mgr c) a" now] replay_dispatch st jm'(3) a(2) by metis
  have ev: "wal_events w' = wal_events (wal c) @ [new_event now EventDispatch (heap (mgr c) a) (w_seq (wal c) + 1)]"
    using Append_good [OF _ w'(1)] recoverable_D(2) [OF rec] by (simp add: wal_live_def)
  let ?c1 = "c\<lparr>wal := w', mgr := jm'\<rparr>"
  have pend: "job_status (mgr ?c1) k = Some StatusPending \<and> k \<notin> set (queue (mgr ?c1))" if "k \<in> set ids" for k
    using that Cons.prems(2) Cons.prems(3) [of k] jm'(3,5) by auto
  have "c' = poll_loop (\<lambda>_. FlushOk) (Suc n) now (addrs (mgr ?c1) ids) ?c1"
    using Cons.prems(4) a w'(1) jm'(1,4) by (simp add: addrs_def logged_def Let_def)
  note IH = Cons.IH [OF w'(2) _ pend this]
  have "distinct ids" using Cons.prems(2) by simp
  note IH = IH [OF this]
  obtain new where c': "recoverable c'" "queue (mgr c') = queue jm'"
    "job_status (mgr c') = (\<lambda>k. if k \<in> set ids then Some StatusInFlight else job_status jm' k)"
    "wal_events (wal c') = wal_events w' @ new" "map event_key new = map (Pair EventDispatch) ids"
    using IH by (auto cong: if_cong)
  have "job_status (mgr c') = (\<lambda>k. if k \<in> set (i # ids) then Some StatusInFlight else job_status (mgr c) k)"
    using c'(3) jm'(3) by (simp add: fun_eq_iff)
  moreover have "wal_events (wal c') = wal_events (wal c) @ (new_event now EventDispatch (heap (mgr c) a) (w_seq (wal c) + 1) # new)"
    "map event_key (new_event now EventDispatch (heap (mgr c) a) (w_seq (wal c) + 1) # new) = map (Pair EventDispatch) (i # ids)"
    using c'(4,5) ev a(2) by simp_all
  ultimately show ?case using c'(1,2) jm'(5) by metis
qed

text \<open>The whole of \<open>Poll\<close>, on a controller whose queue is clean.\<close>

lemma Poll_recoverable:
  assumes rec: "recoverable c" and run: "\<not> ctl_stopped c" and P: "Poll (\<lambda>_. FlushOk) now n c = (r, c')"
  shows "recoverable c' \<and> r = Inr (addrs (mgr c) (take n (queue (mgr c)))) \<and>
    queue (mgr c') = drop n (queue (mgr c)) \<and>
    job_status (mgr c') = (\<lambda>i. if i \<in> set (take n (queue (mgr c))) then Some StatusInFlight else job_status (mgr c) i) \<and>
    (\<exists>new. wal_events (wal c') = wal_events (wal c) @ new \<and>
       map event_key new = map (Pair EventDispatch) (take n (queue (mgr c))))"
proof -
  note ok = recoverable_D(1) [OF rec]
  let ?ids = "take n (queue (mgr c))" let ?jm = "(mgr c)\<lparr>queue := drop n (queue (mgr c))\<rparr>"
  have "set (queue (mgr c)) \<subseteq> dom (jobs (mgr c))"
    using jm_inv_queue [OF jm_ok_D(1) [OF ok]] by blast
  then have pop: "pop_batch n (mgr c) = (addrs (mgr c) ?ids, ?jm)"
    by (simp add: pop_batch_char addrs_def)
  have st: "job_status ?jm = job_status (mgr c)" by (rule pop_batch_ok(2) [OF ok])
  let ?c1 = "c\<lparr>mgr := ?jm\<rparr>"
  have rec1: "recoverable ?c1"
    by (rule recoverable_mgr [OF rec pop_batch_ok(1) [OF ok] st])
  have dist: "distinct (queue (mgr c))" and pend: "\<And>i. i \<in> set (queue (mgr c)) \<Longrightarrow> job_status (mgr c) i = Some StatusPending"
    using jm_ok_D(3) [OF ok] by (auto simp: clean_queue_def)
  have "distinct (take n (queue (mgr c)) @ drop n (queue (mgr c)))" using dist by simp
  then have di: "distinct ?ids" and dj: "\<And>i. i \<in> set ?ids \<Longrightarrow> i \<notin> set (drop n (queue (mgr c)))"
    by (auto simp only: distinct_append)
  have pp: "job_status (mgr ?c1) i = Some StatusPending \<and> i \<notin> set (queue (mgr ?c1))" if "i \<in> set ?ids" for i
    using pend [OF in_set_takeD [OF that]] dj [OF that] st by simp
  let ?c2 = "poll_loop (\<lambda>_. FlushOk) 0 now (addrs (mgr ?c1) ?ids) ?c1"
  have "addrs (mgr ?c1) ?ids = addrs (mgr c) ?ids" by (simp add: addrs_def)
  then have "r = Inr (addrs (mgr c) ?ids) \<and> c' = ?c2"
    using P run pop by (auto simp: Poll_def split: if_splits)
  then show ?thesis
    using poll_loop_recoverable [OF rec1 di pp, of ?c2 0 now] st by (simp cong: if_cong)
qed

lemma dispatch_recoverable:
  assumes "recoverable c" and "\<not> ctl_stopped c"
  shows "recoverable (dispatch_round (\<lambda>_. FlushOk) now c)"
proof -
  obtain as c' where c': "Poll (\<lambda>_. FlushOk) now 10 c = (Inr as, c')"
    "\<exists>ts. dispatch_round (\<lambda>_. FlushOk) now c = c'\<lparr>submitted := ts\<rparr>"
    using dispatch_round_poll [OF assms(2)] by blast
  have "recoverable c'" using Poll_recoverable [OF assms c'(1)] by blast
  then show ?thesis using c'(2) by (auto simp: recoverable_def replays_defs)
qed

end
