(* ===== verification/CrashProps.thy ===== *)
theory CrashProps
  imports RecoveryProps JobProps
begin

text \<open>
  Crashes: what a restart finds after a checkpoint and any run of handlers whose events describe
  what they do, and three runs after which it finds something else, or does not come up at all.
\<close>

section \<open>Checkpoints\<close>

text \<open>Whatever is in the memory and in the log by then, a successful save leaves the files of the copy.\<close>

lemma save_files:
  assumes nr: "\<not> raftEnabled c0" and save: "snapshot_save None RotateOk stamp (snapshot_copy c0) c1 = (None, c2)"
  shows "Load False (snap c2) = Inr (json_data (Snapshot (mgr c0)\<lparr>LastSeq := unat (w_seq (wal c0)), SchemaVer := 1\<rparr>))"
    "w_file (wal c2) = Some []" "\<not> w_isClosed (wal c2)" "mgr c2 = mgr c1" "config c2 = config c1"
    "ctl_stopped c2 = ctl_stopped c1" "raftEnabled c2 = raftEnabled c1"
  using save nr
  by (auto simp: snapshot_save_def snapshot_copy_def Write_ok Rotate_def GetLastSeq_def Load_def Snapshot_def
      Let_def split: option.splits prod.splits if_splits)

lemma save_replays:
  assumes ok: "jm_ok (mgr c0)" and nr: "\<not> raftEnabled c0"
    and save: "snapshot_save None RotateOk stamp (snapshot_copy c0) c1 = (None, c2)"
  shows "replays_to c2 (job_status (mgr c0)) \<and> wal_live (wal c2)"
proof -
  let ?d = "json_data (Snapshot (mgr c0)\<lparr>LastSeq := unat (w_seq (wal c0)), SchemaVer := 1\<rparr>)"
  note F = save_files [OF nr save]
  have Jd: "Jobs ?d = map_option json_job \<circ> job_view (mgr c0)" by (simp add: json_data_def Snapshot_def)
  have fin: "finite (dom (Jobs ?d))" using jm_inv_finite [OF jm_ok_D(1) [OF ok]] by (simp add: Jd dom_map_option_comp)
  have "succeeds_with (job_status (mgr c0)) (Replay (replay_handler now T) (wal c2) (Restore ord ?d jm0))"
    if ord: "enumerates ord (Jobs ?d)" for ord now T jm0
  proof -
    have "job_status (Restore ord ?d jm0) = job_status (mgr c0)"
      unfolding job_status_def Restore_view [OF ord] Jd by (simp add: option.map_comp o_def)
    moreover have "Replay (replay_handler now T) (wal c2) (Restore ord ?d jm0) = (None, Restore ord ?d jm0)"
      using F(2) by (simp add: Replay_def)
    ultimately show ?thesis using Restore_inv [OF enumerates_distinct [OF ord]] by (simp add: succeeds_with_def)
  qed
  then have "replays_to c2 (job_status (mgr c0))" using F(1) fin unfolding replays_defs by auto
  then show ?thesis using F(2,3) by (simp add: wal_live_def wal_good_def valid_file_Nil)
qed

lemma takeSnapshot_recoverable:
  assumes ok: "jm_ok (mgr c)" and nr: "\<not> raftEnabled c"
    and ts: "takeSnapshot None RotateOk stamp c = (None, c')"
  shows "recoverable c' \<and> mgr c' = mgr c"
  using save_replays [OF ok nr ts [unfolded takeSnapshot_def]] save_files(4) [OF nr ts [unfolded takeSnapshot_def]] ok
  by (simp add: recoverable_def)

section \<open>Clean runs\<close>

text \<open>
  The handlers that keep the log in step with the memory: every append succeeds, a result is for
  a job that is still in flight, and a timeout leads to a retry.
\<close>

inductive clean_step :: "Controller \<Rightarrow> Controller \<Rightarrow> bool" where
  cs_poll: "\<not> ctl_stopped c \<Longrightarrow> Poll (\<lambda>_. FlushOk) now n c = (r, c') \<Longrightarrow> clean_step c c'"
| cs_dispatch: "\<not> ctl_stopped c \<Longrightarrow> clean_step c (dispatch_round (\<lambda>_. FlushOk) now c)"
| cs_result: "job_status (mgr c) (ResultID r) = Some StatusInFlight \<Longrightarrow> clean_step c (handleResult FlushOk now r c)"
| cs_timeout: "job_view (mgr c) i = Some j \<Longrightarrow> Status j = StatusInFlight \<Longrightarrow>
    Attempt j + 1 < MaxRetry (config c) \<Longrightarrow> clean_step c (timeout_job FlushOk now i c)"
| cs_snapshot: "\<not> raftEnabled c \<Longrightarrow> takeSnapshot None RotateOk stamp c = (None, c') \<Longrightarrow> clean_step c c'"

inductive_cases clean_stepE: "clean_step c c'"

abbreviation clean_run :: "Controller \<Rightarrow> Controller \<Rightarrow> bool" where
  "clean_run \<equiv> clean_step\<^sup>*\<^sup>*"

lemma clean_step_recoverable:
  assumes "recoverable c" and "clean_step c c'"
  shows "recoverable c'"
  using assms(2)
proof (cases rule: clean_step.cases)
  case (cs_poll now n r)
  then show ?thesis using Poll_recoverable [OF assms(1)] by blast
next
  case (cs_dispatch now)
  then show ?thesis using dispatch_recoverable [OF assms(1)] by simp
next
  case (cs_result r now)
  then show ?thesis using handleResult_recoverable [OF assms(1)] by simp
next
  case (cs_timeout i j now)
  then show ?thesis using timeout_recoverable [OF assms(1)] by simp
next
  case (cs_snapshot stamp)
  then show ?thesis using takeSnapshot_recoverable [OF recoverable_D(1) [OF assms(1)]] by blast
qed

lemma clean_run_recoverable: "clean_run c c' \<Longrightarrow> recoverable c \<Longrightarrow> recoverable c'"
  by (induction rule: rtranclp_induct) (auto intro: clean_step_recoverable)

section \<open>Restarts\<close>

text \<open>
  A crash leaves the files; a new process creates a controller on them and recovers. \<open>reboot\<close> is
  the new controller, \<open>snapshot_order\<close> says that \<open>ord\<close> is an order in which it may walk the
  snapshot.
\<close>

definition reboot :: "Controller \<Rightarrow> Controller option" where
  "reboot c = NewController (w_file (wal c)) (snap c) (config c)"

definition snapshot_order :: "JobID list \<Rightarrow> Controller \<Rightarrow> bool" where
  "snapshot_order ord c \<longleftrightarrow> (case Load False (snap c) of Inl err \<Rightarrow> False | Inr d \<Rightarrow> enumerates ord (Jobs d))"

lemma reboot_simps:
  assumes "reboot c = Some cr" and "wal_good (wal c)"
  shows "w_file (wal cr) = w_file (wal c)" "snap cr = snap c" "config cr = config c" "mgr cr = NewJobManager"
  using assms
  by (auto simp: reboot_def NewController_def NewWAL_def wal_good_def Let_def split: option.splits)

lemma recover_with:
  assumes rep: "replays_with c P" and good: "wal_good (wal c)" and cr: "reboot c = Some cr" and ord: "snapshot_order ord c"
  shows "\<exists>err jm. P (err, jm) \<and>
    recover False ord now cr = (case err of Some e \<Rightarrow> Inl e | None \<Rightarrow> Inr (cr\<lparr>mgr := jm\<rparr>))"
proof -
  note S = reboot_simps [OF cr good]
  obtain d where d: "Load False (snap c) = Inr d"
    "\<And>ord now jm0. enumerates ord (Jobs d) \<Longrightarrow>
        P (Replay (replay_handler now (TaskTimeout (config c))) (wal c) (Restore ord d jm0))"
    using rep unfolding replays_with_def by blast
  have "enumerates ord (Jobs d)" using ord d(1) by (simp add: snapshot_order_def)
  note P = d(2) [OF this, of now NewJobManager]
  obtain err jm where r: "Replay (replay_handler now (TaskTimeout (config c))) (wal c) (Restore ord d NewJobManager) = (err, jm)"
    by fastforce
  have "Replay h (wal cr) s = Replay h (wal c) s" for h :: "Event \<Rightarrow> JobManager \<Rightarrow> gerror option \<times> JobManager" and s
    using S(1) by (simp add: Replay_def)
  then have "recover False ord now cr = (case err of Some e \<Rightarrow> Inl e | None \<Rightarrow> Inr (cr\<lparr>mgr := jm\<rparr>))"
    using S(2-4) d(1) r by (simp add: recover_def loadSnapshot_def replayWAL_def split: option.split)
  then show ?thesis using P r by auto
qed

lemma recover_to:
  assumes "replays_to c st" and "wal_good (wal c)" and "reboot c = Some cr" and "snapshot_order ord c"
  shows "\<exists>c3. recover False ord now cr = Inr c3 \<and> jm_inv (mgr c3) \<and> job_status (mgr c3) = st"
  using recover_with [OF assms(1) [unfolded replays_to_def] assms(2-4), of now]
  by (auto simp: succeeds_with_def)

lemma requeue_all_status:
  assumes "jm_inv jm" and "distinct ids" and "\<And>i. i \<in> set ids \<Longrightarrow> job_status jm i = Some StatusInFlight"
  shows "job_status (requeue_all now ids jm) = (\<lambda>i. if i \<in> set ids then Some StatusPending else job_status jm i)"
  using assms
proof (induction ids arbitrary: jm)
  case Nil
  then show ?case by simp
next
  case (Cons i ids)
  obtain jm' where jm': "Requeue now i jm = Inr jm'" "job_status jm' = (job_status jm)(i \<mapsto> StatusPending)"
    using jm_store.requeue_ok [OF Cons.prems(1)] Cons.prems(3) [of i] by auto
  have "jm_inv jm'" by (rule Requeue_inv [OF Cons.prems(1) jm'(1)])
  moreover have "job_status jm' k = Some StatusInFlight" if "k \<in> set ids" for k
    using that jm'(2) Cons.prems(2) Cons.prems(3) [of k] by auto
  ultimately have "job_status (requeue_all now ids jm') = (\<lambda>k. if k \<in> set ids then Some StatusPending else job_status jm' k)"
    using Cons.IH Cons.prems(2) by simp
  then show ?case using jm' by (auto simp: logged_def fun_eq_iff)
qed

text \<open>What a restart makes of the statuses: in-flight jobs are pending again.\<close>

definition requeued :: "(JobID \<Rightarrow> JobStatus option) \<Rightarrow> JobID \<Rightarrow> JobStatus option" where
  "requeued st = (\<lambda>i. if st i = Some StatusInFlight then Some StatusPending else st i)"

lemma Start_requeues:
  assumes "recover False ord now cr = Inr c3" and "jm_inv (mgr c3)" and "enumerates ord' (inFlight (mgr c3))"
  shows "\<exists>c4. Start False ord ord' now cr = Inr c4 \<and> job_status (mgr c4) = requeued (job_status (mgr c3))"
proof -
  let ?ids = "GetAllInFlightJobs ord' (mgr c3)"
  have ids: "i \<in> set ?ids \<longleftrightarrow> job_status (mgr c3) i = Some StatusInFlight" for i
    using GetAllInFlightJobs_set [OF assms(2,3)] by (auto simp: job_status_def)
  have "job_status (requeue_all now ?ids (mgr c3)) = requeued (job_status (mgr c3))"
    using requeue_all_status [of "mgr c3" ?ids now, OF assms(2) GetAllInFlightJobs_distinct [OF assms(3)]] ids
    by (simp add: requeued_def)
  then show ?thesis using assms(1) by (simp add: Start_def)
qed

text \<open>C3. Crash recovery works for clean runs. On a standalone controller with a well-formed job manager, after a
  successful checkpoint and any sequence of polls, dispatch rounds, results of in-flight jobs, retried timeouts and further checkpoints, a
  crash at that point loses nothing: the restarted process replays to exactly the statuses that
  were in memory, and \<open>Start\<close> then succeeds with the in-flight jobs pending again.\<close>

theorem crash_recovery:
  assumes "jm_ok (mgr c0)" and "\<not> raftEnabled c0"
    and "takeSnapshot None RotateOk stamp c0 = (None, c1)" and "clean_run c1 c2"
    and "reboot c2 = Some cr" and "snapshot_order ord c2"
  shows "\<exists>c3. recover False ord now cr = Inr c3 \<and> job_status (mgr c3) = job_status (mgr c2) \<and>
    (\<forall>ord'. enumerates ord' (inFlight (mgr c3)) \<longrightarrow>
      (\<exists>c4. Start False ord ord' now cr = Inr c4 \<and> job_status (mgr c4) = requeued (job_status (mgr c2))))"
proof -
  have rec: "recoverable c2"
    using clean_run_recoverable [OF assms(4)] takeSnapshot_recoverable [OF assms(1-3)] by blast
  then have "replays_to c2 (job_status (mgr c2))" "wal_good (wal c2)"
    by (simp_all add: recoverable_def wal_live_def)
  then obtain c3 where c3: "recover False ord now cr = Inr c3" "jm_inv (mgr c3)" "job_status (mgr c3) = job_status (mgr c2)"
    using recover_to [OF _ _ assms(5,6)] by blast
  show ?thesis using c3 Start_requeues [OF c3(1,2)] by auto
qed

text \<open>A sample system: one job is enqueued, then a checkpoint is taken.\<close>

definition sample_cfg :: Config where
  "sample_cfg = \<lparr>WorkerCount = 1, TaskTimeout = 100, MaxRetry = 3, WALBufferSize = 10,
     WALFlushInterval = 10000000, SnapshotInterval = 1000000000, DisableDispatchLoop = False\<rparr>"

definition sample_fs :: SnapFS where
  "sample_fs = \<lparr>path_file = None, tmp_file = None, backups = Map.empty\<rparr>"

lemma takeSnapshot_live:
  assumes "wal_live (wal c)"
  shows "\<exists>c'. takeSnapshot None RotateOk stamp c = (None, c') \<and> config c' = config c \<and>
    ctl_stopped c' = ctl_stopped c \<and> raftEnabled c' = raftEnabled c"
  using assms
  by (auto simp: takeSnapshot_def snapshot_save_def Write_ok Rotate_def wal_live_def wal_good_def Let_def
      split: option.splits)

lemma sample_boot:
  "\<exists>c0. NewController None sample_fs sample_cfg = Some c0 \<and> mgr c0 = NewJobManager \<and> wal_live (wal c0) \<and>
    config c0 = sample_cfg \<and> \<not> ctl_stopped c0 \<and> \<not> raftEnabled c0"
  by (simp add: NewController_def NewPool_def sample_cfg_def wal_live_def wal_good_def NewWAL_def
      valid_file_Nil Let_def GetLastEvent_def)

lemma Enqueue_new_ok:
  assumes "jobs jm (ID job) = None" and "jm_ok jm"
  shows "\<exists>jm'. Enqueue now job jm = Inr jm' \<and> jm_ok jm' \<and> job_status jm' = (job_status jm)(ID job \<mapsto> StatusPending) \<and>
    queue jm' = queue jm @ [ID job] \<and> jobs jm' = (jobs jm)(ID job \<mapsto> nxt jm)"
proof -
  let ?j = "job\<lparr>Status := StatusPending, CreatedAt := now, UpdatedAt := now\<rparr>"
  obtain jm' where jm': "Enqueue now job jm = Inr jm'" "jobs jm' = (jobs jm)(ID job \<mapsto> nxt jm)"
    "heap jm' = (heap jm)(nxt jm := ?j)" "queue jm' = queue jm @ [ID job]"
    using assms(1) by (simp add: Enqueue_def Let_def)
  note D = jm_ok_D [OF assms(2)]
  have view: "job_view jm' = (job_view jm)(ID job \<mapsto> ?j)" by (rule job_view_fresh [OF D(1) jm'(2,3)])
  then have st: "job_status jm' = (job_status jm)(ID job \<mapsto> StatusPending)"
    by (simp add: job_status_def fun_eq_iff)
  have "named jm'"
    using D(2) jm'(2,3) jm_inv_less [OF D(1)] by (auto simp: named_def)
  moreover have "ID job \<notin> set (queue jm)" using jm_inv_queue [OF D(1)] assms(1) by force
  then have "clean_queue jm'" using D(3) jm'(4) st by (auto simp: clean_queue_def)
  ultimately show ?thesis using Enqueue_inv [OF D(1) jm'(1)] jm' st by (auto simp: jm_ok_def)
qed

lemma NewJobManager_ok: "jm_ok NewJobManager"
  using NewJobManager_inv by (simp add: jm_ok_def named_def clean_queue_def NewJobManager_def)

lemma Enqueue_live:
  assumes "wal_live (wal c)" and "jobs (mgr c) (ID job) = None" and "jm_ok (mgr c)"
  shows "\<exists>c' w' jm'. EnqueueJobs (\<lambda>_. FlushOk) now [job] c = (None, c') \<and> c' = c\<lparr>wal := w', mgr := jm'\<rparr> \<and>
    Append FlushOk now EventEnqueue job (wal c) = (None, w') \<and> wal_live w' \<and> jm_ok jm' \<and>
    job_status jm' = (job_status (mgr c))(ID job \<mapsto> StatusPending) \<and> queue jm' = queue (mgr c) @ [ID job] \<and>
    jobs jm' = (jobs (mgr c))(ID job \<mapsto> nxt (mgr c))"
  using Append_live [OF assms(1), of now EventEnqueue job] Enqueue_new_ok [OF assms(2,3), of now]
  by (auto simp: EnqueueJobs_def)

lemma sample_ready:
  "\<exists>c0 c1. jm_ok (mgr c0) \<and> \<not> raftEnabled c0 \<and> takeSnapshot None RotateOk 5 c0 = (None, c1) \<and>
    recoverable c1 \<and> config c1 = sample_cfg \<and> \<not> ctl_stopped c1 \<and> queue (mgr c1) = [''a''] \<and>
    job_status (mgr c1) = [''a'' \<mapsto> StatusPending]"
proof -
  obtain b :: Controller where b: "mgr b = NewJobManager" "wal_live (wal b)" "config b = sample_cfg" "\<not> ctl_stopped b" "\<not> raftEnabled b"
    using sample_boot by blast
  have "jobs (mgr b) (ID (job_named ''a'')) = None" "jm_ok (mgr b)"
    using b(1) NewJobManager_ok by (simp_all add: NewJobManager_def)
  from Enqueue_live [OF b(2) this, of 1] obtain w jm where c0: "wal_live w" "jm_ok jm"
    "job_status jm = (job_status (mgr b))(''a'' \<mapsto> StatusPending)" "queue jm = queue (mgr b) @ [''a'']"
    by auto
  let ?c0 = "b\<lparr>wal := w, mgr := jm\<rparr>"
  obtain c1 where c1: "takeSnapshot None RotateOk 5 ?c0 = (None, c1)" "config c1 = sample_cfg" "\<not> ctl_stopped c1"
    using takeSnapshot_live [of ?c0 5] c0(1) b by auto
  have "recoverable c1" "mgr c1 = jm"
    using takeSnapshot_recoverable [of ?c0 5 c1] c0(2) b(5) c1(1) by auto
  moreover have "job_status (mgr b) = Map.empty"
    using b(1) by (simp add: job_status_def job_view_def NewJobManager_def fun_eq_iff)
  moreover have "queue (mgr b) = []" using b(1) by (simp add: NewJobManager_def)
  ultimately show ?thesis
    using c1 c0 b(5) by (intro exI [of _ ?c0] exI [of _ c1]) simp
qed

lemma snapshot_order_exists: "replays_with c P \<Longrightarrow> \<exists>ord. snapshot_order ord c"
  using enumerates_exists by (fastforce simp: replays_with_def snapshot_order_def)

lemma reboot_ok: "0 \<le> WALBufferSize (config c) \<Longrightarrow> \<exists>cr. reboot c = Some cr"
  by (simp add: reboot_def NewController_def NewPool_def Let_def)

lemma sample_reboot: "config c = sample_cfg \<Longrightarrow> \<exists>cr. reboot c = Some cr"
  using reboot_ok [of c] by (simp add: sample_cfg_def)

text \<open>The job has been polled.\<close>

lemma sample_polled:
  "\<exists>c0 c1 c2. jm_ok (mgr c0) \<and> \<not> raftEnabled c0 \<and> takeSnapshot None RotateOk 5 c0 = (None, c1) \<and>
    clean_run c1 c2 \<and> recoverable c2 \<and> config c2 = sample_cfg \<and> \<not> ctl_stopped c2 \<and> queue (mgr c2) = [] \<and>
    job_status (mgr c2) = [''a'' \<mapsto> StatusInFlight]"
proof -
  obtain c0 c1 where c: "jm_ok (mgr c0)" "\<not> raftEnabled c0" "takeSnapshot None RotateOk 5 c0 = (None, c1)"
    "recoverable c1" "config c1 = sample_cfg" "\<not> ctl_stopped c1" "queue (mgr c1) = [''a'']"
    "job_status (mgr c1) = [''a'' \<mapsto> StatusPending]" using sample_ready by (elim exE conjE) (rule that, assumption+)
  obtain r c2 where p: "Poll (\<lambda>_. FlushOk) 7 1 c1 = (r, c2)" by fastforce
  have "config c2 = config c1 \<and> ctl_stopped c2 = ctl_stopped c1"
    using p by (auto simp: Poll_def poll_loop_phases split: if_splits prod.splits)
  moreover have "job_status (mgr c2) = [''a'' \<mapsto> StatusInFlight]"
    using Poll_recoverable [OF c(4,6) p] c(7,8) by (auto simp: fun_eq_iff)
  moreover have "clean_run c1 c2" using cs_poll [OF c(6) p] by (rule r_into_rtranclp)
  moreover have "recoverable c2" "queue (mgr c2) = []"
    using Poll_recoverable [OF c(4,6) p] c(7) by simp_all
  ultimately show ?thesis
    using c(1-3,5,6) by (intro exI [of _ c0] exI [of _ c1] exI [of _ c2]) simp
qed

lemma sample_in_flight:
  "\<exists>c. recoverable c \<and> \<not> raftEnabled c \<and> \<not> ctl_stopped c \<and> config c = sample_cfg \<and>
     job_status (mgr c) = [''a'' \<mapsto> StatusInFlight]"
proof -
  obtain c0 c1 c2 where c: "takeSnapshot None RotateOk 5 c0 = (None, c1)" "recoverable c2" "config c2 = sample_cfg"
    "\<not> ctl_stopped c2" "job_status (mgr c2) = [''a'' \<mapsto> StatusInFlight]" using sample_polled by blast
  then have "recoverable (c2\<lparr>raftEnabled := False\<rparr>)" by (simp add: recoverable_def replays_defs)
  then show ?thesis using c(3-5) by (intro exI [of _ "c2\<lparr>raftEnabled := False\<rparr>"]) simp
qed

lemma crash_recovery_witness:
  "\<exists>c2 cr ord c3. job_status (mgr c2) = [''a'' \<mapsto> StatusInFlight] \<and> reboot c2 = Some cr \<and>
    recover False ord 99 cr = Inr c3 \<and> job_status (mgr c3) = [''a'' \<mapsto> StatusInFlight]"
proof -
  obtain c0 c1 c2 where c: "jm_ok (mgr c0)" "\<not> raftEnabled c0" "takeSnapshot None RotateOk 5 c0 = (None, c1)"
    "clean_run c1 c2" "recoverable c2" "config c2 = sample_cfg" "job_status (mgr c2) = [''a'' \<mapsto> StatusInFlight]"
    using sample_polled by blast
  obtain ord where ord: "snapshot_order ord c2"
    using c(5) snapshot_order_exists by (auto simp: recoverable_def replays_to_def)
  obtain cr where cr: "reboot c2 = Some cr" using sample_reboot [OF c(6)] by blast
  from crash_recovery [OF c(1-4) cr ord, of 99] show ?thesis using c(7) cr by auto
qed

end
