(* ===== verification/ControllerProps.thy ===== *)
theory ControllerProps
  imports CrashProps
begin

text \<open>
  The controller's handlers one by one: the batch enqueue, the first-in first-out hand-out, what a
  failed append protects, how failures are counted, and the commands replicated through Raft.
\<close>

section \<open>Handing out work\<close>

text \<open>The mark phase takes the popped jobs to in flight, whatever has been logged.\<close>

lemma mark_popped:
  assumes "jm_ok jm" and "distinct ids"
    and "\<And>i. i \<in> set ids \<Longrightarrow> job_status jm i = Some StatusPending \<and> i \<notin> set (queue jm)"
  shows "jm_ok (mark_loop now d (addrs jm ids) jm) \<and> queue (mark_loop now d (addrs jm ids) jm) = queue jm \<and>
    (\<forall>i. job_status (mark_loop now d (addrs jm ids) jm) i = (if i \<in> set ids then Some StatusInFlight else job_status jm i))"
  using assms
proof (induction ids arbitrary: jm)
  case Nil
  then show ?case by (simp add: addrs_def)
next
  case (Cons i ids)
  have st: "job_status jm i = Some StatusPending" and nq: "i \<notin> set (queue jm)" using Cons.prems(3) [of i] by auto
  obtain a where a: "jobs jm i = Some a" "ID (heap jm a) = i"
    using st named_ID [OF jm_ok_D(2) [OF Cons.prems(1)]] by (auto simp: job_status_def job_view_def)
  obtain jm' where jm': "MarkInFlight now i d jm = Inr jm'" "jm_ok jm'"
    "job_status jm' = (job_status jm)(i \<mapsto> StatusInFlight)" "jobs jm' = jobs jm" "queue jm' = queue jm"
    using in_flight_step [OF Cons.prems(1) st nq] by blast
  have m: "mark_loop now d (addrs jm (i # ids)) jm = mark_loop now d (addrs jm' ids) jm'"
    using a jm'(1,4) by (simp add: addrs_def logged_def)
  have pend: "job_status jm' k = Some StatusPending \<and> k \<notin> set (queue jm')" if "k \<in> set ids" for k
    using that Cons.prems(2) Cons.prems(3) [of k] jm'(3,5) by auto
  have "distinct ids" using Cons.prems(2) by simp
  from Cons.IH [OF jm'(2) this pend] show ?case unfolding m using jm'(3,5) by auto
qed

lemma Poll_any_disk:
  assumes ok: "jm_ok (mgr c)" and run: "\<not> ctl_stopped c"
  shows "\<exists>c'. Poll io now n c = (Inr (addrs (mgr c) (take n (queue (mgr c)))), c') \<and> jm_ok (mgr c') \<and>
    queue (mgr c') = drop n (queue (mgr c)) \<and>
    (\<forall>i. job_status (mgr c') i = (if i \<in> set (take n (queue (mgr c))) then Some StatusInFlight else job_status (mgr c) i)) \<and>
    wal c' = append_dispatch io 0 now (map (heap (mgr c)) (addrs (mgr c) (take n (queue (mgr c))))) (wal c)"
proof -
  let ?ids = "take n (queue (mgr c))" let ?jm = "(mgr c)\<lparr>queue := drop n (queue (mgr c))\<rparr>" let ?c1 = "c\<lparr>mgr := ?jm\<rparr>"
  have "set (queue (mgr c)) \<subseteq> dom (jobs (mgr c))" using jm_inv_queue [OF jm_ok_D(1) [OF ok]] by blast
  then have pop: "pop_batch n (mgr c) = (addrs (mgr c) ?ids, ?jm)" by (simp add: pop_batch_char addrs_def)
  have st: "job_status ?jm = job_status (mgr c)" by (rule pop_batch_ok(2) [OF ok])
  have q: "distinct (queue (mgr c))" "\<And>i. i \<in> set (queue (mgr c)) \<Longrightarrow> job_status (mgr c) i = Some StatusPending"
    using jm_ok_D(3) [OF ok] by (auto simp: clean_queue_def)
  have "distinct (take n (queue (mgr c)) @ drop n (queue (mgr c)))" using q(1) by simp
  then have di: "distinct ?ids" and dj: "\<And>i. i \<in> set ?ids \<Longrightarrow> i \<notin> set (drop n (queue (mgr c)))"
    by (auto simp only: distinct_append)
  have pp: "job_status ?jm i = Some StatusPending \<and> i \<notin> set (queue ?jm)" if "i \<in> set ?ids" for i
    using q(2) [OF in_set_takeD [OF that]] dj [OF that] st by simp
  have ad: "addrs ?jm ?ids = addrs (mgr c) ?ids" by (simp add: addrs_def)
  have "Poll io now n c = (Inr (addrs (mgr c) ?ids), poll_loop io 0 now (addrs (mgr c) ?ids) ?c1)"
    using run pop by (simp add: Poll_def addrs_def)
  then show ?thesis
    using mark_popped [OF pop_batch_ok(1) [OF ok] di pp, of now "now + TaskTimeout (config c)"] st ad
    by (simp add: poll_loop_phases)
qed

lemma polled_IDs:
  assumes "jm_ok jm"
  shows "map (\<lambda>a. ID (heap jm a)) (addrs jm (take n (queue jm))) = take n (queue jm)"
proof -
  have "ID (heap jm (the (jobs jm i))) = i" if "i \<in> set (take n (queue jm))" for i
    using jm_inv_queue [OF jm_ok_D(1) [OF assms] in_set_takeD [OF that]] named_ID [OF jm_ok_D(2) [OF assms]] by auto
  then show ?thesis by (simp add: addrs_def map_idI)
qed

text \<open>The events of the dispatch phase, on a log that works.\<close>

lemma append_dispatch_events:
  assumes "wal_live w" and "\<And>k. io k = FlushOk"
  shows "\<exists>new. wal_events (append_dispatch io n now js w) = wal_events w @ new \<and>
    map event_key new = map (\<lambda>j. (EventDispatch, ID j)) js"
  using assms(1)
proof (induction js arbitrary: n w)
  case Nil
  then show ?case by simp
next
  case (Cons j js)
  obtain w' where w': "Append (io n) now EventDispatch j w = (None, w')" "wal_live w'"
    "wal_events w' = wal_events w @ [new_event now EventDispatch j (w_seq w + 1)]"
    using Append_live [OF Cons.prems, of now EventDispatch j] assms(2) [of n] by auto
  obtain new where "wal_events (append_dispatch io (Suc n) now js w') = wal_events w' @ new"
    "map event_key new = map (\<lambda>j. (EventDispatch, ID j)) js"
    using Cons.IH [OF w'(2), of "Suc n"] by blast
  then show ?case using w' by (simp add: event_key_new)
qed

text \<open>C34. \<open>Poll\<close> is first in, first out. On a running controller whose job manager is well formed (its
  indexes are consistent, a job is filed under its own ID, and the queue holds pending jobs, each
  once), it returns the jobs at the front of the queue, at most \<open>maxJobs\<close>, in queue order, leaves the
  rest queued and marks exactly the returned ones in flight, whatever becomes of the writes to the
  log. If the log is open, valid and takes every write, one DISPATCH event has been logged for each
  returned job, in the same order.\<close>

theorem poll_is_fifo:
  assumes "jm_ok (mgr c)" and "\<not> ctl_stopped c" and "Poll io now n c = (r, c')"
  shows "r = Inr (addrs (mgr c) (take n (queue (mgr c)))) \<and> queue (mgr c') = drop n (queue (mgr c)) \<and>
    (\<forall>i. job_status (mgr c') i =
      (if i \<in> set (take n (queue (mgr c))) then Some StatusInFlight else job_status (mgr c) i)) \<and>
    (wal_live (wal c) \<and> (\<forall>k. io k = FlushOk) \<longrightarrow>
      (\<exists>new. wal_events (wal c') = wal_events (wal c) @ new \<and>
         map event_key new = map (Pair EventDispatch) (take n (queue (mgr c)))))"
proof -
  let ?ids = "take n (queue (mgr c))"
  obtain c1 where p: "Poll io now n c = (Inr (addrs (mgr c) ?ids), c1)"
    "queue (mgr c1) = drop n (queue (mgr c))"
    "\<forall>i. job_status (mgr c1) i = (if i \<in> set ?ids then Some StatusInFlight else job_status (mgr c) i)"
    "wal c1 = append_dispatch io 0 now (map (heap (mgr c)) (addrs (mgr c) ?ids)) (wal c)"
    using Poll_any_disk [OF assms(1,2), of io now n] by blast
  have "map (\<lambda>j. (EventDispatch, ID j)) (map (heap (mgr c)) (addrs (mgr c) ?ids)) = map (Pair EventDispatch) ?ids"
    using polled_IDs [OF assms(1), of n] by (simp add: comp_def) (metis (no_types, lifting) list.map_comp map_eq_conv comp_apply)
  then show ?thesis using p assms(3) append_dispatch_events [of "wal c" io 0 now "map (heap (mgr c)) (addrs (mgr c) ?ids)"]
    by auto
qed

lemma poll_is_fifo_witness:
  "\<exists>c r c'. queue (mgr c) = [''a''] \<and> Poll (\<lambda>_. FlushOk) 7 3 c = (r, c') \<and> queue (mgr c') = [] \<and>
    job_status (mgr c') ''a'' = Some StatusInFlight"
proof -
  obtain c where c: "recoverable c" "\<not> ctl_stopped c" "queue (mgr c) = [''a'']" using sample_ready by blast
  obtain r c' where p: "Poll (\<lambda>_. FlushOk) 7 3 c = (r, c')" by fastforce
  show ?thesis using poll_is_fifo [OF recoverable_D(1) [OF c(1)] c(2) p] c(3) p by auto
qed

section \<open>Enqueueing a batch\<close>

lemma append_enqueue_live:
  assumes "wal_live w"
  shows "\<exists>w' new. append_enqueue (\<lambda>_. FlushOk) n now js w = (None, w') \<and> wal_live w' \<and>
    wal_events w' = wal_events w @ new \<and> map event_key new = map (\<lambda>j. (EventEnqueue, ID j)) js"
  using assms
proof (induction js arbitrary: n w)
  case Nil
  then show ?case by simp
next
  case (Cons j js)
  obtain w1 where w1: "Append FlushOk now EventEnqueue j w = (None, w1)" "wal_live w1"
    "wal_events w1 = wal_events w @ [new_event now EventEnqueue j (w_seq w + 1)]"
    using Append_live [OF Cons.prems] by blast
  obtain w' new where "append_enqueue (\<lambda>_. FlushOk) (Suc n) now js w1 = (None, w')" "wal_live w'"
    "wal_events w' = wal_events w1 @ new" "map event_key new = map (\<lambda>j. (EventEnqueue, ID j)) js"
    using Cons.IH [OF w1(2)] by blast
  then show ?case
    using w1 by (intro exI [of _ w'] exI [of _ "new_event now EventEnqueue j (w_seq w + 1) # new"]) simp
qed

lemma enqueue_loop_prefix:
  assumes "jm_ok jm"
  shows "\<exists>err jm' pre post. enqueue_loop now js jm = (err, jm') \<and> jm_ok jm' \<and> js = pre @ post \<and>
    queue jm' = queue jm @ map ID pre \<and> dom (jobs jm') = dom (jobs jm) \<union> ID ` set pre \<and>
    (post = [] \<longrightarrow> err = None) \<and> (post \<noteq> [] \<longrightarrow> err = Some ErrDuplicateJob \<and> ID (hd post) \<in> dom (jobs jm'))"
  using assms
proof (induction js arbitrary: jm)
  case Nil
  then show ?case by simp
next
  case (Cons j js)
  show ?case
  proof (cases "jobs jm (ID j)")
    case None
    obtain jm1 where jm1: "Enqueue now j jm = Inr jm1" "jm_ok jm1" "queue jm1 = queue jm @ [ID j]"
      "jobs jm1 = (jobs jm)(ID j \<mapsto> nxt jm)" using Enqueue_new_ok [OF None Cons.prems] by blast
    obtain err jm' pre post where "enqueue_loop now js jm1 = (err, jm')" "jm_ok jm'" "js = pre @ post"
      "queue jm' = queue jm1 @ map ID pre" "dom (jobs jm') = dom (jobs jm1) \<union> ID ` set pre"
      "post = [] \<longrightarrow> err = None" "post \<noteq> [] \<longrightarrow> err = Some ErrDuplicateJob \<and> ID (hd post) \<in> dom (jobs jm')"
      using Cons.IH [OF jm1(2)] by blast
    then show ?thesis
      using jm1 by (intro exI [of _ err] exI [of _ jm'] exI [of _ "j # pre"] exI [of _ post]) auto
  next
    case (Some a)
    then show ?thesis
      using Cons.prems
      by (intro exI [of _ "Some ErrDuplicateJob"] exI [of _ jm] exI [of _ "[]"] exI [of _ "j # js"])
        (auto simp: Enqueue_def)
  qed
qed

text \<open>\<open>EnqueueJobs\<close> is not all or nothing: every job of the batch is logged, then the jobs before the
  first duplicate are queued in order and stay queued, and the error names the duplicate.\<close>

theorem enqueue_batch_prefix:
  assumes "jm_ok (mgr c)" and "wal_live (wal c)" and "EnqueueJobs (\<lambda>_. FlushOk) now js c = (err, c')"
  shows "\<exists>pre post. js = pre @ post \<and> queue (mgr c') = queue (mgr c) @ map ID pre \<and>
    dom (jobs (mgr c')) = dom (jobs (mgr c)) \<union> ID ` set pre \<and>
    (err = None) = (post = []) \<and> (post \<noteq> [] \<longrightarrow> err = Some ErrDuplicateJob \<and> ID (hd post) \<in> dom (jobs (mgr c'))) \<and>
    (\<exists>new. wal_events (wal c') = wal_events (wal c) @ new \<and> map event_key new = map (\<lambda>j. (EventEnqueue, ID j)) js)"
proof -
  obtain w' new where w: "append_enqueue (\<lambda>_. FlushOk) 0 now js (wal c) = (None, w')"
    "wal_events w' = wal_events (wal c) @ new" "map event_key new = map (\<lambda>j. (EventEnqueue, ID j)) js"
    using append_enqueue_live [OF assms(2)] by blast
  obtain err' jm' pre post where m: "enqueue_loop now js (mgr c) = (err', jm')" "js = pre @ post"
    "queue jm' = queue (mgr c) @ map ID pre" "dom (jobs jm') = dom (jobs (mgr c)) \<union> ID ` set pre"
    "post = [] \<longrightarrow> err' = None" "post \<noteq> [] \<longrightarrow> err' = Some ErrDuplicateJob \<and> ID (hd post) \<in> dom (jobs jm')"
    using enqueue_loop_prefix [OF assms(1), of now js] by blast
  have "err = err'" "c' = c\<lparr>wal := w', mgr := jm'\<rparr>" using assms(3) w(1) m(1) by (auto simp: EnqueueJobs_def)
  then show ?thesis
    using m w by (intro exI [of _ pre] exI [of _ post]) (cases "post = []"; simp)
qed

lemma enqueue_batch_prefix_witness:
  "\<exists>c err c' pre post. EnqueueJobs (\<lambda>_. FlushOk) 8 [job_named ''b'', job_named ''a'', job_named ''d''] c = (err, c') \<and>
    [job_named ''b'', job_named ''a'', job_named ''d''] = pre @ post \<and> queue (mgr c') = [''a''] @ map ID pre \<and>
    (err = None) = (post = [])"
proof -
  obtain c where c: "recoverable c" "queue (mgr c) = [''a'']" using sample_ready by blast
  obtain err c' where e: "EnqueueJobs (\<lambda>_. FlushOk) 8 [job_named ''b'', job_named ''a'', job_named ''d''] c = (err, c')" by fastforce
  obtain pre post where "[job_named ''b'', job_named ''a'', job_named ''d''] = pre @ post"
    "queue (mgr c') = queue (mgr c) @ map ID pre" "(err = None) = (post = [])"
    using enqueue_batch_prefix [OF recoverable_D(1) [OF c(1)] recoverable_D(2) [OF c(1)] e] by blast
  then show ?thesis using c(2) e by (intro exI [of _ c] exI [of _ err] exI [of _ c'] exI [of _ pre] exI [of _ post]) simp
qed

section \<open>Results\<close>

text \<open>Write ahead: when the log refuses the event of a result, the job keeps its status and its place,
  whatever the result was.\<close>

theorem failed_append_changes_no_status:
  assumes "\<forall>t j. fst (Append io now t j (wal c)) \<noteq> None"
  shows "job_status (mgr (handleResult io now r c)) = job_status (mgr c) \<and>
    queue (mgr (handleResult io now r c)) = queue (mgr c) \<and>
    job_status (mgr (timeout_job io now i c)) = job_status (mgr c) \<and> queue (mgr (timeout_job io now i c)) = queue (mgr c)"
proof -
  have no: "Append io now t j (wal c) \<noteq> (None, w)" for t j w using assms by (metis fst_conv)
  show ?thesis
    using no by (auto simp: handleResult_def timeout_job_def Let_def split: option.splits prod.splits)
qed

lemma failed_append_changes_no_status_witness:
  "\<exists>c. job_status (mgr c) ''a'' = Some StatusInFlight \<and>
    job_status (mgr (handleResult SyncFails 9 \<lparr>ResultID = ''a'', Success = True, Duration = 1\<rparr> c)) ''a'' = Some StatusInFlight"
proof -
  obtain c where c: "recoverable c" "job_status (mgr c) = [''a'' \<mapsto> StatusInFlight]" using sample_polled by blast
  have "\<forall>t j. fst (Append SyncFails 9 t j (wal c)) \<noteq> None"
    by (auto simp: Append_def flushBatch_def Let_def split: option.splits)
  from failed_append_changes_no_status [OF this, of "\<lparr>ResultID = ''a'', Success = True, Duration = 1\<rparr>"]
  show ?thesis using c(2) by (intro exI [of _ c]) simp
qed

text \<open>A failed attempt is counted twice: the handler increments the counter through the pointer it
  got, and \<open>Requeue\<close> increments it again. A job that is retried comes back with two attempts more.\<close>

theorem failed_attempt_counts_twice:
  assumes "recoverable c" and "job_view (mgr c) (ResultID r) = Some j" and "Status j = StatusInFlight"
    and "\<not> Success r" and "Attempt j + 1 < MaxRetry (config c)"
  shows "\<exists>j'. job_view (mgr (handleResult FlushOk now r c)) (ResultID r) = Some j' \<and>
    Status j' = StatusPending \<and> Attempt j' = Attempt j + 2"
proof -
  let ?i = "ResultID r"
  obtain a where a: "jobs (mgr c) ?i = Some a" "heap (mgr c) a = j" using assms(2) by (auto simp: job_view_iff)
  let ?jb = "bump_attempt a (mgr c)"
  obtain w where w: "Append FlushOk now EventRetry (heap ?jb a) (wal c) = (None, w)"
    using Append_live [OF recoverable_D(2) [OF assms(1)]] by blast
  have at: "Attempt (heap ?jb a) = Attempt j + 1" "Status (heap ?jb a) = StatusInFlight"
    using a(2) assms(3) by (simp_all add: bump_attempt_def)
  obtain jm' where jm': "Requeue now ?i ?jb = Inr jm'" "jobs jm' ?i = Some a"
    "Status (heap jm' a) = StatusPending" "Attempt (heap jm' a) = Attempt j + 2"
    using a(1) at by (simp add: Requeue_def)
  then have "mgr (handleResult FlushOk now r c) = jm'"
    using a(1) w assms(4,5) at(1) by (simp add: handleResult_def GetJob_def logged_def Let_def)
  then show ?thesis using jm' by (simp add: job_view_def)
qed

lemma failed_attempt_counts_twice_witness:
  "\<exists>c j j'. job_view (mgr c) ''a'' = Some j \<and> Attempt j + 1 < MaxRetry (config c) \<and>
    job_view (mgr (handleResult FlushOk 9 \<lparr>ResultID = ''a'', Success = False, Duration = 1\<rparr> c)) ''a'' = Some j' \<and>
    Attempt j' = Attempt j + 2"
proof -
  obtain c0 where c0: "recoverable c0" "config c0 = sample_cfg" "job_status (mgr c0) = [''a'' \<mapsto> StatusInFlight]"
    using sample_polled by blast
  then have "job_status (mgr c0) ''a'' = Some StatusInFlight" by simp
  then obtain j where j: "job_view (mgr c0) ''a'' = Some j" "Status j = StatusInFlight"
    by (auto simp: job_status_def)
  let ?c = "c0\<lparr>config := sample_cfg\<lparr>MaxRetry := Attempt j + 3\<rparr>\<rparr>"
  let ?r = "\<lparr>ResultID = ''a'', Success = False, Duration = 1\<rparr>"
  have c: "recoverable ?c" using c0(1,2) by (simp add: recoverable_def replays_defs)
  have h: "job_view (mgr ?c) (ResultID ?r) = Some j" "\<not> Success ?r" "Attempt j + 1 < MaxRetry (config ?c)"
    using j by simp_all
  obtain j' where "job_view (mgr (handleResult FlushOk 9 ?r ?c)) (ResultID ?r) = Some j'" "Attempt j' = Attempt j + 2"
    using failed_attempt_counts_twice [OF c h(1) j(2) h(2,3), of 9] by blast
  then show ?thesis using h(1,3) by (intro exI [of _ ?c] exI [of _ j] exI [of _ j']) simp
qed

section \<open>Replicated commands\<close>

text \<open>What a committed command does to the statuses.\<close>

fun enqueue_status :: "Job list \<Rightarrow> (JobID \<Rightarrow> JobStatus option) \<Rightarrow> JobID \<Rightarrow> JobStatus option" where
  "enqueue_status [] st = st"
| "enqueue_status (job # js) st =
     enqueue_status js (if st (ID job) = None then st(ID job \<mapsto> StatusPending) else st)"

fun command_status :: "raft_command \<Rightarrow> (JobID \<Rightarrow> JobStatus option) \<Rightarrow> JobID \<Rightarrow> JobStatus option" where
  "command_status (CmdEnqueue js) st = enqueue_status js st"
| "command_status (CmdAck i s) st =
     (if st i \<in> {None, Some StatusCompleted, Some StatusDead} then st
      else if s = StatusCompleted
        then (if st i = Some StatusInFlight then st(i \<mapsto> StatusCompleted) else st)
        else st(i \<mapsto> StatusDead))"
| "command_status CmdOther st = st"
| "command_status CmdUndecodable st = st"

definition jm_named :: "JobManager \<Rightarrow> bool" where
  "jm_named jm \<longleftrightarrow> jm_inv jm \<and> named jm"

lemma Enqueue_named:
  assumes "jm_named jm" and "jobs jm (ID job) = None"
  shows "\<exists>jm'. Enqueue now job jm = Inr jm' \<and> jm_named jm' \<and> job_status jm' = (job_status jm)(ID job \<mapsto> StatusPending)"
proof -
  let ?j = "job\<lparr>Status := StatusPending, CreatedAt := now, UpdatedAt := now\<rparr>"
  have inv: "jm_inv jm" using assms(1) by (simp add: jm_named_def)
  obtain jm' where jm': "Enqueue now job jm = Inr jm'" "jobs jm' = (jobs jm)(ID job \<mapsto> nxt jm)"
    "heap jm' = (heap jm)(nxt jm := ?j)" using assms(2) by (simp add: Enqueue_def Let_def)
  have "job_view jm' = (job_view jm)(ID job \<mapsto> ?j)" by (rule job_view_fresh [OF inv jm'(2,3)])
  then have "job_status jm' = (job_status jm)(ID job \<mapsto> StatusPending)" by (simp add: job_status_def fun_eq_iff)
  moreover have "named jm'"
    using assms(1) jm'(2,3) jm_inv_less [OF inv] by (auto simp: named_def jm_named_def)
  ultimately show ?thesis using jm'(1) Enqueue_inv [OF inv jm'(1)] by (auto simp: jm_named_def)
qed

lemma apply_enqueue_status:
  "jm_named jm \<Longrightarrow> jm_named (apply_enqueue now js jm) \<and>
     job_status (apply_enqueue now js jm) = enqueue_status js (job_status jm)"
proof (induction js arbitrary: jm)
  case Nil
  then show ?case by simp
next
  case (Cons j js)
  show ?case
  proof (cases "jobs jm (ID j)")
    case None
    then obtain jm' where jm': "Enqueue now j jm = Inr jm'" "jm_named jm'"
      "job_status jm' = (job_status jm)(ID j \<mapsto> StatusPending)"
      using Enqueue_named [OF Cons.prems] by blast
    have "job_status jm (ID j) = None" using None by (simp add: job_status_def)
    then have "enqueue_status (j # js) (job_status jm) = enqueue_status js (job_status jm')"
      by (simp only: enqueue_status.simps jm'(3) simp_thms if_True)
    moreover have "apply_enqueue now (j # js) jm = apply_enqueue now js jm'"
      using None jm'(1) by (simp add: GetJob_def logged_def)
    ultimately show ?thesis using Cons.IH [OF jm'(2)] by simp
  next
    case (Some a)
    then have "job_status jm (ID j) \<noteq> None" by (simp add: job_status_def)
    then show ?thesis using Some Cons.IH [OF Cons.prems] by (auto simp: GetJob_def)
  qed
qed

lemma completed_dead_status:
  assumes "jm_inv jm"
  shows "(IsCompleted i jm \<or> IsDead i jm) = (job_status jm i \<in> {Some StatusCompleted, Some StatusDead})"
  using IsCompleted_status [OF assms, of i] IsDead_iff [OF assms, of i] status_IsCompleted [OF assms, of i]
  by (auto simp: job_status_def simp del: job_view_None)

lemma mark_named:
  assumes "jm_named jm"
  shows "MarkCompleted now i jm = Inr jm' \<Longrightarrow> jm_named jm'"
    and "MarkDead now i jm = Inr jm' \<Longrightarrow> jm_named jm'"
proof -
  have D: "named jm" "jm_inv jm" using assms by (simp_all add: jm_named_def)
  show "jm_named jm'" if "MarkCompleted now i jm = Inr jm'"
    using run_op_named [OF D, of "OpCompleted now i" jm'] MarkCompleted_inv [OF D(2) that] that status_op_jobs(2) [OF that]
    by (simp add: jm_named_def)
  show "jm_named jm'" if "MarkDead now i jm = Inr jm'"
    using run_op_named [OF D, of "OpDead now i" jm'] MarkDead_inv [OF D(2) that] that status_op_jobs(4) [OF that]
    by (simp add: jm_named_def)
qed

lemma ack_status:
  assumes "jm_named jm"
  shows "jm_named (handleRaftCommand now (CmdAck i s) jm) \<and>
    job_status (handleRaftCommand now (CmdAck i s) jm) = command_status (CmdAck i s) (job_status jm)"
proof -
  have inv: "jm_inv jm" and nm: "named jm" using assms by (simp_all add: jm_named_def)
  show ?thesis
  proof (cases "jobs jm i = None \<or> job_status jm i \<in> {Some StatusCompleted, Some StatusDead}")
    case True
    then have "handleRaftCommand now (CmdAck i s) jm = jm"
      using completed_dead_status [OF inv, of i] by (auto simp: handleRaftCommand_def GetJob_def)
    moreover have "job_status jm i \<in> {None, Some StatusCompleted, Some StatusDead}"
      using True by (auto simp: job_status_def)
    ultimately show ?thesis using assms by simp
  next
    case False
    then obtain a where a: "jobs jm i = Some a" by auto
    note id = named_ID [OF nm a]
    have st: "job_status jm i \<notin> {None, Some StatusCompleted, Some StatusDead}"
      using False a by (auto simp: job_status_def job_view_def)
    have h: "handleRaftCommand now (CmdAck i s) jm =
        (if s = StatusCompleted then logged (MarkCompleted now i jm) jm else logged (MarkDead now i jm) jm)"
      using a id False completed_dead_status [OF inv, of i] by (auto simp: handleRaftCommand_def GetJob_def)
    obtain jd where jd: "MarkDead now i jm = Inr jd" "job_status jd = (job_status jm)(i \<mapsto> StatusDead)"
      using jm_store.dead_ok [OF inv, of i now] st by auto
    show ?thesis
    proof (cases "job_status jm i = Some StatusInFlight")
      case True
      then obtain jc where "MarkCompleted now i jm = Inr jc" "job_status jc = (job_status jm)(i \<mapsto> StatusCompleted)"
        using jm_store.completed_ok [OF inv] by blast
      then show ?thesis using h jd st True mark_named [OF assms] by (simp add: logged_def)
    next
      case False
      then have "\<exists>e. MarkCompleted now i jm = Inl e" using jm_store.completed_err [OF inv, of i now] by blast
      then show ?thesis using h jd st False assms mark_named(2) [OF assms] by (auto simp: logged_def)
    qed
  qed
qed

lemma command_named_status:
  assumes "jm_named jm"
  shows "jm_named (handleRaftCommand now cmd jm) \<and> job_status (handleRaftCommand now cmd jm) = command_status cmd (job_status jm)"
proof (cases cmd)
  case (CmdEnqueue js)
  then show ?thesis using apply_enqueue_status [OF assms] by (simp add: handleRaftCommand_def)
next
  case (CmdAck i s)
  then show ?thesis using ack_status [OF assms] by simp
qed (use assms in \<open>simp_all add: handleRaftCommand_def\<close>)

text \<open>A replica applies the committed commands one by one, each at a time of its own clock.\<close>

fun apply_log :: "(int \<times> raft_command) list \<Rightarrow> JobManager \<Rightarrow> JobManager" where
  "apply_log [] jm = jm"
| "apply_log ((now, cmd) # log) jm = apply_log log (handleRaftCommand now cmd jm)"

lemma apply_log_status:
  "jm_named jm \<Longrightarrow> jm_named (apply_log log jm) \<and> job_status (apply_log log jm) = fold command_status (map snd log) (job_status jm)"
proof (induction log arbitrary: jm)
  case Nil
  then show ?case by simp
next
  case (Cons x log)
  then show ?case using command_named_status [OF Cons.prems] by (cases x) simp
qed

lemma jm_named_new: "jm_named NewJobManager"
  using NewJobManager_ok by (simp add: jm_ok_def jm_named_def)

text \<open>C13. Replicas agree: two replicas with well-formed job tables (consistent indexes, each job under its own
  ID) that start with the same statuses and apply the same commands end
  with the same statuses, whatever their clocks; and those statuses are given by a function of the
  commands alone.\<close>

theorem replicas_agree:
  assumes "jm_named jm1" and "jm_named jm2" and "job_status jm1 = job_status jm2" and "map snd log1 = map snd log2"
  shows "job_status (apply_log log1 jm1) = job_status (apply_log log2 jm2) \<and>
    job_status (apply_log log1 jm1) = fold command_status (map snd log1) (job_status jm1)"
  using apply_log_status [OF assms(1), of log1] apply_log_status [OF assms(2), of log2] assms(3,4) by simp

lemma replicas_agree_witness:
  "job_status (apply_log [(1, CmdEnqueue [job_named ''a'']), (2, CmdAck ''a'' StatusDead)] NewJobManager) =
   job_status (apply_log [(5, CmdEnqueue [job_named ''a'']), (9, CmdAck ''a'' StatusDead)] NewJobManager)"
  using replicas_agree [OF jm_named_new jm_named_new refl,
      of "[(1, CmdEnqueue [job_named ''a'']), (2, CmdAck ''a'' StatusDead)]"
         "[(5, CmdEnqueue [job_named ''a'']), (9, CmdAck ''a'' StatusDead)]"] by simp

lemma ack_of_pending:
  assumes "jm_ok jm" and "job_status jm i = Some StatusPending"
  shows "handleRaftCommand now (CmdAck i StatusCompleted) jm = jm"
proof -
  note inv = jm_ok_D(1) [OF assms(1)]
  obtain a where a: "jobs jm i = Some a" "Status (heap jm a) = StatusPending" "ID (heap jm a) = i"
    using assms(2) named_ID [OF jm_ok_D(2) [OF assms(1)]] by (auto simp: job_status_def job_view_def)
  have "MarkCompleted now i jm = Inl ErrNotInFlight" using a by (simp add: MarkCompleted_def)
  then show ?thesis
    using a completed_dead_status [OF inv, of i] assms(2) by (simp add: handleRaftCommand_def GetJob_def logged_def)
qed

text \<open>C36. Dispatching is not replicated, and an acknowledgement needs the job in flight. On two nodes with the
  same job at the front of the queue (well-formed managers, running controllers) the one is polled;
  then both apply the committed ACK of the job. On the one that was polled the job is completed; on
  the other the command changes nothing at all, and its next poll hands the same job out again.\<close>

theorem committed_ack_lost_on_follower:
  assumes "jm_ok (mgr leader)" and "jm_ok (mgr follower)" and "\<not> ctl_stopped leader" and "\<not> ctl_stopped follower"
    and "queue (mgr leader) = i # ql" and "queue (mgr follower) = i # qf" and "0 < n"
    and "Poll io t1 n leader = (r, leader')"
  defines "ack \<equiv> CmdAck i StatusCompleted"
  shows "job_status (handleRaftCommand t2 ack (mgr leader')) i = Some StatusCompleted \<and>
    handleRaftCommand t3 ack (mgr follower) = mgr follower \<and>
    (\<exists>a as follower'. Poll io' t4 n (follower\<lparr>mgr := handleRaftCommand t3 ack (mgr follower)\<rparr>) = (Inr (a # as), follower') \<and>
       ID (heap (mgr follower) a) = i \<and> job_status (mgr follower') i = Some StatusInFlight)"
proof -
  have i: "i \<in> set (take n (queue (mgr leader)))" "i \<in> set (take n (queue (mgr follower)))"
    using assms(5-7) by (cases n; simp)+
  obtain l' where l': "Poll io t1 n leader = (Inr (addrs (mgr leader) (take n (queue (mgr leader)))), l')" "jm_ok (mgr l')"
    "job_status (mgr l') i = Some StatusInFlight"
    using Poll_any_disk [OF assms(1,3), of io t1 n] i(1) by auto
  have "job_status (handleRaftCommand t2 ack (mgr l')) i = Some StatusCompleted"
    using ack_status [of "mgr l'" t2 i StatusCompleted] l'(2,3) by (simp add: ack_def jm_ok_def jm_named_def)
  moreover have "leader' = l'" using l'(1) assms(8) by simp
  moreover have "job_status (mgr follower) i = Some StatusPending"
    using jm_ok_D(3) [OF assms(2)] assms(6) by (simp add: clean_queue_def)
  then have same: "handleRaftCommand t3 ack (mgr follower) = mgr follower"
    unfolding ack_def by (rule ack_of_pending [OF assms(2)])
  moreover obtain f' where f': "Poll io' t4 n follower = (Inr (addrs (mgr follower) (take n (queue (mgr follower)))), f')"
    "job_status (mgr f') i = Some StatusInFlight"
    using Poll_any_disk [OF assms(2,4), of io' t4 n] i(2) by auto
  moreover obtain a as where "addrs (mgr follower) (take n (queue (mgr follower))) = a # as" "ID (heap (mgr follower) a) = i"
    using polled_IDs [OF assms(2), of n] assms(6,7) by (cases n) (auto simp: addrs_def)
  ultimately show ?thesis by simp
qed

lemma committed_ack_lost_on_follower_witness:
  "\<exists>c r c' a as d. queue (mgr c) = [''a''] \<and> Poll (\<lambda>_. FlushOk) 5 1 c = (r, c') \<and>
    job_status (handleRaftCommand 9 (CmdAck ''a'' StatusCompleted) (mgr c')) ''a'' = Some StatusCompleted \<and>
    Poll (\<lambda>_. FlushOk) 20 1 (c\<lparr>mgr := handleRaftCommand 9 (CmdAck ''a'' StatusCompleted) (mgr c)\<rparr>) = (Inr (a # as), d)"
proof -
  obtain c where c: "recoverable c" "\<not> ctl_stopped c" "queue (mgr c) = [''a'']" using sample_ready by blast
  obtain r c' where p: "Poll (\<lambda>_. FlushOk) 5 1 c = (r, c')" by fastforce
  note ok = recoverable_D(1) [OF c(1)]
  have "0 < (1::nat)" by simp
  from committed_ack_lost_on_follower [OF ok ok c(2,2) c(3) c(3) this p, of 9 9 "\<lambda>_. FlushOk" 20]
  show ?thesis using c(3) p by blast
qed

lemma apply_enqueue_again:
  "(\<forall>j \<in> set js. jobs jm (ID j) \<noteq> None) \<Longrightarrow> apply_enqueue now js jm = jm"
  by (induction js) (auto simp: GetJob_def)

lemma apply_enqueue_known:
  "dom (jobs jm) \<union> ID ` set js \<subseteq> dom (jobs (apply_enqueue now js jm))"
proof (induction js arbitrary: jm)
  case Nil
  then show ?case by simp
next
  case (Cons j js)
  let ?jm = "if GetJob (ID j) jm \<noteq> None then jm else logged (Enqueue now j jm) jm"
  have "dom (jobs jm) \<union> {ID j} \<subseteq> dom (jobs ?jm)"
    by (auto simp: GetJob_def logged_def Enqueue_def Let_def)
  moreover have "dom (jobs ?jm) \<union> ID ` set js \<subseteq> dom (jobs (apply_enqueue now js ?jm))" by (rule Cons.IH)
  ultimately show ?case by (simp only: apply_enqueue.simps list.set image_insert) blast
qed

text \<open>Applying a committed command is idempotent: delivering it a second time, at any later time,
  leaves the whole manager, and not only the statuses, as it was.\<close>

theorem raft_command_idempotent:
  assumes "jm_named jm"
  shows "handleRaftCommand now' cmd (handleRaftCommand now cmd jm) = handleRaftCommand now cmd jm"
proof (cases cmd)
  case (CmdEnqueue js)
  have "\<forall>j \<in> set js. jobs (apply_enqueue now js jm) (ID j) \<noteq> None"
    using apply_enqueue_known [of jm js now] by blast
  then show ?thesis using CmdEnqueue apply_enqueue_again by (simp add: handleRaftCommand_def)
next
  case (CmdAck i s)
  let ?jm = "handleRaftCommand now cmd jm"
  have inv: "jm_inv ?jm" and nm: "named ?jm" and st: "job_status ?jm = command_status (CmdAck i s) (job_status jm)"
    using command_named_status [OF assms, of now cmd] CmdAck by (simp_all add: jm_named_def)
  consider "job_status ?jm i \<in> {None, Some StatusCompleted, Some StatusDead}"
    | "s = StatusCompleted" "job_status ?jm i \<notin> {None, Some StatusCompleted, Some StatusDead}" "job_status ?jm i \<noteq> Some StatusInFlight"
    using st by (auto split: if_splits)
  then show ?thesis
  proof cases
    case 1
    then have "IsCompleted i ?jm \<or> IsDead i ?jm \<or> jobs ?jm i = None"
      using completed_dead_status [OF inv, of i] by (auto simp: job_status_def)
    then show ?thesis using CmdAck by (auto simp: handleRaftCommand_def GetJob_def)
  next
    case 2
    then obtain a where a: "jobs ?jm i = Some a" "ID (heap ?jm a) = i"
      using named_ID [OF nm] by (auto simp: job_status_def job_view_def)
    have "MarkCompleted now' i ?jm = Inl ErrNotInFlight"
      using jm_store.completed_err [OF inv, of i now'] 2 by simp
    then have "handleRaftCommand now' (CmdAck i s) ?jm = ?jm"
      using 2(1) a by (simp add: handleRaftCommand_def [of now'] GetJob_def logged_def)
    then show ?thesis using CmdAck by simp
  qed
qed (simp_all add: handleRaftCommand_def)

lemma raft_command_idempotent_witness:
  "handleRaftCommand 9 (CmdEnqueue [job_named ''a'']) (handleRaftCommand 1 (CmdEnqueue [job_named ''a'']) NewJobManager) =
   handleRaftCommand 1 (CmdEnqueue [job_named ''a'']) NewJobManager"
  by (rule raft_command_idempotent [OF jm_named_new])

end
