(* ===== verification/CrashLimits.thy ===== *)
theory CrashLimits
  imports CrashProps
begin

text \<open>
  Where recovery stops short: what the log does not say, or says and the memory did not do.
\<close>

section \<open>Jobs enqueued after the checkpoint\<close>

lemma enqueue_replays:
  assumes rec: "recoverable c" and new: "jobs (mgr c) (ID job) = None"
    and enq: "EnqueueJobs (\<lambda>_. FlushOk) now [job] c = (err, c')"
  shows "err = None \<and> wal_live (wal c') \<and> jm_ok (mgr c') \<and> replays_to c' (job_status (mgr c)) \<and>
    job_status (mgr c') = (job_status (mgr c))(ID job \<mapsto> StatusPending) \<and> queue (mgr c') = queue (mgr c) @ [ID job] \<and>
    jobs (mgr c') = (jobs (mgr c))(ID job \<mapsto> nxt (mgr c)) \<and> config c' = config c \<and> ctl_stopped c' = ctl_stopped c"
proof -
  obtain w' jm' where e: "err = None" "c' = c\<lparr>wal := w', mgr := jm'\<rparr>"
    "Append FlushOk now EventEnqueue job (wal c) = (None, w')" "wal_live w'" "jm_ok jm'"
    "job_status jm' = (job_status (mgr c))(ID job \<mapsto> StatusPending)" "queue jm' = queue (mgr c) @ [ID job]"
    "jobs jm' = (jobs (mgr c))(ID job \<mapsto> nxt (mgr c))"
    using Enqueue_live [OF recoverable_D(2) [OF rec] new recoverable_D(1) [OF rec], of now] enq by auto
  have "replays_to c (job_status (mgr c))" using rec by (simp add: recoverable_def)
  then have "replays_with c' (succeeds_with (job_status (mgr c)))"
    unfolding e(2)
    by (rule append_replays [OF recoverable_D(2) [OF rec] _ e(3)])
      (auto simp: succeeds_with_def replay_handler_def dest: handler_key)
  then show ?thesis using e by (simp add: replays_to_def)
qed

text \<open>A job accepted after the last checkpoint is lost in a crash: \<open>EnqueueJobs\<close> has written and
  synced its event and reported success, the job is pending in memory, and the restarted process
  does not know it (replay skips ENQUEUE events, which do not carry the payload).\<close>

theorem enqueued_job_lost_in_crash:
  assumes "recoverable c" and "jobs (mgr c) (ID job) = None"
    and "EnqueueJobs (\<lambda>_. FlushOk) now [job] c = (err, c')"
    and "reboot c' = Some cr" and "snapshot_order ord c'"
  shows "err = None \<and> job_status (mgr c') (ID job) = Some StatusPending \<and>
    (\<exists>c3. recover False ord now' cr = Inr c3 \<and> job_status (mgr c3) (ID job) = None)"
proof -
  note E = enqueue_replays [OF assms(1-3)]
  have good: "wal_good (wal c')" using E by (simp add: wal_live_def)
  obtain c3 where "recover False ord now' cr = Inr c3" "job_status (mgr c3) = job_status (mgr c)"
    using recover_to [OF _ good assms(4,5), of "job_status (mgr c)" now'] E by blast
  moreover have "job_status (mgr c) (ID job) = None" using assms(2) by (simp add: job_status_def)
  ultimately show ?thesis using E by simp
qed

text \<open>A sample: a second job comes in after the checkpoint and the poll of the first.\<close>

lemma sample_enqueued:
  "\<exists>c c'. recoverable c \<and> jobs (mgr c) ''b'' = None \<and> queue (mgr c) = [] \<and> \<not> ctl_stopped c \<and>
    EnqueueJobs (\<lambda>_. FlushOk) 8 [job_named ''b''] c = (None, c') \<and> config c' = sample_cfg"
proof -
  obtain c where c: "recoverable c" "config c = sample_cfg" "\<not> ctl_stopped c" "queue (mgr c) = []"
    "job_status (mgr c) = [''a'' \<mapsto> StatusInFlight]" using sample_polled by blast
  have "job_status (mgr c) ''b'' = None" using c(5) by simp
  then have b: "jobs (mgr c) ''b'' = None" by (simp add: job_status_def)
  obtain err c' where e: "EnqueueJobs (\<lambda>_. FlushOk) 8 [job_named ''b''] c = (err, c')" by fastforce
  then have "err = None \<and> config c' = sample_cfg" using enqueue_replays [OF c(1) _ e] b c(2) by simp
  then show ?thesis using c b e by blast
qed

lemma enqueued_job_lost_in_crash_witness:
  "\<exists>c' cr ord c3. job_status (mgr c') ''b'' = Some StatusPending \<and> reboot c' = Some cr \<and>
    recover False ord 99 cr = Inr c3 \<and> job_status (mgr c3) ''b'' = None"
proof -
  obtain c c' where c: "recoverable c" "jobs (mgr c) (ID (job_named ''b'')) = None"
    "EnqueueJobs (\<lambda>_. FlushOk) 8 [job_named ''b''] c = (None, c')" "config c' = sample_cfg"
    using sample_enqueued by auto
  obtain cr where cr: "reboot c' = Some cr" using sample_reboot [OF c(4)] by blast
  obtain ord where ord: "snapshot_order ord c'"
    using enqueue_replays [OF c(1-3)] snapshot_order_exists by (auto simp: replays_to_def)
  from enqueued_job_lost_in_crash [OF c(1-3) cr ord, of 99] show ?thesis using cr by auto
qed

text \<open>Once such a job has been handed to a worker as well, the next start fails: replay meets the
  DISPATCH event of a job it does not know, and \<open>Start\<close> returns its error whatever order the
  runtime walks its maps in.\<close>

theorem dispatched_enqueue_blocks_restart:
  assumes "recoverable c" and "jobs (mgr c) (ID job) = None" and "queue (mgr c) = []" and "\<not> ctl_stopped c"
    and "EnqueueJobs (\<lambda>_. FlushOk) now [job] c = (err, c1)"
    and "Poll (\<lambda>_. FlushOk) now' 1 c1 = (r, c2)"
    and "reboot c2 = Some cr" and "snapshot_order ord c2"
  shows "job_status (mgr c2) (ID job) = Some StatusInFlight \<and> Start False ord ord' now'' cr = Inl ErrJobNotFound"
proof -
  note E = enqueue_replays [OF assms(1,2,5)]
  let ?i = "ID job" let ?a = "nxt (mgr c)"
  have ok: "jm_ok (mgr c1)" and live: "wal_live (wal c1)" and rep: "replays_to c1 (job_status (mgr c))"
    and q: "queue (mgr c1) = [?i]" and jb: "jobs (mgr c1) ?i = Some ?a"
    and st: "job_status (mgr c1) ?i = Some StatusPending" and run: "\<not> ctl_stopped c1"
    using E assms(3,4) by simp_all
  have id: "ID (heap (mgr c1) ?a) = ?i" using named_ID [OF jm_ok_D(2) [OF ok] jb] .
  let ?m = "(mgr c1)\<lparr>queue := []\<rparr>"
  have pop: "pop_batch 1 (mgr c1) = ([?a], ?m)" using q jb by (simp add: PopPending_def)
  have okm: "jm_ok ?m" and stm: "job_status ?m = job_status (mgr c1)"
    using pop_batch_ok(1) [OF ok, of 1] pop_batch_ok(2) [OF ok, of "[]"] q by simp_all
  obtain jm' where jm': "MarkInFlight now' ?i (now' + TaskTimeout (config c1)) ?m = Inr jm'"
    "job_status jm' = (job_status ?m)(?i \<mapsto> StatusInFlight)"
    using in_flight_step [OF okm, of ?i] st stm by auto
  obtain w' where w': "Append FlushOk now' EventDispatch (heap (mgr c1) ?a) (wal c1) = (None, w')" "wal_live w'"
    using Append_live [OF live] by blast
  have c2: "c2 = c1\<lparr>wal := w', mgr := jm'\<rparr>"
    using assms(6) run pop w'(1) jm'(1) id by (auto simp: Poll_def logged_def Let_def)
  have unknown: "job_status (mgr c) ?i = None" using assms(2) by (simp add: job_status_def)
  have "replays_with c2 (\<lambda>r. fst r = Some ErrJobNotFound)"
    unfolding c2
  proof (rule append_replays [OF live rep w'(1)])
    fix t now e
    assume t: "jm_inv t" "job_status t = job_status (mgr c)" "event_key e = (EventDispatch, ID (heap (mgr c1) ?a))"
    have none: "job_status t ?i = None" using t(2) unknown by simp
    then have "\<not> IsCompleted ?i t" "\<not> IsDead ?i t"
      using IsCompleted_status [OF t(1), of ?i] IsDead_iff [OF t(1), of ?i]
      by (auto simp: job_status_def simp del: job_view_None)
    then show "fst (replay_handler now (TaskTimeout (config c1)) e t) = Some ErrJobNotFound"
      using handler_key [OF t(3)] id jm_store.in_flight_err [OF t(1), of ?i] none
      by (simp add: replay_handler_def returned_def)
  qed
  moreover have "wal_good (wal c2)" using w'(2) c2 by (simp add: wal_live_def)
  ultimately obtain jm where "recover False ord now'' cr = Inl ErrJobNotFound"
    using recover_with [OF _ _ assms(7,8), of "\<lambda>r. fst r = Some ErrJobNotFound" now''] by auto
  then show ?thesis using c2 jm'(2) by (simp add: Start_def)
qed

lemma dispatched_enqueue_blocks_restart_witness:
  "\<exists>c2 cr ord. job_status (mgr c2) ''b'' = Some StatusInFlight \<and> reboot c2 = Some cr \<and> snapshot_order ord c2 \<and>
    Start False ord [] 99 cr = Inl ErrJobNotFound"
proof -
  obtain c c1 where c: "recoverable c" "jobs (mgr c) (ID (job_named ''b'')) = None" "queue (mgr c) = []" "\<not> ctl_stopped c"
    "EnqueueJobs (\<lambda>_. FlushOk) 8 [job_named ''b''] c = (None, c1)" "config c1 = sample_cfg"
    using sample_enqueued by auto
  obtain r c2 where p: "Poll (\<lambda>_. FlushOk) 9 1 c1 = (r, c2)" by fastforce
  then have same: "config c2 = config c1 \<and> snap c2 = snap c1"
    by (auto simp: Poll_def poll_loop_phases split: if_splits prod.splits)
  obtain cr where cr: "reboot c2 = Some cr" using sample_reboot [of c2] same c(6) by auto
  obtain ord where ord: "snapshot_order ord c2"
    using enqueue_replays [OF c(1,2,5)] snapshot_order_exists [of c1] same
    by (auto simp: replays_to_def snapshot_order_def)
  from dispatched_enqueue_blocks_restart [OF c(1-5) p cr ord, of "[]" 99] show ?thesis using cr ord by auto
qed

section \<open>Events of operations that failed\<close>

lemma unreplayable_ack:
  assumes "replays_to c st" and "wal_live (wal c)" and "st i = Some StatusPending" and "ID j = i"
    and "Append FlushOk now EventAck j (wal c) = (None, w')" and "c' = c\<lparr>wal := w', mgr := jm'\<rparr>"
    and "reboot c' = Some cr" and "snapshot_order ord c'"
  shows "Start False ord ord' now' cr = Inl ErrNotInFlight"
proof -
  have "replays_with c' (\<lambda>r. fst r = Some ErrNotInFlight)"
    unfolding assms(6)
  proof (rule append_replays [OF assms(2,1,5)])
    fix t now e
    assume t: "jm_inv t" "job_status t = st" "event_key e = (EventAck, ID j)"
    have pend: "job_status t i = Some StatusPending" using t(2) assms(3) by simp
    then have "\<not> IsCompleted i t" using pending_not_final(1) [OF t(1) pend] by simp
    then show "fst (replay_handler now (TaskTimeout (config c)) e t) = Some ErrNotInFlight"
      using handler_key [OF t(3)] assms(4) jm_store.completed_err [OF t(1), of i] pend
      by (simp add: replay_handler_def returned_def)
  qed
  moreover have "wal_good (wal c')" using Append_good [OF _ assms(5)] assms(2,6) by (simp add: wal_live_def)
  ultimately have "recover False ord now' cr = Inl ErrNotInFlight"
    using recover_with [OF _ _ assms(7,8), of "\<lambda>r. fst r = Some ErrNotInFlight" now'] by auto
  then show ?thesis by (simp add: Start_def)
qed

text \<open>A success that arrives after the job has timed out and been requeued is ignored in memory,
  but its ACK is in the log: from then on every start fails, because replay runs into an ACK of
  a job that is not in flight.\<close>

theorem late_ack_blocks_restart:
  assumes "recoverable c" and "job_status (mgr c) (ResultID r) = Some StatusPending" and "Success r"
    and "c' = handleResult FlushOk now r c" and "reboot c' = Some cr" and "snapshot_order ord c'"
  shows "mgr c' = mgr c \<and> Start False ord ord' now' cr = Inl ErrNotInFlight"
proof -
  let ?i = "ResultID r"
  note ok = recoverable_D(1) [OF assms(1)] and live = recoverable_D(2) [OF assms(1)]
  obtain a where a: "jobs (mgr c) ?i = Some a" "ID (heap (mgr c) a) = ?i"
    using status_address [OF ok assms(2)] by blast
  obtain w' where w': "Append FlushOk now EventAck (heap (mgr c) a) (wal c) = (None, w')" "wal_live w'"
    using Append_live [OF live] by blast
  have "MarkCompleted now ?i (mgr c) = Inl ErrNotInFlight"
    using jm_store.completed_err [OF jm_ok_D(1) [OF ok], of ?i] assms(2) by simp
  then have c': "c' = c\<lparr>wal := w', mgr := mgr c\<rparr>"
    using assms(3,4) a w'(1) by (simp add: handleResult_def GetJob_def logged_def Let_def)
  have "replays_to c (job_status (mgr c))" using assms(1) by (simp add: recoverable_def)
  from unreplayable_ack [OF this live assms(2) a(2) w'(1) c' assms(5,6)] show ?thesis using c' by simp
qed

lemma handler_frame:
  "config (handleResult io now r c) = config c" "snap (handleResult io now r c) = snap c"
  "config (timeout_job io now i c) = config c" "snap (timeout_job io now i c) = snap c"
  by (auto simp: handleResult_def timeout_job_def Let_def split: option.splits prod.splits)

lemma late_ack_blocks_restart_witness:
  "\<exists>c c' cr ord. c' = handleResult FlushOk 9 \<lparr>ResultID = ''a'', Success = True, Duration = 1\<rparr> c \<and>
    job_status (mgr c) ''a'' = Some StatusPending \<and> mgr c' = mgr c \<and> reboot c' = Some cr \<and>
    Start False ord [] 99 cr = Inl ErrNotInFlight"
proof -
  let ?r = "\<lparr>ResultID = ''a'', Success = True, Duration = 1\<rparr>"
  obtain c where c: "recoverable c" "config c = sample_cfg" "job_status (mgr c) = [''a'' \<mapsto> StatusPending]"
    using sample_ready by blast
  let ?c' = "handleResult FlushOk 9 ?r c"
  obtain cr where cr: "reboot ?c' = Some cr" using sample_reboot [of ?c'] c(2) handler_frame(1) by metis
  obtain ord where "snapshot_order ord c"
    using c(1) snapshot_order_exists by (auto simp: recoverable_def replays_to_def)
  then have ord: "snapshot_order ord ?c'" by (simp add: snapshot_order_def handler_frame)
  have st: "job_status (mgr c) (ResultID ?r) = Some StatusPending" using c(3) by simp
  show ?thesis
    using late_ack_blocks_restart [OF c(1) st _ refl cr ord, of "[]" 99] cr st by auto
qed

text \<open>A job killed by its last timeout comes back: the handler logs a TIMEOUT and then marks the job
  dead, and replay requeues on every TIMEOUT, so that the restarted process has it pending and will
  run it again.\<close>

theorem timed_out_dead_job_revived:
  assumes "recoverable c" and "job_view (mgr c) i = Some j" and "Status j = StatusInFlight"
    and "MaxRetry (config c) \<le> Attempt j + 1"
    and "c' = timeout_job FlushOk now i c" and "reboot c' = Some cr" and "snapshot_order ord c'"
  shows "job_status (mgr c') i = Some StatusDead \<and>
    (\<exists>c3. recover False ord now' cr = Inr c3 \<and> job_status (mgr c3) i = Some StatusPending)"
proof -
  have fl: "job_status (mgr c) i = Some StatusInFlight" using assms(2,3) by (simp add: job_status_def)
  note ok = recoverable_D(1) [OF assms(1)] and live = recoverable_D(2) [OF assms(1)]
  obtain a where a: "jobs (mgr c) i = Some a" "ID (heap (mgr c) a) = i" "heap (mgr c) a = j"
    using status_address [OF ok fl] assms(2) by (auto simp: job_view_def)
  obtain w' where w': "Append FlushOk now EventTimeout (heap (mgr c) a) (wal c) = (None, w')" "wal_live w'"
    using Append_live [OF live] by blast
  obtain jm' where jm': "MarkDead now i (bump_attempt a (mgr c)) = Inr jm'"
    "job_status jm' = (job_status (mgr c))(i \<mapsto> StatusDead)"
    using dead_step [OF bump_ok [OF ok, of a], of i] fl by auto
  have "Attempt (heap (bump_attempt a (mgr c)) a) = Attempt j + 1" using a(3) by (simp add: bump_attempt_def)
  then have c': "c' = c\<lparr>wal := w', mgr := jm'\<rparr>"
    using assms(4,5) a(1) w'(1) jm'(1) by (simp add: timeout_job_def GetJob_def logged_def Let_def)
  have rep: "replays_to c (job_status (mgr c))" using assms(1) by (simp add: recoverable_def)
  have "replays_to c' ((job_status (mgr c))(i \<mapsto> StatusPending))"
    unfolding c' replays_to_def
  proof (rule append_replays [OF live rep w'(1)])
    fix t now e
    assume t: "jm_inv t" "job_status t = job_status (mgr c)" "event_key e = (EventTimeout, ID (heap (mgr c) a))"
    then show "succeeds_with ((job_status (mgr c))(i \<mapsto> StatusPending)) (replay_handler now (TaskTimeout (config c)) e t)"
      using replay_requeue [OF t(1), of i e now "TaskTimeout (config c)"] fl a(2) by (auto simp: succeeds_with_def)
  qed
  moreover have "wal_good (wal c')" using w'(2) c' by (simp add: wal_live_def)
  ultimately show ?thesis using recover_to [OF _ _ assms(6,7), of _ now'] c' jm'(2) by fastforce
qed

lemma recoverable_config:
  "recoverable c \<Longrightarrow> TaskTimeout cfg = TaskTimeout (config c) \<Longrightarrow> recoverable (c\<lparr>config := cfg\<rparr>)"
  by (simp add: recoverable_def replays_defs)

lemma timed_out_dead_job_revived_witness:
  "\<exists>c' cr ord c3. job_status (mgr c') ''a'' = Some StatusDead \<and> reboot c' = Some cr \<and>
    recover False ord 99 cr = Inr c3 \<and> job_status (mgr c3) ''a'' = Some StatusPending"
proof -
  obtain c0 where c0: "recoverable c0" "config c0 = sample_cfg" "job_status (mgr c0) = [''a'' \<mapsto> StatusInFlight]"
    using sample_polled by blast
  then have "job_status (mgr c0) ''a'' = Some StatusInFlight" by simp
  then obtain j where j: "job_view (mgr c0) ''a'' = Some j" "Status j = StatusInFlight"
    by (auto simp: job_status_def)
  let ?c = "c0\<lparr>config := sample_cfg\<lparr>MaxRetry := Attempt j + 1\<rparr>\<rparr>"
  have c: "recoverable ?c" by (rule recoverable_config [OF c0(1)]) (simp add: c0(2))
  have v: "job_view (mgr ?c) ''a'' = Some j" "MaxRetry (config ?c) \<le> Attempt j + 1" using j by simp_all
  let ?c' = "timeout_job FlushOk 200 ''a'' ?c"
  obtain cr where cr: "reboot ?c' = Some cr"
    using reboot_ok [of ?c'] handler_frame(3) [of FlushOk 200 "''a''" ?c] by (auto simp: sample_cfg_def)
  obtain ord where "snapshot_order ord ?c"
    using c snapshot_order_exists by (auto simp: recoverable_def replays_to_def)
  then have ord: "snapshot_order ord ?c'" by (simp add: snapshot_order_def handler_frame)
  show ?thesis
    using timed_out_dead_job_revived [OF c v(1) j(2) v(2) refl cr ord, of 99] cr by auto
qed

section \<open>The queue after a recovery\<close>

lemma with_status_dom: "dom (with_status S jm) \<subseteq> dom (jobs jm)"
  by (auto simp: with_status_def split: option.splits if_splits)

lemma requeue_all_queue:
  assumes "jm_inv jm" and "distinct ids" and "\<And>i. i \<in> set ids \<Longrightarrow> job_status jm i = Some StatusInFlight"
  shows "queue (requeue_all now ids jm) = queue jm @ ids"
  using assms
proof (induction ids arbitrary: jm)
  case Nil
  then show ?case by simp
next
  case (Cons i ids)
  obtain jm' where jm': "Requeue now i jm = Inr jm'" "job_status jm' = (job_status jm)(i \<mapsto> StatusPending)"
    using jm_store.requeue_ok [OF Cons.prems(1)] Cons.prems(3) [of i] by auto
  have inv: "jm_inv jm'" by (rule Requeue_inv [OF Cons.prems(1) jm'(1)])
  have "job_status jm' k = Some StatusInFlight" if "k \<in> set ids" for k
    using that jm'(2) Cons.prems(2) Cons.prems(3) [of k] by auto
  then show ?case
    using Cons.IH [OF inv] Cons.prems(2) jm'(1) status_op_queue(3) [OF jm'(1)] by (simp add: logged_def)
qed

lemma requeue_all_inv: "jm_inv jm \<Longrightarrow> jm_inv (requeue_all now ids jm)"
  by (induction ids arbitrary: jm) (auto simp: logged_def intro: Requeue_inv split: sum.split)

text \<open>Replay appends to the queue and takes nothing out of it.\<close>

lemma replay_handler_queue:
  "replay_handler now T e jm = (err, jm') \<Longrightarrow> \<exists>new. queue jm' = queue jm @ new"
  by (auto simp: replay_handler_def returned_def status_op_queue Let_def
      split: EventType.splits if_splits sum.splits)

lemma handle_all_queue:
  "handle_all (replay_handler now T) es jm = (err, jm') \<Longrightarrow> \<exists>new. queue jm' = queue jm @ new"
proof (induction es arbitrary: jm)
  case Nil
  then show ?case by simp
next
  case (Cons e es)
  obtain err1 jm1 where h: "replay_handler now T e jm = (err1, jm1)" by fastforce
  obtain new where new: "queue jm1 = queue jm @ new" using replay_handler_queue [OF h] by blast
  have "\<exists>new. queue jm' = queue jm1 @ new"
    using Cons.prems h Cons.IH [of jm1] by (cases err1) auto
  then show ?case using new by auto
qed

lemma recovered_queue:
  assumes "recoverable c" and "Load False (snap c) = Inr d" and "reboot c = Some cr" and "snapshot_order ord c"
  shows "\<exists>c3. recover False ord now cr = Inr c3 \<and> jm_inv (mgr c3) \<and> job_status (mgr c3) = job_status (mgr c) \<and>
    (\<forall>i. map_option Status (Jobs d i) = Some StatusPending \<longrightarrow> i \<in> set (queue (mgr c3)))"
proof -
  have rep: "replays_to c (job_status (mgr c))" and good: "wal_good (wal c)"
    using assms(1) by (simp_all add: recoverable_def wal_live_def)
  obtain c3 where c3: "recover False ord now cr = Inr c3" "jm_inv (mgr c3)" "job_status (mgr c3) = job_status (mgr c)"
    using recover_to [OF rep good assms(3,4)] by blast
  have en: "enumerates ord (Jobs d)" using assms(2,4) by (simp add: snapshot_order_def)
  note S = reboot_simps [OF assms(3) good]
  obtain err jm where r: "Replay (replay_handler now (TaskTimeout (config c))) (wal c) (Restore ord d NewJobManager) = (err, jm)"
    by fastforce
  have "Replay (replay_handler now (TaskTimeout (config c))) (wal cr) (Restore ord d NewJobManager) = (err, jm)"
    using r S(1) by (simp add: Replay_def)
  then have "recover False ord now cr = (case err of Some e \<Rightarrow> Inl e | None \<Rightarrow> Inr (cr\<lparr>mgr := jm\<rparr>))"
    using S(2-4) assms(2) by (simp add: recover_def loadSnapshot_def replayWAL_def split: option.split)
  then have jm: "jm = mgr c3" using c3(1) by (cases err) auto
  have "\<exists>new. queue jm = queue (Restore ord d NewJobManager) @ new"
    by (rule handle_all_queue [OF r [unfolded Replay_good [OF good]]])
  then have "set (queue (Restore ord d NewJobManager)) \<subseteq> set (queue (mgr c3))" using jm by auto
  then show ?thesis using c3 Restore_queue(2) [OF en, of NewJobManager] by blast
qed

text \<open>The queue after a start: what recovery left in it, and then the in-flight jobs.\<close>

lemma Start_queue:
  assumes "recover False ord now cr = Inr c3" and inv: "jm_inv (mgr c3)" and ord': "enumerates ord' (inFlight (mgr c3))"
  shows "\<exists>c4 ids. Start False ord ord' now cr = Inr c4 \<and> job_status (mgr c4) = requeued (job_status (mgr c3)) \<and>
    queue (mgr c4) = queue (mgr c3) @ ids \<and> distinct ids \<and> set ids = {i. job_status (mgr c3) i = Some StatusInFlight} \<and>
    (length (queue (mgr c4)) \<le> 10 \<longrightarrow> fst (dispatch_pop c4) = map (\<lambda>i. the (jobs (mgr c4) i)) (queue (mgr c4)))"
proof -
  let ?ids = "GetAllInFlightJobs ord' (mgr c3)"
  obtain c4 where c4: "Start False ord ord' now cr = Inr c4" "job_status (mgr c4) = requeued (job_status (mgr c3))"
    using Start_requeues [OF assms] by blast
  have m4: "mgr c4 = requeue_all now ?ids (mgr c3)" using c4(1) assms(1) by (auto simp: Start_def)
  have ids: "set ?ids = {i. job_status (mgr c3) i = Some StatusInFlight}" "distinct ?ids"
    using GetAllInFlightJobs_set [OF inv ord'] GetAllInFlightJobs_distinct [OF ord'] by (auto simp: job_status_def)
  have q: "queue (mgr c4) = queue (mgr c3) @ ?ids" unfolding m4 by (rule requeue_all_queue [OF inv ids(2)]) (use ids(1) in auto)
  have "jm_inv (mgr c4)" using requeue_all_inv [OF inv] m4 by simp
  then have "set (queue (mgr c4)) \<subseteq> dom (jobs (mgr c4))" using jm_inv_queue by blast
  then have "fst (dispatch_pop c4) = map (\<lambda>i. the (jobs (mgr c4) i)) (take 10 (queue (mgr c4)))"
    by (simp add: dispatch_pop_def pop_batch_char)
  then show ?thesis using c4 q ids by (intro exI [of _ c4] exI [of _ ?ids]) simp
qed

text \<open>Recovery puts finished work back into the queue: replay moves statuses and never takes an ID
  out of the queue the snapshot filled, so a job that was pending in the snapshot and has been
  completed since is completed and queued after the restart, and the dispatch loop, which does not
  look at the status, takes it out of the queue for another execution.\<close>

theorem completed_job_queued_again:
  assumes "recoverable c" and "Load False (snap c) = Inr d" and "map_option Status (Jobs d i) = Some StatusPending"
    and "job_status (mgr c) i = Some StatusCompleted"
    and "reboot c = Some cr" and "snapshot_order ord c"
  shows "\<exists>c3. recover False ord now cr = Inr c3 \<and> (\<forall>ord'. enumerates ord' (inFlight (mgr c3)) \<longrightarrow>
    (\<exists>c4. Start False ord ord' now cr = Inr c4 \<and> job_status (mgr c4) i = Some StatusCompleted \<and>
       i \<in> set (queue (mgr c4)) \<and>
       (length (queue (mgr c4)) \<le> 10 \<longrightarrow> the (jobs (mgr c4) i) \<in> set (fst (dispatch_pop c4)))))"
proof -
  obtain c3 where c3: "recover False ord now cr = Inr c3" "jm_inv (mgr c3)" "job_status (mgr c3) = job_status (mgr c)"
    "i \<in> set (queue (mgr c3))" using recovered_queue [OF assms(1,2,5,6), of now] assms(3) by blast
  have "\<exists>c4. Start False ord ord' now cr = Inr c4 \<and> job_status (mgr c4) i = Some StatusCompleted \<and>
       i \<in> set (queue (mgr c4)) \<and>
       (length (queue (mgr c4)) \<le> 10 \<longrightarrow> the (jobs (mgr c4) i) \<in> set (fst (dispatch_pop c4)))"
    if "enumerates ord' (inFlight (mgr c3))" for ord'
    using Start_queue [OF c3(1,2) that] c3(3,4) assms(4) by (force simp: requeued_def)
  then show ?thesis using c3(1) by blast
qed

text \<open>C24. A job in flight is executed twice after a crash. The controller is one whose files replay to the
  statuses it has (as after a checkpoint and a clean run). The snapshot has the job pending, so loading it queues the
  job; replaying its DISPATCH does not take it out of the queue; and \<open>Start\<close> queues it again because it
  was in flight. It is then listed twice, and a dispatch loop that finds at most ten jobs queued takes both
  entries in one batch and submits both.\<close>

theorem in_flight_job_queued_twice:
  assumes "recoverable c" and "Load False (snap c) = Inr d" and "map_option Status (Jobs d i) = Some StatusPending"
    and "job_status (mgr c) i = Some StatusInFlight"
    and "reboot c = Some cr" and "snapshot_order ord c"
  shows "\<exists>c3. recover False ord now cr = Inr c3 \<and> (\<forall>ord'. enumerates ord' (inFlight (mgr c3)) \<longrightarrow>
    (\<exists>c4. Start False ord ord' now cr = Inr c4 \<and> job_status (mgr c4) i = Some StatusPending \<and>
       2 \<le> count_list (queue (mgr c4)) i \<and>
       (length (queue (mgr c4)) \<le> 10 \<longrightarrow> 2 \<le> count_list (fst (dispatch_pop c4)) (the (jobs (mgr c4) i)))))"
proof -
  obtain c3 where c3: "recover False ord now cr = Inr c3" "jm_inv (mgr c3)" "job_status (mgr c3) = job_status (mgr c)"
    "i \<in> set (queue (mgr c3))" using recovered_queue [OF assms(1,2,5,6), of now] assms(3) by blast
  have "\<exists>c4. Start False ord ord' now cr = Inr c4 \<and> job_status (mgr c4) i = Some StatusPending \<and>
       2 \<le> count_list (queue (mgr c4)) i \<and>
       (length (queue (mgr c4)) \<le> 10 \<longrightarrow> 2 \<le> count_list (fst (dispatch_pop c4)) (the (jobs (mgr c4) i)))"
    if en: "enumerates ord' (inFlight (mgr c3))" for ord'
  proof -
    obtain c4 ids where c4: "Start False ord ord' now cr = Inr c4" "job_status (mgr c4) = requeued (job_status (mgr c3))"
      "queue (mgr c4) = queue (mgr c3) @ ids" "set ids = {i. job_status (mgr c3) i = Some StatusInFlight}"
      "length (queue (mgr c4)) \<le> 10 \<longrightarrow> fst (dispatch_pop c4) = map (\<lambda>i. the (jobs (mgr c4) i)) (queue (mgr c4))"
      using Start_queue [OF c3(1,2) en] by blast
    have "i \<in> set ids" using c4(4) c3(3) assms(4) by simp
    then have two: "2 \<le> count_list (queue (mgr c3) @ ids) i"
      using c3(4) count_list_0_iff [of "queue (mgr c3)" i] count_list_0_iff [of ids i] unfolding count_list_append by linarith
    have map: "count_list xs i \<le> count_list (map f xs) (f i)" for f :: "JobID \<Rightarrow> addr" and xs by (induction xs) auto
    have "2 \<le> count_list (map (\<lambda>i. the (jobs (mgr c4) i)) (queue (mgr c4))) (the (jobs (mgr c4) i))"
      using two map [of "queue (mgr c4)" "\<lambda>i. the (jobs (mgr c4) i)"] c4(3) by (metis le_trans)
    then show ?thesis using c4 two c3(3) assms(4) by (intro exI [of _ c4]) (auto simp: requeued_def)
  qed
  then show ?thesis using c3(1) by blast
qed

lemma handleResult_ack:
  assumes "recoverable c" and "job_status (mgr c) i = Some StatusInFlight"
  shows "job_status (mgr (handleResult FlushOk now \<lparr>ResultID = i, Success = True, Duration = t\<rparr> c)) =
    (job_status (mgr c))(i \<mapsto> StatusCompleted)"
proof -
  obtain a where a: "jobs (mgr c) i = Some a" using status_address [OF recoverable_D(1) [OF assms(1)] assms(2)] by blast
  obtain jm' where "MarkCompleted now i (mgr c) = Inr jm'" "job_status jm' = (job_status (mgr c))(i \<mapsto> StatusCompleted)"
    using completed_step [OF recoverable_D(1) [OF assms(1)] assms(2)] by blast
  moreover obtain w where "Append FlushOk now EventAck (heap (mgr c) a) (wal c) = (None, w)"
    using Append_live [OF recoverable_D(2) [OF assms(1)]] by blast
  ultimately show ?thesis using a by (simp add: handleResult_def GetJob_def logged_def)
qed

lemma sample_dispatched:
  "\<exists>c d. recoverable c \<and> config c = sample_cfg \<and> Load False (snap c) = Inr d \<and>
    map_option Status (Jobs d ''a'') = Some StatusPending \<and> job_status (mgr c) ''a'' = Some StatusInFlight"
proof -
  obtain c1 where c1: "recoverable c1" "config c1 = sample_cfg" "\<not> ctl_stopped c1" "queue (mgr c1) = [''a'']"
    "job_status (mgr c1) = [''a'' \<mapsto> StatusPending]" "\<exists>c0. takeSnapshot None RotateOk 5 c0 = (None, c1) \<and> \<not> raftEnabled c0 \<and> jm_ok (mgr c0)"
    using sample_ready by blast
  obtain c0 where c0: "takeSnapshot None RotateOk 5 c0 = (None, c1)" "\<not> raftEnabled c0" "jm_ok (mgr c0)" using c1(6) by blast
  have "mgr c1 = mgr c0" using takeSnapshot_recoverable [OF c0(3,2,1)] by blast
  obtain d where d: "Load False (snap c1) = Inr d" "Jobs d ''a'' = map_option json_job (job_view (mgr c0) ''a'')"
    using c0(1,2)
    by (auto simp: takeSnapshot_def snapshot_save_def snapshot_copy_def Write_ok Load_def Snapshot_def
        split: prod.splits)
  have pend: "map_option Status (Jobs d ''a'') = Some StatusPending"
    using d(2) c1(5) \<open>mgr c1 = mgr c0\<close> by (simp add: option.map_comp o_def job_status_def fun_eq_iff)
  obtain r c2 where p: "Poll (\<lambda>_. FlushOk) 7 1 c1 = (r, c2)" by fastforce
  have c2: "recoverable c2" "job_status (mgr c2) ''a'' = Some StatusInFlight"
    using Poll_recoverable [OF c1(1,3) p] c1(4) by auto
  have f2: "config c2 = config c1" "snap c2 = snap c1"
    using p by (auto simp: Poll_def poll_loop_phases split: if_splits prod.splits)
  show ?thesis using d(1) pend f2 c1(2) c2 by (intro exI [of _ c2] exI [of _ d]) simp
qed

lemma sample_completed:
  "\<exists>c d. recoverable c \<and> config c = sample_cfg \<and> Load False (snap c) = Inr d \<and>
    map_option Status (Jobs d ''a'') = Some StatusPending \<and> job_status (mgr c) ''a'' = Some StatusCompleted"
proof -
  obtain c2 d where c2: "recoverable c2" "job_status (mgr c2) ''a'' = Some StatusInFlight" "config c2 = sample_cfg"
    "Load False (snap c2) = Inr d" "map_option Status (Jobs d ''a'') = Some StatusPending" using sample_dispatched by blast
  let ?r = "\<lparr>ResultID = ''a'', Success = True, Duration = 1\<rparr>"
  let ?c3 = "handleResult FlushOk 9 ?r c2"
  have "recoverable ?c3" using handleResult_recoverable [OF c2(1), of ?r 9] c2(2) by simp
  moreover have "job_status (mgr ?c3) ''a'' = Some StatusCompleted" using handleResult_ack [OF c2(1,2), of 9 1] by simp
  ultimately show ?thesis
    using c2(3-5) handler_frame(1,2) [of FlushOk 9 ?r c2] by (intro exI [of _ ?c3] exI [of _ d]) simp
qed

text \<open>After any recovery there is an order in which the in-flight jobs may be walked.\<close>

lemma in_flight_order:
  assumes "jm_inv jm"
  shows "\<exists>ord. enumerates ord (inFlight jm)"
proof -
  have "inFlight jm = with_status {StatusInFlight} jm" "finite (dom (jobs jm))"
    using assms by (simp_all add: inFlight_eq jm_inv_finite)
  then have "finite (dom (inFlight jm))" by (metis finite_subset with_status_dom)
  then show ?thesis by (rule enumerates_exists)
qed

lemma completed_job_queued_again_witness:
  "\<exists>c cr ord c3 ord' c4. job_status (mgr c) ''a'' = Some StatusCompleted \<and> reboot c = Some cr \<and>
    recover False ord 99 cr = Inr c3 \<and> enumerates ord' (inFlight (mgr c3)) \<and> Start False ord ord' 99 cr = Inr c4 \<and>
    job_status (mgr c4) ''a'' = Some StatusCompleted \<and> ''a'' \<in> set (queue (mgr c4))"
proof -
  obtain c d where c: "recoverable c" "config c = sample_cfg" "Load False (snap c) = Inr d"
    "map_option Status (Jobs d ''a'') = Some StatusPending" "job_status (mgr c) ''a'' = Some StatusCompleted"
    using sample_completed by blast
  have rep: "replays_to c (job_status (mgr c))" and good: "wal_good (wal c)"
    using c(1) by (simp_all add: recoverable_def wal_live_def)
  obtain cr where cr: "reboot c = Some cr" using sample_reboot [OF c(2)] by blast
  obtain ord where ord: "snapshot_order ord c" using rep snapshot_order_exists by (auto simp: replays_to_def)
  obtain c3 where c3: "recover False ord 99 cr = Inr c3" "\<forall>ord'. enumerates ord' (inFlight (mgr c3)) \<longrightarrow>
    (\<exists>c4. Start False ord ord' 99 cr = Inr c4 \<and> job_status (mgr c4) ''a'' = Some StatusCompleted \<and>
       ''a'' \<in> set (queue (mgr c4)))"
    using completed_job_queued_again [OF c(1,3-5) cr ord, of 99] by blast
  have "jm_inv (mgr c3)" using recover_to [OF rep good cr ord, of 99] c3(1) by auto
  then obtain ord' where ord': "enumerates ord' (inFlight (mgr c3))" using in_flight_order by blast
  then obtain c4 where "Start False ord ord' 99 cr = Inr c4" "job_status (mgr c4) ''a'' = Some StatusCompleted"
    "''a'' \<in> set (queue (mgr c4))" using c3(2) by blast
  then show ?thesis using c(5) cr c3(1) ord' by blast
qed

lemma in_flight_job_queued_twice_witness:
  "\<exists>c cr ord ord' c4. job_status (mgr c) ''a'' = Some StatusInFlight \<and> reboot c = Some cr \<and>
    Start False ord ord' 99 cr = Inr c4 \<and> 2 \<le> count_list (queue (mgr c4)) ''a''"
proof -
  obtain c d where c: "recoverable c" "config c = sample_cfg" "Load False (snap c) = Inr d"
    "map_option Status (Jobs d ''a'') = Some StatusPending" "job_status (mgr c) ''a'' = Some StatusInFlight"
    using sample_dispatched by blast
  have rep: "replays_to c (job_status (mgr c))" and good: "wal_good (wal c)"
    using c(1) by (simp_all add: recoverable_def wal_live_def)
  obtain cr where cr: "reboot c = Some cr" using sample_reboot [OF c(2)] by blast
  obtain ord where ord: "snapshot_order ord c" using rep snapshot_order_exists by (auto simp: replays_to_def)
  obtain c3 where c3: "recover False ord 99 cr = Inr c3" "\<forall>ord'. enumerates ord' (inFlight (mgr c3)) \<longrightarrow>
    (\<exists>c4. Start False ord ord' 99 cr = Inr c4 \<and> 2 \<le> count_list (queue (mgr c4)) ''a'')"
    using in_flight_job_queued_twice [OF c(1,3-5) cr ord, of 99] by blast
  have "jm_inv (mgr c3)" using recover_to [OF rep good cr ord, of 99] c3(1) by auto
  then obtain ord' where "enumerates ord' (inFlight (mgr c3))" using in_flight_order by blast
  then show ?thesis using c(5) cr c3(2) by blast
qed

end
