(* ===== verification/Raft.thy ===== *)
theory Raft
  imports Prelude
begin

text \<open>
  The Raft node of \<open>internal/raft\<close> (\<open>log.go\<close>, \<open>raft.go\<close>, \<open>rpc.go\<close>). The node's mutex makes every
  handler atomic; a goroutine that releases it around a call to a peer is split at that call. An
  outcome \<^term>\<open>None\<close> is a panic. Terms and indexes are \<open>int64\<close> in the code and unbounded
  here: they grow by one per election and per entry. Timers only decide when a handler runs.
\<close>

section \<open>The log store\<close>

type_synonym command = string

record LogEntry =
  Term :: int
  Index :: int
  Command :: command

text \<open>
  \<open>MemoryLogStore\<close> keeps the entries in a slice and reads \<open>entries[0]\<close> and
  \<open>entries[len-1]\<close> without a check.
\<close>

definition NewMemoryLogStore :: "LogEntry list" where
  "NewMemoryLogStore = [\<lparr>Term = 0, Index = 0, Command = []\<rparr>]"

definition FirstIndex :: "LogEntry list \<Rightarrow> int option" where
  "FirstIndex entries = (case entries of [] \<Rightarrow> None | e # es \<Rightarrow> Some (Index e))"

definition LastIndex :: "LogEntry list \<Rightarrow> int option" where
  "LastIndex entries = (if entries = [] then None else Some (Index (last entries)))"

definition GetLog :: "int \<Rightarrow> LogEntry list \<Rightarrow> LogEntry res option" where
  "GetLog index entries =
     (case FirstIndex entries of
        None \<Rightarrow> None
      | Some first \<Rightarrow>
          let offset = index - first
          in if offset < 0 \<or> int (length entries) \<le> offset then Some (Inl ErrLogNotFound)
             else Some (Inr (entries ! nat offset)))"

definition StoreLogs :: "LogEntry list \<Rightarrow> LogEntry list \<Rightarrow> LogEntry list" where
  "StoreLogs new entries = entries @ new"

definition StoreLog :: "LogEntry \<Rightarrow> LogEntry list \<Rightarrow> LogEntry list" where
  "StoreLog entry entries = StoreLogs [entry] entries"

definition DeleteRange :: "int \<Rightarrow> int \<Rightarrow> LogEntry list \<Rightarrow> LogEntry list" where
  "DeleteRange lo hi entries = filter (\<lambda>entry. Index entry < lo \<or> hi < Index entry) entries"

lemmas store_defs = FirstIndex_def LastIndex_def GetLog_def StoreLogs_def StoreLog_def DeleteRange_def

section \<open>The node\<close>

type_synonym node_id = string

datatype RaftState = Follower | Candidate | Leader

text \<open>
  \<open>nextIndex\<close> and \<open>matchIndex\<close> are Go maps read without a check: an absent key reads as 0.
  \<open>applied\<close> lists the messages sent on \<open>applyCh\<close>, the command and the index of each.
\<close>

record Raft =
  currentTerm :: int
  votedFor :: node_id
  logStore :: "LogEntry list"
  lastIncludedIndex :: int
  lastIncludedTerm :: int
  state :: RaftState
  leaderID :: node_id
  commitIndex :: int
  lastApplied :: int
  nextIndex :: "node_id \<Rightarrow> int"
  matchIndex :: "node_id \<Rightarrow> int"
  rid :: node_id
  Peers :: "node_id list"
  applied :: "(command \<times> int) list"

definition NewRaft :: "node_id \<Rightarrow> node_id list \<Rightarrow> LogEntry list \<Rightarrow> Raft" where
  "NewRaft i peers store =
     \<lparr>currentTerm = 0, votedFor = [], logStore = store, lastIncludedIndex = 0, lastIncludedTerm = 0,
      state = Follower, leaderID = [], commitIndex = 0, lastApplied = 0, nextIndex = (\<lambda>_. 0),
      matchIndex = (\<lambda>_. 0), rid = i, Peers = peers, applied = []\<rparr>"

definition convertToFollower :: "int \<Rightarrow> Raft \<Rightarrow> Raft" where
  "convertToFollower term rf = rf\<lparr>state := Follower, currentTerm := term, votedFor := []\<rparr>"

section \<open>RequestVote\<close>

record RequestVoteArgs =
  vTerm :: int
  vCandidateID :: node_id
  vLastLogIndex :: int
  vLastLogTerm :: int

record RequestVoteReply =
  rTerm :: int
  rVoteGranted :: bool

text \<open>The comparison of the logs is a TODO of the code: \<open>isUpToDate\<close> is the constant true.\<close>

definition RequestVote :: "RequestVoteArgs \<Rightarrow> Raft \<Rightarrow> RequestVoteReply \<times> Raft" where
  "RequestVote args rf =
     (if vTerm args < currentTerm rf then (\<lparr>rTerm = currentTerm rf, rVoteGranted = False\<rparr>, rf)
      else
        let rf1 = (if currentTerm rf < vTerm args
                   then rf\<lparr>currentTerm := vTerm args, state := Follower, votedFor := []\<rparr> else rf);
            canVote = (votedFor rf1 = [] \<or> votedFor rf1 = vCandidateID args);
            isUpToDate = True
        in if canVote \<and> isUpToDate
           then (\<lparr>rTerm = currentTerm rf1, rVoteGranted = True\<rparr>, rf1\<lparr>votedFor := vCandidateID args\<rparr>)
           else (\<lparr>rTerm = currentTerm rf1, rVoteGranted = False\<rparr>, rf1))"

section \<open>AppendEntries\<close>

record AppendEntriesArgs =
  aTerm :: int
  aLeaderID :: node_id
  aPrevLogIndex :: int
  aPrevLogTerm :: int
  aEntries :: "LogEntry list"
  aLeaderCommit :: int

record AppendEntriesReply =
  eTerm :: int
  eSuccess :: bool

text \<open>Step 3 and 4 of the handler: the loop over the entries, which ends at the first store.\<close>

fun append_loop :: "LogEntry list \<Rightarrow> int \<Rightarrow> LogEntry list \<Rightarrow> LogEntry list option" where
  "append_loop [] lastIndex store = Some store"
| "append_loop (entry # es) lastIndex store =
     (if Index entry \<le> lastIndex then
        (case GetLog (Index entry) store of
           None \<Rightarrow> None
         | Some (Inr existing) \<Rightarrow>
             if Term existing \<noteq> Term entry
             then Some (StoreLogs (entry # es) (DeleteRange (Index entry) lastIndex store))
             else append_loop es lastIndex store
         | Some (Inl err) \<Rightarrow> Some (StoreLogs (entry # es) store))
      else Some (StoreLogs (entry # es) store))"

text \<open>Step 2: does the log contradict the previous entry?\<close>

definition prev_mismatch :: "AppendEntriesArgs \<Rightarrow> LogEntry list \<Rightarrow> bool option" where
  "prev_mismatch args store =
     (if aPrevLogIndex args \<ge> 0 then
        (case GetLog (aPrevLogIndex args) store of
           None \<Rightarrow> None
         | Some (Inr prevEntry) \<Rightarrow> Some (Term prevEntry \<noteq> aPrevLogTerm args)
         | Some (Inl err) \<Rightarrow> Some False)
      else Some False)"

text \<open>Step 5. The applier is started as a goroutine: \<open>applyLogs\<close> below is its own step.\<close>

definition advance_commit :: "int \<Rightarrow> Raft \<Rightarrow> Raft option" where
  "advance_commit leaderCommit rf =
     (if commitIndex rf < leaderCommit then
        (case LastIndex (logStore rf) of
           None \<Rightarrow> None
         | Some newLastIndex \<Rightarrow>
             Some (rf\<lparr>commitIndex := (if leaderCommit < newLastIndex then leaderCommit else newLastIndex)\<rparr>))
      else Some rf)"

definition AppendEntries :: "AppendEntriesArgs \<Rightarrow> Raft \<Rightarrow> (AppendEntriesReply \<times> Raft) option" where
  "AppendEntries args rf =
     (let no = \<lparr>eTerm = currentTerm rf, eSuccess = False\<rparr> in
      if aTerm args < currentTerm rf then Some (no, rf)
      else
        let rf1 = (if currentTerm rf < aTerm args then convertToFollower (aTerm args) rf else rf)\<lparr>leaderID := aLeaderID args\<rparr>
        in case LastIndex (logStore rf1) of
             None \<Rightarrow> None
           | Some lastIndex \<Rightarrow>
               if lastIndex < aPrevLogIndex args then Some (no, rf1)
               else case prev_mismatch args (logStore rf1) of
                      None \<Rightarrow> None
                    | Some True \<Rightarrow> Some (no, rf1)
                    | Some False \<Rightarrow>
                        (case append_loop (aEntries args) lastIndex (logStore rf1) of
                           None \<Rightarrow> None
                         | Some store \<Rightarrow>
                             (case advance_commit (aLeaderCommit args) (rf1\<lparr>logStore := store\<rparr>) of
                                None \<Rightarrow> None
                              | Some rf2 \<Rightarrow> Some (\<lparr>eTerm = currentTerm rf, eSuccess = True\<rparr>, rf2))))"

section \<open>Applying\<close>

fun apply_loop :: "nat \<Rightarrow> Raft \<Rightarrow> Raft option" where
  "apply_loop 0 rf = Some rf"
| "apply_loop (Suc n) rf =
     (let rf1 = rf\<lparr>lastApplied := lastApplied rf + 1\<rparr>
      in case GetLog (lastApplied rf1) (logStore rf1) of
           None \<Rightarrow> None
         | Some (Inl err) \<Rightarrow> apply_loop n rf1
         | Some (Inr entry) \<Rightarrow> apply_loop n (rf1\<lparr>applied := applied rf1 @ [(Command entry, Index entry)]\<rparr>))"

text \<open>The loop runs while \<open>commitIndex > lastApplied\<close>: a known number of rounds.\<close>

definition applyLogs :: "Raft \<Rightarrow> Raft option" where
  "applyLogs rf = apply_loop (nat (commitIndex rf - lastApplied rf)) rf"

section \<open>The leader\<close>

text \<open>\<open>broadcastHeartbeats\<close> starts one \<open>replicateToPeer\<close> per peer: separate steps.\<close>

definition convertToLeader :: "Raft \<Rightarrow> Raft option" where
  "convertToLeader rf =
     (if state rf = Leader then Some rf
      else case LastIndex (logStore rf) of
             None \<Rightarrow> None
           | Some lastIndex \<Rightarrow>
               Some (rf\<lparr>state := Leader,
                 nextIndex := (\<lambda>p. if p \<in> set (Peers rf) \<and> p \<noteq> rid rf then lastIndex + 1 else nextIndex rf p),
                 matchIndex := (\<lambda>p. if p \<in> set (Peers rf) \<and> p \<noteq> rid rf then 0 else matchIndex rf p)\<rparr>))"

text \<open>The entries \<open>next..lastIndex\<close> the store can read.\<close>

definition read_range :: "int \<Rightarrow> int \<Rightarrow> LogEntry list \<Rightarrow> LogEntry list" where
  "read_range next lastIndex store =
     List.map_filter (\<lambda>i. case GetLog i store of Some (Inr entry) \<Rightarrow> Some entry | _ \<Rightarrow> None) [next..lastIndex]"

text \<open>The first half of \<open>replicateToPeer\<close>: nothing if the node is not the leader any more.\<close>

definition replicate_args :: "node_id \<Rightarrow> Raft \<Rightarrow> AppendEntriesArgs option option" where
  "replicate_args peer rf =
     (if state rf \<noteq> Leader then Some None
      else case LastIndex (logStore rf) of
             None \<Rightarrow> None
           | Some lastIndex \<Rightarrow>
               let next = min (nextIndex rf peer) (lastIndex + 1);
                   prevIndex = next - 1;
                   prevTerm = (if prevIndex \<ge> 0
                     then (case GetLog prevIndex (logStore rf) of Some (Inr prevEntry) \<Rightarrow> Term prevEntry | _ \<Rightarrow> 0) else 0)
               in Some (Some \<lparr>aTerm = currentTerm rf, aLeaderID = rid rf, aPrevLogIndex = prevIndex,
                    aPrevLogTerm = prevTerm, aEntries = read_range next lastIndex (logStore rf),
                    aLeaderCommit = commitIndex rf\<rparr>))"

definition ack_count :: "int \<Rightarrow> Raft \<Rightarrow> nat" where
  "ack_count n rf = Suc (length (filter (\<lambda>p. p \<noteq> rid rf \<and> n \<le> matchIndex rf p) (Peers rf)))"

text \<open>The search downwards from the last index, \<open>k\<close> places above the commit index.\<close>

fun commit_scan :: "nat \<Rightarrow> Raft \<Rightarrow> Raft option" where
  "commit_scan 0 rf = Some rf"
| "commit_scan (Suc k) rf =
     (let n = commitIndex rf + int (Suc k)
      in case GetLog n (logStore rf) of
           None \<Rightarrow> None
         | Some (Inr entry) \<Rightarrow>
             if length (Peers rf) div 2 < ack_count n rf \<and> Term entry = currentTerm rf
             then Some (rf\<lparr>commitIndex := n\<rparr>) else commit_scan k rf
         | Some (Inl err) \<Rightarrow> commit_scan k rf)"

definition updateCommitIndex :: "Raft \<Rightarrow> Raft option" where
  "updateCommitIndex rf =
     (case LastIndex (logStore rf) of
        None \<Rightarrow> None
      | Some lastIndex \<Rightarrow> commit_scan (nat (lastIndex - commitIndex rf)) rf)"

text \<open>The second half of \<open>replicateToPeer\<close>, with the arguments that were sent.\<close>

definition replicate_reply :: "node_id \<Rightarrow> AppendEntriesArgs \<Rightarrow> AppendEntriesReply \<Rightarrow> Raft \<Rightarrow> Raft option" where
  "replicate_reply peer args reply rf =
     (if state rf \<noteq> Leader \<or> aTerm args \<noteq> currentTerm rf then Some rf
      else if currentTerm rf < eTerm reply then Some (convertToFollower (eTerm reply) rf)
      else if eSuccess reply then
        let match = aPrevLogIndex args + int (length (aEntries args))
        in updateCommitIndex (rf\<lparr>matchIndex := (matchIndex rf)(peer := match),
                                 nextIndex := (nextIndex rf)(peer := match + 1)\<rparr>)
      else Some (rf\<lparr>nextIndex := (nextIndex rf)(peer := max 1 (nextIndex rf peer - 1))\<rparr>))"

definition Propose :: "command \<Rightarrow> Raft \<Rightarrow> ((int \<times> int \<times> bool) \<times> Raft) option" where
  "Propose command rf =
     (if state rf \<noteq> Leader then Some ((-1, -1, False), rf)
      else case LastIndex (logStore rf) of
             None \<Rightarrow> None
           | Some lastIndex \<Rightarrow>
               let entry = \<lparr>Term = currentTerm rf, Index = lastIndex + 1, Command = command\<rparr>
               in Some ((lastIndex + 1, currentTerm rf, True), rf\<lparr>logStore := StoreLog entry (logStore rf)\<rparr>))"

section \<open>Elections\<close>

text \<open>
  \<open>startElection\<close> dereferences the entry at the last index. The vote counter is a variable of the
  election, shared by the goroutines that ask the peers: it is an argument of \<open>vote_reply\<close>.
\<close>

definition startElection :: "Raft \<Rightarrow> (RequestVoteArgs \<times> Raft) option" where
  "startElection rf =
     (let rf1 = rf\<lparr>state := Candidate, currentTerm := currentTerm rf + 1, votedFor := rid rf\<rparr>
      in case LastIndex (logStore rf1) of
           None \<Rightarrow> None
         | Some lastIndex \<Rightarrow>
             (case GetLog lastIndex (logStore rf1) of
                Some (Inr lastLog) \<Rightarrow>
                  Some (\<lparr>vTerm = currentTerm rf1, vCandidateID = rid rf1, vLastLogIndex = lastIndex,
                         vLastLogTerm = Term lastLog\<rparr>, rf1)
              | _ \<Rightarrow> None))"

text \<open>The election timer's case in \<open>runElectionLoop\<close>.\<close>

definition election_timeout :: "Raft \<Rightarrow> (RequestVoteArgs option \<times> Raft) option" where
  "election_timeout rf =
     (if state rf = Leader then Some (None, rf)
      else case startElection rf of None \<Rightarrow> None | Some (args, rf') \<Rightarrow> Some (Some args, rf'))"

definition vote_reply :: "RequestVoteArgs \<Rightarrow> RequestVoteReply \<Rightarrow> nat \<Rightarrow> Raft \<Rightarrow> (nat \<times> Raft) option" where
  "vote_reply args reply votes rf =
     (if state rf \<noteq> Candidate \<or> vTerm args \<noteq> currentTerm rf then Some (votes, rf)
      else if currentTerm rf < rTerm reply then Some (votes, convertToFollower (rTerm reply) rf)
      else if rVoteGranted reply then
        (if length (Peers rf) div 2 < votes + 1
         then (case convertToLeader rf of None \<Rightarrow> None | Some rf' \<Rightarrow> Some (votes + 1, rf'))
         else Some (votes + 1, rf))
      else Some (votes, rf))"

section \<open>Compaction\<close>

definition Snapshot :: "int \<Rightarrow> Raft \<Rightarrow> Raft option" where
  "Snapshot index rf =
     (if index \<le> lastIncludedIndex rf then Some rf
      else case GetLog index (logStore rf) of
             None \<Rightarrow> None
           | Some (Inl err) \<Rightarrow> Some rf
           | Some (Inr entry) \<Rightarrow>
               (case FirstIndex (logStore rf) of
                  None \<Rightarrow> None
                | Some firstIndex \<Rightarrow>
                    Some (rf\<lparr>lastIncludedIndex := index, lastIncludedTerm := Term entry,
                             logStore := DeleteRange firstIndex index (logStore rf)\<rparr>)))"

end
