(* ===== verification/RaftLog.thy ===== *)
theory RaftLog
  imports Raft
begin

text \<open>
  The contract of the \<open>LogStore\<close> interface, the in-memory store as its provider, and what
  \<open>AppendEntries\<close> makes of a store that is in order. A store is seen as a partial function from
  indexes to entries.
\<close>

section \<open>The contract\<close>

text \<open>\<open>from_index b es\<close>: the entries carry the indexes b, b+1, and so on.\<close>

definition from_index :: "int \<Rightarrow> LogEntry list \<Rightarrow> bool" where
  "from_index b es \<longleftrightarrow> (\<forall>k < length es. Index (es ! k) = b + int k)"

lemma from_index_Nil [simp]: "from_index b []"
  by (simp add: from_index_def)

lemma from_indexD: "from_index b es \<Longrightarrow> k < length es \<Longrightarrow> Index (es ! k) = b + int k"
  by (simp add: from_index_def)

lemma from_index_Cons: "from_index b (e # es) \<longleftrightarrow> Index e = b \<and> from_index (b + 1) es"
proof
  assume *: "from_index b (e # es)"
  have "Index e = b" using * by (force simp: from_index_def)
  moreover have "from_index (b + 1) es" using * by (force simp: from_index_def)
  ultimately show "Index e = b \<and> from_index (b + 1) es" ..
next
  assume "Index e = b \<and> from_index (b + 1) es"
  then show "from_index b (e # es)"
    by (auto simp: from_index_def nth_Cons split: nat.split)
qed

lemma from_index_append:
  "from_index b (es @ fs) \<longleftrightarrow> from_index b es \<and> from_index (b + int (length es)) fs"
  by (induction es arbitrary: b) (auto simp: from_index_Cons algebra_simps)

locale log_store =
  fixes good :: "'l \<Rightarrow> bool"
    and view :: "'l \<Rightarrow> int \<Rightarrow> LogEntry option"
    and first_op :: "'l \<Rightarrow> int option"
    and last_op :: "'l \<Rightarrow> int option"
    and get_op :: "int \<Rightarrow> 'l \<Rightarrow> LogEntry res option"
    and store_op :: "LogEntry list \<Rightarrow> 'l \<Rightarrow> 'l"
    and delete_op :: "int \<Rightarrow> int \<Rightarrow> 'l \<Rightarrow> 'l"
  assumes bounds: "good l \<Longrightarrow> \<exists>f n. first_op l = Some f \<and> last_op l = Some n \<and> f \<le> n \<and>
      (\<forall>i. view l i \<noteq> None \<longleftrightarrow> f \<le> i \<and> i \<le> n)"
    and view_index: "good l \<Longrightarrow> view l i = Some e \<Longrightarrow> Index e = i"
    and get_ok: "good l \<Longrightarrow> get_op i l = Some (case view l i of None \<Rightarrow> Inl ErrLogNotFound | Some e \<Rightarrow> Inr e)"
    and store_ok: "good l \<Longrightarrow> last_op l = Some n \<Longrightarrow> from_index (n + 1) es \<Longrightarrow>
      good (store_op es l) \<and> view (store_op es l) = (\<lambda>i. if i \<le> n then view l i
        else if i \<le> n + int (length es) then Some (es ! nat (i - n - 1)) else None)"
    and cut_ok: "good l \<Longrightarrow> first_op l = Some f \<Longrightarrow> last_op l = Some n \<Longrightarrow> f < lo \<Longrightarrow> lo \<le> n \<Longrightarrow>
      good (delete_op lo n l) \<and> view (delete_op lo n l) = (\<lambda>i. if i < lo then view l i else None)"
    and compact_ok: "good l \<Longrightarrow> first_op l = Some f \<Longrightarrow> last_op l = Some n \<Longrightarrow> hi < n \<Longrightarrow>
      good (delete_op f hi l) \<and> view (delete_op f hi l) = (\<lambda>i. if hi < i then view l i else None)"
begin

lemma last_view: "good l \<Longrightarrow> last_op l = Some n \<Longrightarrow> \<exists>e. view l n = Some e"
  using bounds [of l] by auto

lemma view_None: "good l \<Longrightarrow> last_op l = Some n \<Longrightarrow> n < i \<Longrightarrow> view l i = None"
  using bounds [of l] by (metis leD option.inject)

lemma get_iff: "good l \<Longrightarrow> get_op i l = Some (Inr e) \<longleftrightarrow> view l i = Some e"
  by (auto simp: get_ok split: option.splits)

lemma get_total: "good l \<Longrightarrow> \<exists>r. get_op i l = Some r"
  by (simp add: get_ok)

lemma last_unique:
  assumes "good l" and "view l n \<noteq> None" and "\<forall>i > n. view l i = None"
  shows "last_op l = Some n"
proof -
  obtain f m where m: "last_op l = Some m" "f \<le> m" "\<And>i. view l i \<noteq> None \<longleftrightarrow> f \<le> i \<and> i \<le> m"
    using bounds [OF assms(1)] by blast
  have "\<not> n < m" using m(2) m(3) [of m] assms(3) by auto
  moreover have "n \<le> m" using m(3) [of n] assms(2) by simp
  ultimately show ?thesis using m(1) by simp
qed

lemma cut_last: "good l \<Longrightarrow> first_op l = Some f \<Longrightarrow> last_op l = Some n \<Longrightarrow> f < lo \<Longrightarrow> lo \<le> n \<Longrightarrow>
    last_op (delete_op lo n l) = Some (lo - 1)"
  using bounds [of l] cut_ok [of l f n lo] by (intro last_unique) auto

text \<open>Reading back what has been stored, and what was there before.\<close>

lemma store_get_new:
  assumes "good l" and "last_op l = Some n" and "Index e = n + 1"
  shows "get_op (n + 1) (store_op [e] l) = Some (Inr e)" "i \<le> n \<Longrightarrow> get_op i (store_op [e] l) = get_op i l"
  using store_ok [OF assms(1,2), of "[e]"] assms(3) by (simp_all add: get_ok assms(1) from_index_Cons)

text \<open>Replacing the tail from \<open>lo\<close> on: the step of a conflicting entry.\<close>

lemma replace_tail:
  assumes "good l" and "first_op l = Some f" and "last_op l = Some n" and "f < lo" and "lo \<le> n"
    and "from_index lo es"
  shows "good (store_op es (delete_op lo n l)) \<and> (\<forall>i. view (store_op es (delete_op lo n l)) i =
    (if i < lo then view l i else if i < lo + int (length es) then Some (es ! nat (i - lo)) else None))"
proof -
  note C = cut_ok [OF assms(1-5)] cut_last [OF assms(1-5)]
  have "from_index (lo - 1 + 1) es" using assms(6) by simp
  from store_ok [OF _ C(2) this] C(1) show ?thesis
    by (auto simp: algebra_simps)
qed

end

section \<open>The in-memory store is a provider\<close>

definition log_good :: "LogEntry list \<Rightarrow> bool" where
  "log_good es \<longleftrightarrow> es \<noteq> [] \<and> from_index (Index (hd es)) es"

definition log_view :: "LogEntry list \<Rightarrow> int \<Rightarrow> LogEntry option" where
  "log_view es i =
     (if es \<noteq> [] \<and> Index (hd es) \<le> i \<and> i < Index (hd es) + int (length es)
      then Some (es ! nat (i - Index (hd es))) else None)"

lemma NewMemoryLogStore_good: "log_good NewMemoryLogStore"
  by (simp add: log_good_def NewMemoryLogStore_def from_index_Cons)

lemma FirstIndex_hd: "es \<noteq> [] \<Longrightarrow> FirstIndex es = Some (Index (hd es))"
  by (cases es) (simp_all add: FirstIndex_def)

lemma LastIndex_good: "log_good es \<Longrightarrow> LastIndex es = Some (Index (hd es) + int (length es) - 1)"
  by (cases es rule: rev_cases)
    (auto simp: LastIndex_def log_good_def from_index_append from_index_Cons algebra_simps)

lemma GetLog_view: "es \<noteq> [] \<Longrightarrow> GetLog i es = Some (case log_view es i of None \<Rightarrow> Inl ErrLogNotFound | Some e \<Rightarrow> Inr e)"
  by (simp add: GetLog_def FirstIndex_hd log_view_def Let_def)

lemma log_view_index: "log_good es \<Longrightarrow> log_view es i = Some e \<Longrightarrow> Index e = i"
  by (auto simp: log_view_def log_good_def from_index_def split: if_splits)

text \<open>Deleting by index from a store in order is cutting the list.\<close>

lemma filter_low:
  "from_index b es \<Longrightarrow>
     filter (\<lambda>e. Index e < lo \<or> b + int (length es) - 1 < Index e) es = take (nat (lo - b)) es"
proof (induction es arbitrary: b)
  case Nil
  then show ?case by simp
next
  case (Cons e es)
  have e: "Index e = b" "from_index (b + 1) es" using Cons.prems by (simp_all add: from_index_Cons)
  have IH: "filter (\<lambda>e. Index e < lo \<or> b + int (length (e # es)) - 1 < Index e) es = take (nat (lo - (b + 1))) es"
    using Cons.IH [OF e(2)] by (simp add: algebra_simps)
  show ?case
  proof (cases "b < lo")
    case True
    then have "nat (lo - b) = Suc (nat (lo - (b + 1)))" by simp
    then show ?thesis using IH e True by (simp add: algebra_simps)
  next
    case False
    then show ?thesis using IH e by (simp add: algebra_simps)
  qed
qed

lemma filter_high:
  "from_index b es \<Longrightarrow> b0 \<le> b \<Longrightarrow>
     filter (\<lambda>e. Index e < b0 \<or> hi < Index e) es = drop (nat (hi - b + 1)) es"
proof (induction es arbitrary: b)
  case Nil
  then show ?case by simp
next
  case (Cons e es)
  have e: "Index e = b" "from_index (b + 1) es" using Cons.prems(1) by (simp_all add: from_index_Cons)
  have IH: "filter (\<lambda>e. Index e < b0 \<or> hi < Index e) es = drop (nat (hi - (b + 1) + 1)) es"
    using Cons.IH [OF e(2)] Cons.prems(2) by simp
  show ?case
  proof (cases "hi < b")
    case True
    then show ?thesis using IH e by simp
  next
    case False
    then have "nat (hi - b + 1) = Suc (nat (hi - (b + 1) + 1))" by simp
    then show ?thesis using IH e False Cons.prems(2) by simp
  qed
qed

lemma hd_take_drop: "from_index b es \<Longrightarrow> drop k es \<noteq> [] \<Longrightarrow> Index (hd (drop k es)) = b + int k"
  by (simp add: hd_drop_conv_nth from_index_def)

lemma from_index_drop: "from_index b es \<Longrightarrow> from_index (b + int k) (drop k es)"
  by (auto simp: from_index_def algebra_simps)

lemma from_index_take: "from_index b es \<Longrightarrow> from_index b (take k es)"
  by (simp add: from_index_def)

lemma view_from: "es \<noteq> [] \<Longrightarrow> Index (hd es) = b \<Longrightarrow>
    log_view es i = (if b \<le> i \<and> nat (i - b) < length es then Some (es ! nat (i - b)) else None)"
  by (auto simp: log_view_def nat_less_iff)

lemma log_store_good:
  assumes "log_good l" and "LastIndex l = Some n" and "from_index (n + 1) es"
  shows "log_good (StoreLogs es l)"
    and "log_view (StoreLogs es l) = (\<lambda>i. if i \<le> n then log_view l i
        else if i \<le> n + int (length es) then Some (es ! nat (i - n - 1)) else None)"
proof -
  have n: "n = Index (hd l) + int (length l) - 1" using assms(1,2) LastIndex_good by simp
  have l: "l \<noteq> []" "from_index (Index (hd l)) l" using assms(1) by (simp_all add: log_good_def)
  show "log_good (StoreLogs es l)"
    using l assms(3) n by (simp add: log_good_def StoreLogs_def from_index_append algebra_simps)
  show "log_view (StoreLogs es l) = (\<lambda>i. if i \<le> n then log_view l i
        else if i \<le> n + int (length es) then Some (es ! nat (i - n - 1)) else None)"
  proof
    fix i
    have "nat (i - Index (hd l)) - length l = nat (i - n - 1)" if "n < i" using that n by simp
    then show "log_view (StoreLogs es l) i = (if i \<le> n then log_view l i
        else if i \<le> n + int (length es) then Some (es ! nat (i - n - 1)) else None)"
      using l(1) n by (auto simp: log_view_def StoreLogs_def nth_append)
  qed
qed

lemma log_cut:
  assumes "log_good l" and "FirstIndex l = Some f" and "LastIndex l = Some n" and "f < lo" and "lo \<le> n"
  shows "log_good (DeleteRange lo n l)" and "log_view (DeleteRange lo n l) = (\<lambda>i. if i < lo then log_view l i else None)"
proof -
  have l: "l \<noteq> []" "from_index (Index (hd l)) l" using assms(1) by (simp_all add: log_good_def)
  have f: "f = Index (hd l)" and n: "n = Index (hd l) + int (length l) - 1"
    using assms(1-3) LastIndex_good FirstIndex_hd l(1) by simp_all
  have d: "DeleteRange lo n l = take (nat (lo - f)) l"
    using filter_low [OF l(2), of lo] by (simp add: DeleteRange_def f n)
  have k: "nat (lo - f) > 0" "hd (take (nat (lo - f)) l) = hd l" using assms(4) l(1) by simp_all
  show "log_good (DeleteRange lo n l)"
    using l k from_index_take [OF l(2)] by (simp add: log_good_def d)
  have ne: "take (nat (lo - f)) l \<noteq> []" "Index (hd (take (nat (lo - f)) l)) = f" using l(1) k f by simp_all
  show "log_view (DeleteRange lo n l) = (\<lambda>i. if i < lo then log_view l i else None)"
  proof
    fix i
    have "(f \<le> i \<and> nat (i - f) < length (take (nat (lo - f)) l)) = (i < lo \<and> f \<le> i \<and> nat (i - f) < length l)"
      using assms(4) by auto
    then show "log_view (DeleteRange lo n l) i = (if i < lo then log_view l i else None)"
      unfolding d view_from [OF ne] view_from [OF l(1) f [symmetric]] by auto
  qed
qed

lemma log_compact:
  assumes "log_good l" and "FirstIndex l = Some f" and "LastIndex l = Some n" and "hi < n"
  shows "log_good (DeleteRange f hi l)" and "log_view (DeleteRange f hi l) = (\<lambda>i. if hi < i then log_view l i else None)"
proof -
  have l: "l \<noteq> []" "from_index (Index (hd l)) l" using assms(1) by (simp_all add: log_good_def)
  have f: "f = Index (hd l)" and n: "n = Index (hd l) + int (length l) - 1"
    using assms(1-3) LastIndex_good FirstIndex_hd l(1) by simp_all
  let ?k = "nat (hi - f + 1)"
  have d: "DeleteRange f hi l = drop ?k l"
    using filter_high [OF l(2), of f hi] by (simp add: DeleteRange_def f)
  have "0 < length l" using l(1) by simp
  then have k: "?k < length l" using assms(4) n f by linarith
  have h: "Index (hd (drop ?k l)) = f + int ?k" using hd_take_drop [OF l(2), of ?k] k f by simp
  have ne: "drop ?k l \<noteq> []" using k by simp
  have "from_index (f + int ?k) (drop ?k l)" unfolding f by (rule from_index_drop [OF l(2)])
  then show "log_good (DeleteRange f hi l)" unfolding d log_good_def h using ne by blast
  show "log_view (DeleteRange f hi l) = (\<lambda>i. if hi < i then log_view l i else None)"
  proof
    fix i
    have "log_view (drop ?k l) i = (if hi < i then log_view l i else None)"
    proof (cases "hi < i \<and> f \<le> i")
      case True
      then have "?k + nat (i - (f + int ?k)) = nat (i - f)" by auto
      moreover have "(nat (i - (f + int ?k)) < length (drop ?k l)) = (nat (i - f) < length l)" using True k by auto
      moreover have "f + int ?k \<le> i" using True by auto
      ultimately show ?thesis
        using True k unfolding view_from [OF ne h] view_from [OF l(1) f [symmetric]] by simp
    next
      case False
      then have "\<not> f + int ?k \<le> i \<or> \<not> f \<le> i" by auto
      then show ?thesis
        using False unfolding view_from [OF ne h] view_from [OF l(1) f [symmetric]] by auto
    qed
    then show "log_view (DeleteRange f hi l) i = (if hi < i then log_view l i else None)" unfolding d .
  qed
qed

interpretation mem_log: log_store log_good log_view FirstIndex LastIndex GetLog StoreLogs DeleteRange
proof unfold_locales
  show "\<exists>f n. FirstIndex l = Some f \<and> LastIndex l = Some n \<and> f \<le> n \<and> (\<forall>i. (log_view l i \<noteq> None) = (f \<le> i \<and> i \<le> n))"
    if "log_good l" for l
  proof -
    have "l \<noteq> []" using that by (simp add: log_good_def)
    then have "0 < length l" by simp
    then show ?thesis
      using LastIndex_good [OF that] FirstIndex_hd [OF \<open>l \<noteq> []\<close>] by (auto simp: log_view_def)
  qed
  show "log_good l \<Longrightarrow> GetLog i l = Some (case log_view l i of None \<Rightarrow> Inl ErrLogNotFound | Some e \<Rightarrow> Inr e)" for l i
    by (rule GetLog_view) (simp add: log_good_def)
  show "log_good l \<Longrightarrow> log_view l i = Some e \<Longrightarrow> Index e = i" for l i e
    by (rule log_view_index)
  show "log_good (StoreLogs es l) \<and> log_view (StoreLogs es l) = (\<lambda>i. if i \<le> n then log_view l i
        else if i \<le> n + int (length es) then Some (es ! nat (i - n - 1)) else None)"
    if "log_good l" "LastIndex l = Some n" "from_index (n + 1) es" for l n es
    using log_store_good [OF that] by (rule conjI)
  show "log_good (DeleteRange lo n l) \<and> log_view (DeleteRange lo n l) = (\<lambda>i. if i < lo then log_view l i else None)"
    if "log_good l" "FirstIndex l = Some f" "LastIndex l = Some n" "f < lo" "lo \<le> n" for l f n lo
    using log_cut [OF that] by (rule conjI)
  show "log_good (DeleteRange f hi l) \<and> log_view (DeleteRange f hi l) = (\<lambda>i. if hi < i then log_view l i else None)"
    if "log_good l" "FirstIndex l = Some f" "LastIndex l = Some n" "hi < n" for l f n hi
    using log_compact [OF that] by (rule conjI)
qed

end
