(* ===== verification/RaftProps.thy ===== *)
theory RaftProps
  imports RaftLog
begin

text \<open>
  One node: what \<open>AppendEntries\<close> leaves in the log, when entries are committed and applied, and
  what compaction breaks.
\<close>

section \<open>Appending\<close>

lemma log_bounds:
  assumes "log_good l"
  obtains f n where "FirstIndex l = Some f" "LastIndex l = Some n" "f \<le> n"
    "\<And>i. log_view l i \<noteq> None \<longleftrightarrow> f \<le> i \<and> i \<le> n"
  using mem_log.bounds [OF assms] by blast

text \<open>The sent entries against a log from index \<open>s\<close> on: no position holds another term, and every position
  holds the sent term.\<close>

definition no_conflict :: "int \<Rightarrow> LogEntry list \<Rightarrow> LogEntry list \<Rightarrow> bool" where
  "no_conflict s es st \<longleftrightarrow> (\<forall>k < length es. \<forall>x. log_view st (s + int k) = Some x \<longrightarrow> Term x = Term (es ! k))"

definition holds_terms :: "int \<Rightarrow> LogEntry list \<Rightarrow> LogEntry list \<Rightarrow> bool" where
  "holds_terms s es st \<longleftrightarrow> (\<forall>k < length es. \<exists>x. log_view st (s + int k) = Some x \<and> Term x = Term (es ! k))"

lemma all_less_Suc_cons: "(\<forall>k < length (e # es). P k ((e # es) ! k)) \<longleftrightarrow> P 0 e \<and> (\<forall>k < length es. P (Suc k) (es ! k))"
  by (auto simp: nth_Cons split: nat.split)

lemma no_conflict_Cons: "no_conflict s (e # es) st \<longleftrightarrow>
    (\<forall>x. log_view st s = Some x \<longrightarrow> Term x = Term e) \<and> no_conflict (s + 1) es st"
  unfolding no_conflict_def
    all_less_Suc_cons [of e es "\<lambda>k y. \<forall>x. log_view st (s + int k) = Some x \<longrightarrow> Term x = Term y"]
  by (simp add: algebra_simps)

lemma holds_terms_Cons: "holds_terms s (e # es) st \<longleftrightarrow>
    (\<exists>x. log_view st s = Some x \<and> Term x = Term e) \<and> holds_terms (s + 1) es st"
  unfolding holds_terms_def
    all_less_Suc_cons [of e es "\<lambda>k y. \<exists>x. log_view st (s + int k) = Some x \<and> Term x = Term y"]
  by (simp add: algebra_simps)

text \<open>What the loop makes of a store: the store in order again, the same below \<open>s\<close>, the sent terms from
  there on, and nothing lost without a conflict.\<close>

definition installs :: "int \<Rightarrow> LogEntry list \<Rightarrow> LogEntry list \<Rightarrow> LogEntry list \<Rightarrow> bool" where
  "installs s es st st' \<longleftrightarrow> log_good st' \<and> (\<forall>i < s. log_view st' i = log_view st i) \<and> holds_terms s es st' \<and>
     (no_conflict s es st \<longrightarrow> (\<forall>i x. log_view st i = Some x \<longrightarrow> log_view st' i = Some x))"

lemma append_loop_spec:
  assumes good: "log_good st" "LastIndex st = Some n" "FirstIndex st = Some f"
  shows "f < s \<Longrightarrow> s \<le> n + 1 \<Longrightarrow> from_index s es \<Longrightarrow> \<exists>st'. append_loop es n st = Some st' \<and> installs s es st st'"
proof (induction es arbitrary: s)
  case Nil
  then show ?case using good by (simp add: installs_def holds_terms_def)
next
  case (Cons e es)
  have e: "Index e = s" "from_index (s + 1) es" "from_index s (e # es)"
    using Cons.prems(3) by (simp_all add: from_index_Cons)
  show ?case
  proof (cases "s \<le> n")
    case True
    have "log_view st s \<noteq> None" using mem_log.bounds [OF good(1)] good(2,3) Cons.prems(1) True by auto
    then obtain x where x: "log_view st s = Some x" by blast
    have get: "GetLog s st = Some (Inr x)" using mem_log.get_iff [OF good(1)] x by blast
    show ?thesis
    proof (cases "Term x = Term e")
      case same: True
      obtain st' where st': "append_loop es n st = Some st'" "installs (s + 1) es st st'"
        using Cons.IH [of "s + 1"] Cons.prems(1) True e(2) by auto
      have "append_loop (e # es) n st = Some st'" using st'(1) True e(1) get same by simp
      moreover have "log_view st' s = Some x" using st'(2) x by (simp add: installs_def)
      ultimately show ?thesis
        using st'(2) same x by (auto simp: installs_def holds_terms_Cons no_conflict_Cons)
    next
      case False
      let ?st = "StoreLogs (e # es) (DeleteRange s n st)"
      have R: "log_good ?st" "\<And>i. log_view ?st i = (if i < s then log_view st i
          else if i < s + int (length (e # es)) then Some ((e # es) ! nat (i - s)) else None)"
        using mem_log.replace_tail [OF good(1,3,2) Cons.prems(1) True e(3)] by blast+
      have "append_loop (e # es) n st = Some ?st" using True e(1) get False by simp
      moreover have "\<not> no_conflict s (e # es) st" using x False by (simp add: no_conflict_Cons)
      moreover have "holds_terms s (e # es) ?st" unfolding holds_terms_def R(2) by simp
      ultimately show ?thesis using R by (simp add: installs_def)
    qed
  next
    case False
    then have s: "s = n + 1" using Cons.prems(2) by simp
    let ?st = "StoreLogs (e # es) st"
    have "from_index (n + 1) (e # es)" using e(3) s by simp
    note R = mem_log.store_ok [OF good(1,2) this]
    have V: "log_view ?st i = (if i \<le> n then log_view st i
        else if i \<le> n + int (length (e # es)) then Some ((e # es) ! nat (i - n - 1)) else None)" for i
      using R by simp
    have "append_loop (e # es) n st = Some ?st" using False e(1) by simp
    moreover have "log_view ?st i = Some x" if "log_view st i = Some x" for i x
      using V [of i] that mem_log.view_None [OF good(1,2), of i] by (cases "i \<le> n") auto
    moreover have "holds_terms s (e # es) ?st" unfolding holds_terms_def V s by simp
    ultimately show ?thesis using R V s by (simp add: installs_def)
  qed
qed

lemma advance_commit_some:
  "LastIndex (logStore rf) = Some n \<Longrightarrow> \<exists>c. advance_commit lc rf = Some (rf\<lparr>commitIndex := c\<rparr>)"
  by (cases "commitIndex rf < lc") (auto simp: advance_commit_def intro: exI [of _ "commitIndex rf"])

lemma advance_commit_good:
  assumes "log_good (logStore rf)"
  obtains c where "advance_commit lc rf = Some (rf\<lparr>commitIndex := c\<rparr>)"
  using mem_log.bounds [OF assms] advance_commit_some by blast

text \<open>C16. What a successful \<open>AppendEntries\<close> leaves behind. Into a log in order, for consecutive entries
  after a previous entry the log confirms, the handler always succeeds: the log stays in order, is
  unchanged up to the previous entry, and holds at every new position an entry of the sent term.
  When no sent entry conflicts, nothing that was in the log is removed or changed, so a delayed or
  repeated message cannot truncate it.\<close>

theorem append_entries_installs:
  assumes "log_good (logStore rf)" and "FirstIndex (logStore rf) = Some f" and "currentTerm rf \<le> aTerm args"
    and "f \<le> aPrevLogIndex args" and "0 \<le> aPrevLogIndex args"
    and "log_view (logStore rf) (aPrevLogIndex args) = Some p" and "Term p = aPrevLogTerm args"
    and "from_index (aPrevLogIndex args + 1) (aEntries args)"
  shows "\<exists>rf'. AppendEntries args rf = Some (\<lparr>eTerm = currentTerm rf, eSuccess = True\<rparr>, rf') \<and>
    currentTerm rf' = aTerm args \<and> installs (aPrevLogIndex args + 1) (aEntries args) (logStore rf) (logStore rf')"
proof -
  let ?prev = "aPrevLogIndex args"
  let ?rf1 = "(if currentTerm rf < aTerm args then convertToFollower (aTerm args) rf else rf)\<lparr>leaderID := aLeaderID args\<rparr>"
  have rf1: "logStore ?rf1 = logStore rf" "currentTerm ?rf1 = aTerm args"
    using assms(3) by (simp_all add: convertToFollower_def)
  obtain n where n: "LastIndex (logStore rf) = Some n" "?prev \<le> n"
    using mem_log.bounds [OF assms(1)] assms(6) by force
  obtain st' where st': "append_loop (aEntries args) n (logStore rf) = Some st'"
    "installs (?prev + 1) (aEntries args) (logStore rf) st'"
    using append_loop_spec [OF assms(1) n(1) assms(2) _ _ assms(8)] assms(4) n(2) by auto
  have pm: "prev_mismatch args (logStore rf) = Some False"
    using assms(5,7) mem_log.get_iff [OF assms(1), of ?prev p] assms(6) by (simp add: prev_mismatch_def)
  obtain c where c: "advance_commit (aLeaderCommit args) (?rf1\<lparr>logStore := st'\<rparr>) =
      Some (?rf1\<lparr>logStore := st', commitIndex := c\<rparr>)"
    by (rule advance_commit_good [of "?rf1\<lparr>logStore := st'\<rparr>"]) (use st'(2) in \<open>simp_all add: installs_def\<close>)
  define rf2 where "rf2 = ?rf1\<lparr>logStore := st', commitIndex := c\<rparr>"
  have rf2: "advance_commit (aLeaderCommit args) (?rf1\<lparr>logStore := st'\<rparr>) = Some rf2" "logStore rf2 = st'"
    using c by (simp_all add: rf2_def)
  have "currentTerm rf2 = aTerm args" using rf1(2) by (simp add: rf2_def)
  moreover have "AppendEntries args rf = Some (\<lparr>eTerm = currentTerm rf, eSuccess = True\<rparr>, rf2)"
    using assms(3) n st'(1) pm rf2(1) rf1(1) by (simp add: AppendEntries_def Let_def)
  ultimately show ?thesis using st'(2) rf2(2) by (intro exI [of _ rf2]) simp
qed

definition entry :: "int \<Rightarrow> int \<Rightarrow> command \<Rightarrow> LogEntry" where
  "entry t i c = \<lparr>Term = t, Index = i, Command = c\<rparr>"

definition sample_append :: AppendEntriesArgs where
  "sample_append = \<lparr>aTerm = 2, aLeaderID = ''l'', aPrevLogIndex = 0, aPrevLogTerm = 0,
     aEntries = [entry 2 1 ''x'', entry 2 2 ''y''], aLeaderCommit = 1\<rparr>"

lemma append_entries_installs_witness:
  "\<exists>rf'. AppendEntries sample_append (NewRaft ''a'' [''a'', ''l''] NewMemoryLogStore) =
      Some (\<lparr>eTerm = 0, eSuccess = True\<rparr>, rf') \<and> log_good (logStore rf')"
proof -
  let ?rf = "NewRaft ''a'' [''a'', ''l''] NewMemoryLogStore"
  have h: "log_good (logStore ?rf)" "FirstIndex (logStore ?rf) = Some 0" "currentTerm ?rf \<le> aTerm sample_append"
    "0 \<le> aPrevLogIndex sample_append" "0 \<le> aPrevLogIndex sample_append"
    "log_view (logStore ?rf) (aPrevLogIndex sample_append) = Some (entry 0 0 [])"
    "Term (entry 0 0 []) = aPrevLogTerm sample_append"
    "from_index (aPrevLogIndex sample_append + 1) (aEntries sample_append)"
    using NewMemoryLogStore_good
    by (simp_all add: NewRaft_def sample_append_def entry_def NewMemoryLogStore_def FirstIndex_def log_view_def from_index_Cons)
  from append_entries_installs [OF h] obtain rf'
    where "AppendEntries sample_append ?rf = Some (\<lparr>eTerm = currentTerm ?rf, eSuccess = True\<rparr>, rf')"
      "installs (aPrevLogIndex sample_append + 1) (aEntries sample_append) (logStore ?rf) (logStore rf')" by blast
  then show ?thesis by (intro exI [of _ rf']) (simp add: NewRaft_def installs_def)
qed

section \<open>Commit and apply\<close>

text \<open>What the rule asks of an index.\<close>

definition committable :: "Raft \<Rightarrow> int \<Rightarrow> bool" where
  "committable rf n \<longleftrightarrow> length (Peers rf) div 2 < ack_count n rf \<and>
     map_option Term (log_view (logStore rf) n) = Some (currentTerm rf)"

lemma commit_scan_spec:
  assumes "log_good (logStore rf)"
  shows "\<exists>c. commit_scan k rf = Some (rf\<lparr>commitIndex := c\<rparr>) \<and> commitIndex rf \<le> c \<and>
    (c \<noteq> commitIndex rf \<longrightarrow> committable rf c) \<and>
    (\<forall>m. c < m \<and> m \<le> commitIndex rf + int k \<longrightarrow> \<not> committable rf m)"
proof (induction k)
  case 0
  then show ?case by (intro exI [of _ "commitIndex rf"]) auto
next
  case (Suc k)
  let ?n = "commitIndex rf + int (Suc k)"
  have get: "GetLog ?n (logStore rf) = Some (case log_view (logStore rf) ?n of None \<Rightarrow> Inl ErrLogNotFound | Some e \<Rightarrow> Inr e)"
    by (rule mem_log.get_ok [OF assms])
  show ?case
  proof (cases "committable rf ?n")
    case True
    then have "commit_scan (Suc k) rf = Some (rf\<lparr>commitIndex := ?n\<rparr>)"
      using get by (cases "log_view (logStore rf) ?n") (simp_all add: Let_def committable_def)
    then show ?thesis using True by (intro exI [of _ ?n] conjI impI allI) auto
  next
    case False
    then have same: "commit_scan (Suc k) rf = commit_scan k rf"
      using get by (cases "log_view (logStore rf) ?n") (auto simp: Let_def committable_def)
    obtain c where c: "commit_scan k rf = Some (rf\<lparr>commitIndex := c\<rparr>)" "commitIndex rf \<le> c"
      "c \<noteq> commitIndex rf \<longrightarrow> committable rf c"
      "\<forall>m. c < m \<and> m \<le> commitIndex rf + int k \<longrightarrow> \<not> committable rf m" using Suc.IH by blast
    have "\<not> committable rf m" if "c < m" "m \<le> ?n" for m
      using c(4) that False by (cases "m = ?n") auto
    then show ?thesis using same c by (intro exI [of _ c]) simp
  qed
qed

text \<open>C17. The leader's commit rule: \<open>updateCommitIndex\<close> moves the commit index to the largest index above it
  that a majority of the peers is known to hold and whose entry is of the current term, and moves it
  nowhere if there is none; an entry of an older term is never committed by counting.\<close>

theorem commit_rule:
  assumes "log_good (logStore rf)" and "LastIndex (logStore rf) = Some n"
  shows "\<exists>c. updateCommitIndex rf = Some (rf\<lparr>commitIndex := c\<rparr>) \<and> commitIndex rf \<le> c \<and>
    (c \<noteq> commitIndex rf \<longrightarrow> committable rf c) \<and> (\<forall>m. c < m \<and> m \<le> n \<longrightarrow> \<not> committable rf m)"
proof -
  let ?k = "nat (n - commitIndex rf)"
  have "updateCommitIndex rf = commit_scan ?k rf" using assms(2) by (simp add: updateCommitIndex_def)
  with commit_scan_spec [OF assms(1), of ?k] obtain c where c: "updateCommitIndex rf = Some (rf\<lparr>commitIndex := c\<rparr>)"
    "commitIndex rf \<le> c" "c \<noteq> commitIndex rf \<longrightarrow> committable rf c"
    "\<forall>m. c < m \<and> m \<le> commitIndex rf + int ?k \<longrightarrow> \<not> committable rf m" by auto
  have "m \<le> n \<Longrightarrow> c < m \<Longrightarrow> m \<le> commitIndex rf + int ?k" for m using c(2) by simp
  then show ?thesis using c by blast
qed

lemma commit_rule_witness:
  "\<exists>c. updateCommitIndex ((NewRaft ''l'' [''l'', ''a'', ''b''] [entry 0 0 [], entry 3 1 ''x''])
      \<lparr>state := Leader, currentTerm := 3, matchIndex := (\<lambda>_. 0)(''a'' := 1)\<rparr>) =
    Some ((NewRaft ''l'' [''l'', ''a'', ''b''] [entry 0 0 [], entry 3 1 ''x''])
      \<lparr>state := Leader, currentTerm := 3, matchIndex := (\<lambda>_. 0)(''a'' := 1), commitIndex := c\<rparr>) \<and> 1 \<le> c"
proof -
  let ?rf = "(NewRaft ''l'' [''l'', ''a'', ''b''] [entry 0 0 [], entry 3 1 ''x''])
      \<lparr>state := Leader, currentTerm := 3, matchIndex := (\<lambda>_. 0)(''a'' := 1)\<rparr>"
  have g: "log_good (logStore ?rf)" "LastIndex (logStore ?rf) = Some 1"
    by (simp_all add: NewRaft_def log_good_def from_index_Cons entry_def LastIndex_def)
  obtain c where c: "updateCommitIndex ?rf = Some (?rf\<lparr>commitIndex := c\<rparr>)"
    "\<forall>m. c < m \<and> m \<le> 1 \<longrightarrow> \<not> committable ?rf m"
    using commit_rule [OF g] by blast
  have "committable ?rf 1"
    by (simp add: committable_def NewRaft_def ack_count_def log_view_def entry_def)
  then have "1 \<le> c" using c(2) by force
  then show ?thesis using c(1) by (intro exI [of _ c]) simp
qed

section \<open>Applying\<close>

lemma apply_loop_spec:
  assumes "log_good (logStore rf)"
  shows "\<exists>rf'. apply_loop n rf = Some rf' \<and> lastApplied rf' = lastApplied rf + int n \<and> logStore rf' = logStore rf \<and>
    commitIndex rf' = commitIndex rf \<and>
    applied rf' = applied rf @ List.map_filter (\<lambda>i. map_option (\<lambda>e. (Command e, i)) (log_view (logStore rf) i))
      [lastApplied rf + 1..lastApplied rf + int n]"
  using assms
proof (induction n arbitrary: rf)
  case 0
  then show ?case by (simp add: map_filter_simps)
next
  case (Suc n)
  let ?i = "lastApplied rf + 1"
  let ?rf = "rf\<lparr>lastApplied := ?i\<rparr>"
  have get: "GetLog ?i (logStore rf) = Some (case log_view (logStore rf) ?i of None \<Rightarrow> Inl ErrLogNotFound | Some e \<Rightarrow> Inr e)"
    by (rule mem_log.get_ok [OF Suc.prems])
  have up: "[?i..lastApplied rf + int (Suc n)] = ?i # [?i + 1..?i + int n]"
    by (subst upto_rec1) (simp_all add: algebra_simps)
  show ?case
  proof (cases "log_view (logStore rf) ?i")
    case None
    then have "apply_loop (Suc n) rf = apply_loop n ?rf" using get by (simp add: Let_def)
    then show ?thesis using Suc.IH [of ?rf] Suc.prems None unfolding up by (auto simp: map_filter_simps algebra_simps)
  next
    case (Some e)
    have ix: "Index e = ?i" by (rule log_view_index [OF Suc.prems Some])
    let ?rf' = "?rf\<lparr>applied := applied rf @ [(Command e, ?i)]\<rparr>"
    have "apply_loop (Suc n) rf = apply_loop n ?rf'" using get Some ix by (simp add: Let_def)
    then show ?thesis using Suc.IH [of ?rf'] Suc.prems Some unfolding up by (auto simp: map_filter_simps algebra_simps)
  qed
qed

text \<open>The applier sends, in index order and each once, exactly the commands of the log from the last
  applied index up to the commit index, and afterwards has applied up to the commit index; running it
  again sends nothing.\<close>

theorem apply_in_order:
  assumes "log_good (logStore rf)" and "lastApplied rf \<le> commitIndex rf"
  shows "\<exists>rf'. applyLogs rf = Some rf' \<and> lastApplied rf' = commitIndex rf \<and>
    applied rf' = applied rf @ List.map_filter (\<lambda>i. map_option (\<lambda>e. (Command e, i)) (log_view (logStore rf) i))
      [lastApplied rf + 1..commitIndex rf] \<and> applyLogs rf' = Some rf'"
proof -
  let ?n = "nat (commitIndex rf - lastApplied rf)"
  have n: "lastApplied rf + int ?n = commitIndex rf" using assms(2) by simp
  obtain rf' where "apply_loop ?n rf = Some rf'" "lastApplied rf' = commitIndex rf" "commitIndex rf' = commitIndex rf"
    "applied rf' = applied rf @ List.map_filter (\<lambda>i. map_option (\<lambda>e. (Command e, i)) (log_view (logStore rf) i))
      [lastApplied rf + 1..commitIndex rf]"
    using apply_loop_spec [OF assms(1), of ?n] unfolding n by blast
  then show ?thesis by (simp add: applyLogs_def)
qed

lemma apply_in_order_witness:
  "\<exists>rf'. applyLogs ((NewRaft ''a'' [''a'', ''b''] [entry 0 0 [], entry 1 1 ''x'', entry 1 2 ''y''])\<lparr>commitIndex := 2\<rparr>) = Some rf' \<and>
    applied rf' = [(''x'', 1), (''y'', 2)]"
proof -
  let ?rf = "(NewRaft ''a'' [''a'', ''b''] [entry 0 0 [], entry 1 1 ''x'', entry 1 2 ''y''])\<lparr>commitIndex := 2\<rparr>"
  have "log_good (logStore ?rf)" "lastApplied ?rf \<le> commitIndex ?rf"
    by (simp_all add: NewRaft_def log_good_def from_index_Cons entry_def)
  from apply_in_order [OF this] show ?thesis
    by (auto simp: NewRaft_def log_view_def entry_def map_filter_simps upto_rec1)
qed

section \<open>Compaction\<close>

text \<open>Compacting up to the last entry empties the store, and from then on the node panics: on every
  election timeout as a follower, on every proposal as a leader, and on every \<open>AppendEntries\<close> of a
  current term.\<close>

theorem compaction_to_the_end_panics:
  assumes "log_good (logStore rf)" and "LastIndex (logStore rf) = Some n" and "lastIncludedIndex rf < n"
  shows "\<exists>rf'. Snapshot n rf = Some rf' \<and> logStore rf' = [] \<and> currentTerm rf' = currentTerm rf \<and>
    startElection rf' = None \<and> (state rf' = Leader \<longrightarrow> Propose cmd rf' = None) \<and>
    (currentTerm rf' \<le> aTerm args \<longrightarrow> AppendEntries args rf' = None)"
proof -
  obtain f where f: "FirstIndex (logStore rf) = Some f" "f \<le> n"
    using mem_log.bounds [OF assms(1)] assms(2) by auto
  obtain e where e: "log_view (logStore rf) n = Some e" using mem_log.last_view [OF assms(1,2)] by blast
  have "Index x \<in> {f..n}" if x: "x \<in> set (logStore rf)" for x
  proof -
    have l: "logStore rf \<noteq> []" "from_index (Index (hd (logStore rf))) (logStore rf)"
      using assms(1) by (simp_all add: log_good_def)
    obtain k where k: "k < length (logStore rf)" "x = logStore rf ! k" using x unfolding in_set_conv_nth by blast
    have "Index x = Index (hd (logStore rf)) + int k" unfolding k(2) by (rule from_indexD [OF l(2) k(1)])
    moreover have "f = Index (hd (logStore rf))" using f(1) FirstIndex_hd [OF l(1)] by simp
    moreover have "n = Index (hd (logStore rf)) + int (length (logStore rf)) - 1"
      using assms(2) LastIndex_good [OF assms(1)] by simp
    ultimately show ?thesis using k(1) by simp
  qed
  then have "DeleteRange f n (logStore rf) = []"
    unfolding DeleteRange_def filter_empty_conv by (metis atLeastAtMost_iff not_le)
  then have "Snapshot n rf = Some (rf\<lparr>lastIncludedIndex := n, lastIncludedTerm := Term e, logStore := []\<rparr>)"
    using assms(3) f(1) e mem_log.get_ok [OF assms(1), of n] by (simp add: Snapshot_def)
  then show ?thesis
    by (simp add: startElection_def Propose_def AppendEntries_def LastIndex_def convertToFollower_def Let_def)
qed

lemma compaction_to_the_end_panics_witness:
  "\<exists>rf'. Snapshot 1 (NewRaft ''a'' [''a'', ''b''] [entry 0 0 [], entry 1 1 ''x'']) = Some rf' \<and> startElection rf' = None"
proof -
  let ?rf = "NewRaft ''a'' [''a'', ''b''] [entry 0 0 [], entry 1 1 ''x'']"
  have "log_good (logStore ?rf)" "LastIndex (logStore ?rf) = Some 1" "lastIncludedIndex ?rf < 1"
    by (simp_all add: NewRaft_def log_good_def from_index_Cons entry_def LastIndex_def)
  from compaction_to_the_end_panics [OF this] show ?thesis by blast
qed

text \<open>After a compaction a repeated message corrupts the log: an entry below the first index is not
  found, so the handler neither skips it nor replaces anything but appends it again at the end, the
  log is out of order, and the last index falls back.\<close>

theorem stale_entries_appended_after_compaction:
  assumes "log_good (logStore rf)" and "FirstIndex (logStore rf) = Some f" and "currentTerm rf \<le> aTerm args"
    and "0 \<le> aPrevLogIndex args" and "aPrevLogIndex args + 1 < f"
    and "aEntries args = [e]" and "Index e = aPrevLogIndex args + 1"
  shows "\<exists>rf'. AppendEntries args rf = Some (\<lparr>eTerm = currentTerm rf, eSuccess = True\<rparr>, rf') \<and>
    logStore rf' = logStore rf @ [e] \<and> \<not> log_good (logStore rf') \<and> LastIndex (logStore rf') = Some (Index e)"
proof -
  obtain n where n: "LastIndex (logStore rf) = Some n" "f \<le> n"
    and v: "\<And>i. log_view (logStore rf) i \<noteq> None \<longleftrightarrow> f \<le> i \<and> i \<le> n"
    using mem_log.bounds [OF assms(1)] assms(2) by auto
  let ?rf1 = "(if currentTerm rf < aTerm args then convertToFollower (aTerm args) rf else rf)\<lparr>leaderID := aLeaderID args\<rparr>"
  let ?st = "logStore rf @ [e]"
  have rf1: "logStore ?rf1 = logStore rf" by (simp add: convertToFollower_def)
  have none: "log_view (logStore rf) i = None" if "i < f" for i using v [of i] that by simp
  have pm: "prev_mismatch args (logStore rf) = Some False"
    using mem_log.get_ok [OF assms(1), of "aPrevLogIndex args"] none [of "aPrevLogIndex args"] assms(4,5)
    by (simp add: prev_mismatch_def)
  have ap: "append_loop [e] n (logStore rf) = Some ?st"
    using mem_log.get_ok [OF assms(1), of "Index e"] none [of "Index e"] assms(5,7) n(2) by (simp add: StoreLogs_def)
  have last: "LastIndex ?st = Some (Index e)" by (simp add: LastIndex_def)
  obtain c where c: "advance_commit (aLeaderCommit args) (?rf1\<lparr>logStore := ?st\<rparr>) =
      Some (?rf1\<lparr>logStore := ?st, commitIndex := c\<rparr>)"
    using advance_commit_some [of "?rf1\<lparr>logStore := ?st\<rparr>"] last by auto
  define rf2 where "rf2 = ?rf1\<lparr>logStore := ?st, commitIndex := c\<rparr>"
  have rf2: "advance_commit (aLeaderCommit args) (?rf1\<lparr>logStore := ?st\<rparr>) = Some rf2" "logStore rf2 = ?st"
    using c by (simp_all add: rf2_def)
  have "\<not> log_good ?st"
  proof
    assume g: "log_good ?st"
    have "logStore rf \<noteq> []" using assms(1) by (simp add: log_good_def)
    then have "FirstIndex ?st = Some f" using assms(2) FirstIndex_hd [of ?st] FirstIndex_hd [of "logStore rf"] by simp
    then show False using mem_log.bounds [OF g] last assms(5,7) by auto
  qed
  moreover have "AppendEntries args rf = Some (\<lparr>eTerm = currentTerm rf, eSuccess = True\<rparr>, rf2)"
    using assms(3,5,6) n pm ap rf2(1) rf1 by (simp add: AppendEntries_def Let_def)
  ultimately show ?thesis using rf2(2) last by (intro exI [of _ rf2]) simp
qed

lemma stale_entries_appended_after_compaction_witness:
  "\<exists>rf'. AppendEntries \<lparr>aTerm = 1, aLeaderID = ''b'', aPrevLogIndex = 0, aPrevLogTerm = 0, aEntries = [entry 1 1 ''x''],
      aLeaderCommit = 0\<rparr> (NewRaft ''a'' [''a'', ''b''] [entry 1 3 ''z'']) = Some (\<lparr>eTerm = 0, eSuccess = True\<rparr>, rf') \<and>
    logStore rf' = [entry 1 3 ''z'', entry 1 1 ''x'']"
proof -
  let ?rf = "NewRaft ''a'' [''a'', ''b''] [entry 1 3 ''z'']"
  let ?args = "\<lparr>aTerm = 1, aLeaderID = ''b'', aPrevLogIndex = 0, aPrevLogTerm = 0, aEntries = [entry 1 1 ''x''], aLeaderCommit = 0\<rparr>"
  have "log_good (logStore ?rf)" "FirstIndex (logStore ?rf) = Some 3" "currentTerm ?rf \<le> aTerm ?args"
    "0 \<le> aPrevLogIndex ?args" "aPrevLogIndex ?args + 1 < 3" "aEntries ?args = [entry 1 1 ''x'']"
    "Index (entry 1 1 ''x'') = aPrevLogIndex ?args + 1"
    by (simp_all add: NewRaft_def log_good_def from_index_Cons entry_def FirstIndex_def)
  from stale_entries_appended_after_compaction [OF this] obtain rf'
    where "AppendEntries ?args ?rf = Some (\<lparr>eTerm = currentTerm ?rf, eSuccess = True\<rparr>, rf')"
      "logStore rf' = logStore ?rf @ [entry 1 1 ''x'']" by blast
  then show ?thesis by (intro exI [of _ rf']) (simp add: NewRaft_def)
qed

end
