(* ===== verification/RaftCluster.thy ===== *)
theory RaftCluster
  imports RaftProps "HOL-Library.Multiset"
begin

text \<open>
  A cluster of Raft nodes and the calls in flight between them. An event is one atomic step: a
  handler of a node, or one half of a goroutine that calls a peer (\<open>startElection\<close> and
  \<open>replicateToPeer\<close> release the mutex around the call). Calls and replies are delivered in any
  order; a lost one is never delivered. \<^term>\<open>None\<close> is an event that is not possible or panics.
\<close>

section \<open>The cluster\<close>

text \<open>
  \<open>tally\<close> is the variable \<open>votes\<close> of the election a node held in a term. \<open>asked\<close> and \<open>votes\<close> hold the
  calls of \<open>RequestVote\<close> with the peer called and their replies, \<open>appends\<close> and \<open>acks\<close> those of
  \<open>AppendEntries\<close>.
\<close>

record cluster =
  members :: "node_id list"
  nodes :: "node_id \<Rightarrow> Raft"
  tally :: "node_id \<times> int \<Rightarrow> nat"
  asked :: "(node_id \<times> RequestVoteArgs) list"
  votes :: "(node_id \<times> RequestVoteArgs \<times> RequestVoteReply) list"
  appends :: "(node_id \<times> AppendEntriesArgs) list"
  acks :: "(node_id \<times> AppendEntriesArgs \<times> AppendEntriesReply) list"

definition cluster_init :: "node_id list \<Rightarrow> cluster" where
  "cluster_init ids =
     \<lparr>members = ids, nodes = (\<lambda>i. NewRaft i ids NewMemoryLogStore), tally = (\<lambda>_. 0),
      asked = [], votes = [], appends = [], acks = []\<rparr>"

definition set_node :: "node_id \<Rightarrow> Raft \<Rightarrow> cluster \<Rightarrow> cluster" where
  "set_node i rf c = c\<lparr>nodes := (nodes c)(i := rf)\<rparr>"

lemma set_node_simps [simp]:
  "members (set_node i rf c) = members c" "nodes (set_node i rf c) = (nodes c)(i := rf)"
  "tally (set_node i rf c) = tally c" "asked (set_node i rf c) = asked c" "votes (set_node i rf c) = votes c"
  "appends (set_node i rf c) = appends c" "acks (set_node i rf c) = acks c"
  by (simp_all add: set_node_def)

section \<open>Elections\<close>

text \<open>The election timer of a node fires: a vote for itself, and one call to every other peer.\<close>

definition timeout_event :: "node_id \<Rightarrow> cluster \<Rightarrow> cluster option" where
  "timeout_event i c =
     (if i \<notin> set (members c) then None
      else case election_timeout (nodes c i) of
             None \<Rightarrow> None
           | Some (None, rf) \<Rightarrow> Some (set_node i rf c)
           | Some (Some args, rf) \<Rightarrow>
               Some ((set_node i rf c)\<lparr>tally := (tally c)((i, vTerm args) := 1),
                 asked := asked c @ map (\<lambda>p. (p, args)) (filter (\<lambda>p. p \<noteq> i) (Peers rf))\<rparr>))"

definition vote_event :: "node_id \<Rightarrow> RequestVoteArgs \<Rightarrow> cluster \<Rightarrow> cluster option" where
  "vote_event p args c =
     (if (p, args) \<notin> set (asked c) then None
      else let (reply, rf) = RequestVote args (nodes c p)
           in Some ((set_node p rf c)\<lparr>asked := remove1 (p, args) (asked c), votes := (p, args, reply) # votes c\<rparr>))"

definition vote_reply_event :: "node_id \<Rightarrow> RequestVoteArgs \<Rightarrow> RequestVoteReply \<Rightarrow> cluster \<Rightarrow> cluster option" where
  "vote_reply_event p args reply c =
     (if (p, args, reply) \<notin> set (votes c) then None
      else let i = vCandidateID args
           in case vote_reply args reply (tally c (i, vTerm args)) (nodes c i) of
                None \<Rightarrow> None
              | Some (n, rf) \<Rightarrow>
                  Some ((set_node i rf c)\<lparr>tally := (tally c)((i, vTerm args) := n),
                    votes := remove1 (p, args, reply) (votes c)\<rparr>))"

section \<open>Replication\<close>

text \<open>A heartbeat tick, a won election or a proposal starts \<open>replicateToPeer\<close>, at any time.\<close>

definition replicate_event :: "node_id \<Rightarrow> node_id \<Rightarrow> cluster \<Rightarrow> cluster option" where
  "replicate_event i p c =
     (if i \<notin> set (members c) \<or> p \<notin> set (Peers (nodes c i)) \<or> p = i then None
      else case replicate_args p (nodes c i) of
             None \<Rightarrow> None
           | Some None \<Rightarrow> Some c
           | Some (Some args) \<Rightarrow> Some (c\<lparr>appends := (p, args) # appends c\<rparr>))"

definition append_event :: "node_id \<Rightarrow> AppendEntriesArgs \<Rightarrow> cluster \<Rightarrow> cluster option" where
  "append_event p args c =
     (if (p, args) \<notin> set (appends c) then None
      else case AppendEntries args (nodes c p) of
             None \<Rightarrow> None
           | Some (reply, rf) \<Rightarrow>
               Some ((set_node p rf c)\<lparr>appends := remove1 (p, args) (appends c), acks := (p, args, reply) # acks c\<rparr>))"

definition ack_event :: "node_id \<Rightarrow> AppendEntriesArgs \<Rightarrow> AppendEntriesReply \<Rightarrow> cluster \<Rightarrow> cluster option" where
  "ack_event p args reply c =
     (if (p, args, reply) \<notin> set (acks c) then None
      else case replicate_reply p args reply (nodes c (aLeaderID args)) of
             None \<Rightarrow> None
           | Some rf \<Rightarrow> Some ((set_node (aLeaderID args) rf c)\<lparr>acks := remove1 (p, args, reply) (acks c)\<rparr>))"

section \<open>Local events\<close>

text \<open>A step of one node alone. A proposal's answer to the client is not kept.\<close>

definition local_event :: "node_id \<Rightarrow> Raft option \<Rightarrow> cluster \<Rightarrow> cluster option" where
  "local_event i r c =
     (if i \<notin> set (members c) then None else case r of None \<Rightarrow> None | Some rf \<Rightarrow> Some (set_node i rf c))"

text \<open>
  A process that stops and starts again: \<open>NewRaft\<close> with a new in-memory store; its calls in flight are
  gone with it.
\<close>

definition restart_event :: "node_id \<Rightarrow> cluster \<Rightarrow> cluster option" where
  "restart_event i c =
     (if i \<notin> set (members c) then None
      else Some ((set_node i (NewRaft i (Peers (nodes c i)) NewMemoryLogStore) c)
        \<lparr>asked := filter (\<lambda>(p, args). vCandidateID args \<noteq> i) (asked c),
         votes := filter (\<lambda>(p, args, reply). vCandidateID args \<noteq> i) (votes c),
         appends := filter (\<lambda>(p, args). aLeaderID args \<noteq> i) (appends c),
         acks := filter (\<lambda>(p, args, reply). aLeaderID args \<noteq> i) (acks c)\<rparr>))"

datatype event =
    Timeout node_id
  | Vote node_id RequestVoteArgs
  | VoteReply node_id RequestVoteArgs RequestVoteReply
  | Replicate node_id node_id
  | Append node_id AppendEntriesArgs
  | AppendReply node_id AppendEntriesArgs AppendEntriesReply
  | Client node_id command
  | Apply node_id
  | Compact node_id int
  | Restart node_id

fun cluster_step :: "event \<Rightarrow> cluster \<Rightarrow> cluster option" where
  "cluster_step (Timeout i) c = timeout_event i c"
| "cluster_step (Vote p args) c = vote_event p args c"
| "cluster_step (VoteReply p args reply) c = vote_reply_event p args reply c"
| "cluster_step (Replicate i p) c = replicate_event i p c"
| "cluster_step (Append p args) c = append_event p args c"
| "cluster_step (AppendReply p args reply) c = ack_event p args reply c"
| "cluster_step (Client i cmd) c = local_event i (map_option snd (Propose cmd (nodes c i))) c"
| "cluster_step (Apply i) c = local_event i (applyLogs (nodes c i)) c"
| "cluster_step (Compact i index) c = local_event i (Snapshot index (nodes c i)) c"
| "cluster_step (Restart i) c = restart_event i c"

fun cluster_run :: "event list \<Rightarrow> cluster \<Rightarrow> cluster option" where
  "cluster_run [] c = Some c"
| "cluster_run (e # es) c = (case cluster_step e c of None \<Rightarrow> None | Some c' \<Rightarrow> cluster_run es c')"

lemma cluster_run_append:
  "cluster_run (es @ fs) c = (case cluster_run es c of None \<Rightarrow> None | Some c' \<Rightarrow> cluster_run fs c')"
  by (induction es arbitrary: c) (auto split: option.splits)

definition no_restart :: "event list \<Rightarrow> bool" where
  "no_restart es \<longleftrightarrow> (\<forall>i. Restart i \<notin> set es)"

definition no_compaction :: "event list \<Rightarrow> bool" where
  "no_compaction es \<longleftrightarrow> (\<forall>i k. Compact i k \<notin> set es)"

section \<open>What the handlers leave of a node's vote\<close>

text \<open>
  A quiet step: the term does not fall, the vote of a term is kept, and no node becomes leader or stays
  it in a new term. Every handler but those of the elections is quiet.
\<close>

definition quiet :: "Raft \<Rightarrow> Raft \<Rightarrow> bool" where
  "quiet rf rf' \<longleftrightarrow> rid rf' = rid rf \<and> Peers rf' = Peers rf \<and> currentTerm rf \<le> currentTerm rf' \<and>
     (currentTerm rf' = currentTerm rf \<longrightarrow> votedFor rf' = votedFor rf) \<and>
     (state rf' = Leader \<longrightarrow> state rf = Leader \<and> currentTerm rf' = currentTerm rf)"

lemma quiet_refl [simp]: "quiet rf rf"
  by (simp add: quiet_def)

lemma quiet_trans: "quiet a b \<Longrightarrow> quiet b c \<Longrightarrow> quiet a c"
  by (auto simp: quiet_def)

lemma follower_quiet: "currentTerm rf < t \<Longrightarrow> quiet rf (convertToFollower t rf)"
  by (simp add: quiet_def convertToFollower_def)

text \<open>The term, the vote, the role and the identity: all that \<open>quiet\<close> reads.\<close>

lemma advance_commit_quiet: "advance_commit lc rf = Some rf' \<Longrightarrow> quiet rf rf'"
  by (auto simp: advance_commit_def quiet_def split: if_splits option.splits)

lemma quiet_logStore [simp]:
  "quiet (rf\<lparr>logStore := x\<rparr>) rf' = quiet rf rf'" "quiet (rf\<lparr>leaderID := l\<rparr>) rf' = quiet rf rf'"
  "quiet (rf\<lparr>matchIndex := m, nextIndex := n\<rparr>) rf' = quiet rf rf'"
  "quiet rf (rf'\<lparr>leaderID := l\<rparr>) = quiet rf rf'" "quiet rf (rf'\<lparr>nextIndex := n\<rparr>) = quiet rf rf'"
  by (simp_all add: quiet_def)

lemma AppendEntries_quiet:
  assumes "AppendEntries args rf = Some (reply, rf')"
  shows "quiet rf rf'"
proof -
  let ?rf = "(if currentTerm rf < aTerm args then convertToFollower (aTerm args) rf else rf)"
  have q: "quiet rf ?rf" by (simp add: follower_quiet)
  have "rf' = rf \<or> rf' = ?rf\<lparr>leaderID := aLeaderID args\<rparr> \<or>
      (\<exists>st lc. advance_commit lc (?rf\<lparr>leaderID := aLeaderID args, logStore := st\<rparr>) = Some rf')"
    using assms by (simp add: AppendEntries_def Let_def split: if_split_asm option.split_asm bool.split_asm prod.split_asm) blast+
  then show ?thesis
    using q by (auto dest!: advance_commit_quiet elim: quiet_trans)
qed

lemma commit_scan_quiet: "commit_scan k rf = Some rf' \<Longrightarrow> quiet rf rf'"
  by (induction k) (auto simp: Let_def quiet_def split: if_splits option.splits sum.splits)

lemma replicate_reply_quiet: "replicate_reply p args reply rf = Some rf' \<Longrightarrow> quiet rf rf'"
  by (auto simp: replicate_reply_def updateCommitIndex_def Let_def follower_quiet dest!: commit_scan_quiet
      split: if_splits option.splits)

lemma Propose_quiet: "Propose cmd rf = Some (ans, rf') \<Longrightarrow> quiet rf rf'"
  by (auto simp: Propose_def quiet_def Let_def split: if_splits option.splits)

lemma apply_loop_fields: "apply_loop n rf = Some rf' \<Longrightarrow> \<exists>k m. rf' = rf\<lparr>lastApplied := k, applied := m\<rparr>"
proof (induction n arbitrary: rf)
  case 0
  then show ?case by (intro exI [of _ "lastApplied rf"] exI [of _ "applied rf"]) simp
next
  case (Suc n)
  then show ?case by (fastforce simp: Let_def split: option.splits sum.splits)
qed

lemma applyLogs_quiet: "applyLogs rf = Some rf' \<Longrightarrow> quiet rf rf'"
  by (auto simp: applyLogs_def quiet_def dest!: apply_loop_fields)

lemma Snapshot_quiet: "Snapshot k rf = Some rf' \<Longrightarrow> quiet rf rf'"
  by (auto simp: Snapshot_def quiet_def split: if_splits option.splits sum.splits)

end
