(* ===== verification/RaftElection.thy ===== *)
theory RaftElection
  imports RaftCluster
begin

text \<open>
  Elections of a cluster: at most one leader per term as long as no process restarts, whatever the
  network does; an undisturbed candidate wins; and what goes wrong in a cluster of one, and after a
  restart.
\<close>

section \<open>A history of the votes\<close>

text \<open>
  History variables, computed along a run: every vote ever given (who, in which term, to whom), and for
  each election of a candidate the nodes whose vote has been counted.
\<close>

record history =
  granted :: "(node_id \<times> int \<times> node_id) set"
  counted :: "node_id \<times> int \<Rightarrow> node_id set"

fun remember :: "event \<Rightarrow> cluster \<Rightarrow> history \<Rightarrow> history" where
  "remember (Timeout i) c h =
     (case election_timeout (nodes c i) of
        Some (Some args, rf) \<Rightarrow> h\<lparr>granted := insert (i, vTerm args, i) (granted h),
                                  counted := (counted h)((i, vTerm args) := {i})\<rparr>
      | _ \<Rightarrow> h)"
| "remember (Vote p args) c h =
     (if rVoteGranted (fst (RequestVote args (nodes c p)))
      then h\<lparr>granted := insert (p, vTerm args, vCandidateID args) (granted h)\<rparr> else h)"
| "remember (VoteReply p args reply) c h =
     (if rVoteGranted reply
      then h\<lparr>counted := (counted h)((vCandidateID args, vTerm args) :=
             insert p (counted h (vCandidateID args, vTerm args)))\<rparr> else h)"
| "remember e c h = h"

definition pending :: "cluster \<Rightarrow> (node_id \<times> int \<times> node_id) list" where
  "pending c = map (\<lambda>(p, args). (p, vTerm args, vCandidateID args)) (asked c) @
     map (\<lambda>(p, args, reply). (p, vTerm args, vCandidateID args)) (votes c)"

section \<open>The invariant\<close>

definition ids_ok :: "node_id list \<Rightarrow> cluster \<Rightarrow> bool" where
  "ids_ok ids c \<longleftrightarrow> members c = ids \<and> (\<forall>i. rid (nodes c i) = i \<and> Peers (nodes c i) = ids)"

text \<open>A node remembers the vote it gave in its current term.\<close>

definition grants_ok :: "cluster \<Rightarrow> history \<Rightarrow> bool" where
  "grants_ok c h \<longleftrightarrow> (\<forall>p t a. (p, t, a) \<in> granted h \<longrightarrow>
     a \<noteq> [] \<and> t \<le> currentTerm (nodes c p) \<and> (t = currentTerm (nodes c p) \<longrightarrow> votedFor (nodes c p) = a))"

definition one_vote :: "history \<Rightarrow> bool" where
  "one_vote h \<longleftrightarrow> (\<forall>p t a b. (p, t, a) \<in> granted h \<longrightarrow> (p, t, b) \<in> granted h \<longrightarrow> a = b)"

definition count_ok :: "node_id list \<Rightarrow> cluster \<Rightarrow> history \<Rightarrow> bool" where
  "count_ok ids c h \<longleftrightarrow> (\<forall>i t. counted h (i, t) \<subseteq> set ids \<and> tally c (i, t) \<le> card (counted h (i, t)) \<and>
     (\<forall>p \<in> counted h (i, t). (p, t, i) \<in> granted h) \<and> (currentTerm (nodes c i) < t \<longrightarrow> counted h (i, t) = {}))"

text \<open>No peer is asked twice in an election, and none whose answer is out has been counted.\<close>

definition pending_ok :: "node_id list \<Rightarrow> cluster \<Rightarrow> history \<Rightarrow> bool" where
  "pending_ok ids c h \<longleftrightarrow> distinct (pending c) \<and>
     (\<forall>p t i. (p, t, i) \<in> set (pending c) \<longrightarrow> p \<in> set ids \<and> i \<in> set ids \<and> p \<notin> counted h (i, t) \<and>
        t \<le> currentTerm (nodes c i)) \<and>
     (\<forall>p args reply. (p, args, reply) \<in> set (votes c) \<longrightarrow> rVoteGranted reply \<longrightarrow>
        (p, vTerm args, vCandidateID args) \<in> granted h)"

definition leaders_ok :: "node_id list \<Rightarrow> cluster \<Rightarrow> history \<Rightarrow> bool" where
  "leaders_ok ids c h \<longleftrightarrow> (\<forall>i. state (nodes c i) = Leader \<longrightarrow>
     length ids div 2 < card (counted h (i, currentTerm (nodes c i))))"

definition votes_inv :: "node_id list \<Rightarrow> cluster \<Rightarrow> history \<Rightarrow> bool" where
  "votes_inv ids c h \<longleftrightarrow> ids_ok ids c \<and> grants_ok c h \<and> one_vote h \<and> count_ok ids c h \<and> pending_ok ids c h \<and>
     leaders_ok ids c h"

lemmas votes_inv_defs = votes_inv_def ids_ok_def grants_ok_def one_vote_def count_ok_def pending_ok_def leaders_ok_def

definition no_history :: history where
  "no_history = \<lparr>granted = {}, counted = (\<lambda>_. {})\<rparr>"

lemma votes_inv_init: "votes_inv ids (cluster_init ids) no_history"
  by (simp add: votes_inv_defs cluster_init_def no_history_def NewRaft_def pending_def)

lemma granted_ok:
  assumes "votes_inv ids c h" and "(p, t, a) \<in> granted h"
  shows "a \<noteq> []" "t \<le> currentTerm (nodes c p)" "t = currentTerm (nodes c p) \<Longrightarrow> votedFor (nodes c p) = a"
  using assms by (auto simp: votes_inv_def grants_ok_def)

lemma pending_facts:
  assumes "votes_inv ids c h" and "(p, t, i) \<in> set (pending c)"
  shows "p \<in> set ids" "i \<in> set ids" "p \<notin> counted h (i, t)" "t \<le> currentTerm (nodes c i)"
  using assms by (auto simp: votes_inv_def pending_ok_def)

lemma answer_granted:
  assumes "votes_inv ids c h" and "(p, args, reply) \<in> set (votes c)" and "rVoteGranted reply"
  shows "(p, vTerm args, vCandidateID args) \<in> granted h"
  using assms by (auto simp: votes_inv_def pending_ok_def)

lemma pending_okI:
  assumes "distinct (pending c)"
    and "\<And>p t i. (p, t, i) \<in> set (pending c) \<Longrightarrow>
      p \<in> set ids \<and> i \<in> set ids \<and> p \<notin> counted h (i, t) \<and> t \<le> currentTerm (nodes c i)"
    and "\<And>p args reply. (p, args, reply) \<in> set (votes c) \<Longrightarrow> rVoteGranted reply \<Longrightarrow>
      (p, vTerm args, vCandidateID args) \<in> granted h"
  shows "pending_ok ids c h"
  using assms unfolding pending_ok_def by blast

text \<open>The calls of \<open>AppendEntries\<close> and a quiet step of one node do not matter.\<close>

lemma votes_inv_appends [simp]:
  "votes_inv ids (c\<lparr>appends := x\<rparr>) h = votes_inv ids c h" "votes_inv ids (c\<lparr>acks := y\<rparr>) h = votes_inv ids c h"
  "votes_inv ids (c\<lparr>appends := x, acks := y\<rparr>) h = votes_inv ids c h"
  by (simp_all add: votes_inv_defs pending_def)

lemma votes_inv_quiet:
  assumes inv: "votes_inv ids c h" and q: "quiet (nodes c i) rf"
  shows "votes_inv ids (set_node i rf c) h"
proof -
  have "ids_ok ids (set_node i rf c)" using inv q by (simp add: votes_inv_def ids_ok_def quiet_def)
  moreover have "grants_ok (set_node i rf c) h"
    unfolding grants_ok_def
  proof (intro allI impI)
    fix p t a assume "(p, t, a) \<in> granted h"
    note g = granted_ok [OF inv this]
    show "a \<noteq> [] \<and> t \<le> currentTerm (nodes (set_node i rf c) p) \<and>
        (t = currentTerm (nodes (set_node i rf c) p) \<longrightarrow> votedFor (nodes (set_node i rf c) p) = a)"
      using g q by (cases "p = i") (auto simp: quiet_def)
  qed
  moreover have "count_ok ids (set_node i rf c) h"
    using inv q unfolding votes_inv_def count_ok_def quiet_def by (auto simp: fun_upd_apply)
  moreover have "pending_ok ids (set_node i rf c) h"
  proof (rule pending_okI)
    have p: "pending (set_node i rf c) = pending c" by (simp add: pending_def)
    show "distinct (pending (set_node i rf c))" using inv by (simp add: p votes_inv_def pending_ok_def)
    show "a \<in> set ids \<and> j \<in> set ids \<and> a \<notin> counted h (j, t) \<and> t \<le> currentTerm (nodes (set_node i rf c) j)"
      if "(a, t, j) \<in> set (pending (set_node i rf c))" for a t j
      using pending_facts [OF inv that [unfolded p]] q by (auto simp: quiet_def)
    show "(a, vTerm args, vCandidateID args) \<in> granted h"
      if "(a, args, reply) \<in> set (votes (set_node i rf c))" "rVoteGranted reply" for a args reply
      using answer_granted [OF inv _ that(2)] that(1) by simp
  qed
  moreover have "leaders_ok ids (set_node i rf c) h"
    using inv q unfolding votes_inv_def leaders_ok_def quiet_def by (auto simp: fun_upd_apply)
  ultimately show ?thesis using inv by (simp add: votes_inv_def)
qed

section \<open>The events of an election\<close>

lemma election_timeout_cases:
  assumes "election_timeout rf = Some r"
  obtains "r = (None, rf)"
  | args where "r = (Some args, rf\<lparr>state := Candidate, currentTerm := currentTerm rf + 1, votedFor := rid rf\<rparr>)"
      "vTerm args = currentTerm rf + 1" "vCandidateID args = rid rf"
  using assms by (auto simp: election_timeout_def startElection_def Let_def split: if_splits option.splits sum.splits)

lemma votes_inv_timeout:
  assumes inv: "votes_inv ids c h" and ids: "distinct ids" "[] \<notin> set ids" and step: "timeout_event i c = Some c'"
  shows "votes_inv ids c' (remember (Timeout i) c h)"
proof -
  have i: "i \<in> set ids" using step inv by (auto simp: timeout_event_def votes_inv_def ids_ok_def split: if_splits)
  obtain r where r: "election_timeout (nodes c i) = Some r"
    using step by (auto simp: timeout_event_def split: if_splits option.splits)
  have me: "rid (nodes c i) = i" "Peers (nodes c i) = ids" using inv by (simp_all add: votes_inv_def ids_ok_def)
  from r show ?thesis
  proof (cases rule: election_timeout_cases)
    case 1
    then have "c' = set_node i (nodes c i) c" using step r by (auto simp: timeout_event_def split: if_splits)
    then show ?thesis using votes_inv_quiet [OF inv quiet_refl] r 1 by simp
  next
    case (2 args)
    let ?t = "currentTerm (nodes c i) + 1"
    let ?rf = "(nodes c i)\<lparr>state := Candidate, currentTerm := ?t, votedFor := i\<rparr>"
    let ?calls = "map (\<lambda>p. (p, args)) (filter (\<lambda>p. p \<noteq> i) ids)"
    have c': "c' = (set_node i ?rf c)\<lparr>tally := (tally c)((i, ?t) := 1), asked := asked c @ ?calls\<rparr>"
      using step r 2 me by (auto simp: timeout_event_def split: if_splits)
    let ?h = "h\<lparr>granted := insert (i, ?t, i) (granted h), counted := (counted h)((i, ?t) := {i})\<rparr>"
    have h: "remember (Timeout i) c h = ?h" using r 2 me by simp
    have arg: "vTerm args = ?t" "vCandidateID args = i" using 2 me by simp_all
    have fresh: "(p, t, a) \<notin> granted h" if "p = i" "t = ?t" for p t a
      using granted_ok(2) [OF inv, of p t a] that by auto
    have "set (pending c') = set (pending c) \<union> {(p, ?t, i) | p. p \<in> set ids \<and> p \<noteq> i}"
      by (auto simp: c' pending_def arg)
    moreover have new: "(p, ?t, i) \<notin> set (pending c)" for p
      using pending_facts(4) [OF inv, of p ?t i] by auto
    moreover have "distinct (pending c')"
    proof -
      let ?new = "map (\<lambda>p. (p, ?t, i)) (filter (\<lambda>p. p \<noteq> i) ids)"
      have "mset (pending c') = mset (?new @ pending c)" by (simp add: c' pending_def arg comp_def)
      moreover have "distinct (?new @ pending c)"
        using new ids inv by (auto simp: votes_inv_def pending_ok_def distinct_map inj_on_def)
      ultimately show ?thesis using mset_eq_imp_distinct_iff by blast
    qed
    moreover have "t \<le> currentTerm (nodes c j) + 1" if "(p, t, j) \<in> set (pending c)" for p t j
      using pending_facts(4) [OF inv that] by simp
    ultimately have P: "pending_ok ids c' ?h"
      using pending_facts [OF inv] answer_granted [OF inv] i by (intro pending_okI) (auto simp: c')
    have G: "grants_ok c' ?h"
      unfolding grants_ok_def
    proof (intro allI impI)
      fix p t a assume new: "(p, t, a) \<in> granted ?h"
      show "a \<noteq> [] \<and> t \<le> currentTerm (nodes c' p) \<and> (t = currentTerm (nodes c' p) \<longrightarrow> votedFor (nodes c' p) = a)"
      proof (cases "(p, t, a) \<in> granted h")
        case True
        show ?thesis using granted_ok [OF inv True] by (auto simp: c')
      next
        case False
        then show ?thesis using new i ids(2) by (auto simp: c')
      qed
    qed
    have O: "one_vote ?h" using inv fresh unfolding votes_inv_def one_vote_def by auto
    have C: "count_ok ids c' ?h" using inv i unfolding votes_inv_def count_ok_def by (auto simp: c' fun_upd_apply)
    have L: "leaders_ok ids c' ?h" using inv unfolding votes_inv_def leaders_ok_def by (auto simp: c' fun_upd_apply)
    have I: "ids_ok ids c'" using inv by (simp add: c' votes_inv_def ids_ok_def)
    show ?thesis using P G O C L I unfolding h votes_inv_def by blast
  qed
qed

text \<open>A vote asked for: refused, or given once in the term.\<close>

definition gives_vote :: "RequestVoteArgs \<Rightarrow> Raft \<Rightarrow> Raft \<Rightarrow> bool" where
  "gives_vote args rf rf' \<longleftrightarrow> rid rf' = rid rf \<and> Peers rf' = Peers rf \<and> currentTerm rf \<le> vTerm args \<and>
     currentTerm rf' = vTerm args \<and> votedFor rf' = vCandidateID args \<and>
     (currentTerm rf = vTerm args \<longrightarrow> votedFor rf = [] \<or> votedFor rf = vCandidateID args) \<and>
     (state rf' = Leader \<longrightarrow> state rf = Leader \<and> currentTerm rf' = currentTerm rf)"

lemma RequestVote_cases:
  assumes "RequestVote args rf = (reply, rf')"
  obtains "\<not> rVoteGranted reply" "quiet rf rf'" | "rVoteGranted reply" "gives_vote args rf rf'"
  using assms by (auto simp: RequestVote_def Let_def quiet_def gives_vote_def split: if_splits)

lemma gives_vote_term: "gives_vote args rf rf' \<Longrightarrow> currentTerm rf \<le> currentTerm rf'"
  by (simp add: gives_vote_def)

lemma mset_map_remove1: "x \<in> set xs \<Longrightarrow> mset (map f xs) = add_mset (f x) (mset (map f (remove1 x xs)))"
  by (induction xs) auto

lemma pending_answered:
  assumes "(p, args) \<in> set (asked c)"
  shows "mset (pending (c\<lparr>nodes := ns, asked := remove1 (p, args) (asked c), votes := (p, args, reply) # votes c\<rparr>)) =
    mset (pending c)"
  using mset_map_remove1 [OF assms, of "\<lambda>(p, args). (p, vTerm args, vCandidateID args)"]
  by (simp add: pending_def)

lemma votes_inv_vote:
  assumes inv: "votes_inv ids c h" and ids: "[] \<notin> set ids" and step: "vote_event p args c = Some c'"
  shows "votes_inv ids c' (remember (Vote p args) c h)"
proof -
  let ?t = "vTerm args" and ?i = "vCandidateID args"
  obtain reply rf where rv: "RequestVote args (nodes c p) = (reply, rf)" by (cases "RequestVote args (nodes c p)")
  have a: "(p, args) \<in> set (asked c)" using step by (auto simp: vote_event_def split: if_splits)
  have c': "c' = (set_node p rf c)\<lparr>asked := remove1 (p, args) (asked c), votes := (p, args, reply) # votes c\<rparr>"
    using step a rv by (simp add: vote_event_def)
  have ms: "mset (pending c') = mset (pending c)"
    unfolding c' set_node_def using pending_answered [OF a] by simp
  have pend: "set (pending c') = set (pending c)" "distinct (pending c')"
    using mset_eq_setD [OF ms] mset_eq_imp_distinct_iff [OF ms] inv by (simp_all add: votes_inv_def pending_ok_def)
  have member: "(p, ?t, ?i) \<in> set (pending c)" using a by (force simp: pending_def)
  have mono: "currentTerm (nodes c p) \<le> currentTerm rf"
    using rv by (cases rule: RequestVote_cases) (auto simp: quiet_def gives_vote_def)
  have late: "t \<le> currentTerm (nodes c' j)" if "t \<le> currentTerm (nodes c j)" for t j
    using that mono by (auto simp: c')
  from rv show ?thesis
  proof (cases rule: RequestVote_cases)
    case 1
    have "votes_inv ids (set_node p rf c) h" by (rule votes_inv_quiet [OF inv 1(2)])
    moreover have "pending_ok ids c' h"
      using pend pending_facts [OF inv] answer_granted [OF inv] 1(1) late by (intro pending_okI) (auto simp: c')
    ultimately show ?thesis
      using rv 1(1) unfolding votes_inv_def by (simp add: c' ids_ok_def grants_ok_def count_ok_def leaders_ok_def)
  next
    case 2
    note gv = 2(2) [unfolded gives_vote_def]
    let ?h = "h\<lparr>granted := insert (p, ?t, ?i) (granted h)\<rparr>"
    have h: "remember (Vote p args) c h = ?h" using rv 2(1) by simp
    have same: "a = ?i" if "(p, ?t, a) \<in> granted h" for a
      using granted_ok [OF inv that] gv by auto
    have i: "?i \<noteq> []" using pending_facts(2) [OF inv member] ids by metis
    have "ids_ok ids c'" using inv gv by (simp add: c' votes_inv_def ids_ok_def)
    moreover have "grants_ok c' ?h"
      unfolding grants_ok_def
    proof (intro allI impI)
      fix q t a assume new: "(q, t, a) \<in> granted ?h"
      show "a \<noteq> [] \<and> t \<le> currentTerm (nodes c' q) \<and> (t = currentTerm (nodes c' q) \<longrightarrow> votedFor (nodes c' q) = a)"
      proof (cases "(q, t, a) \<in> granted h")
        case True
        show ?thesis using granted_ok [OF inv True] late [of t q] same [of a] True gv by (auto simp: c')
      next
        case False
        then show ?thesis using new i gv by (simp add: c')
      qed
    qed
    moreover have "one_vote ?h" using inv same unfolding votes_inv_def one_vote_def by auto
    moreover have "count_ok ids c' ?h"
      using inv mono unfolding votes_inv_def count_ok_def by (auto simp: c')
    moreover have "pending_ok ids c' ?h"
      using pend pending_facts [OF inv] answer_granted [OF inv] late by (intro pending_okI) (auto simp: c')
    moreover have "leaders_ok ids c' ?h"
      using inv gv unfolding votes_inv_def leaders_ok_def by (auto simp: c')
    ultimately show ?thesis unfolding h votes_inv_def by blast
  qed
qed

text \<open>A reply: stale, a step down, or one more vote in the tally and perhaps the majority.\<close>

lemma vote_reply_cases:
  assumes "vote_reply args reply n rf = Some (m, rf')"
  obtains "m = n" "quiet rf rf'"
  | "rVoteGranted reply" "m = n + 1" "state rf = Candidate" "vTerm args = currentTerm rf" "currentTerm rf' = currentTerm rf"
    "rid rf' = rid rf" "Peers rf' = Peers rf" "votedFor rf' = votedFor rf"
    "state rf' = Leader \<longleftrightarrow> length (Peers rf) div 2 < m"
  using assms follower_quiet
  by (auto simp: vote_reply_def convertToLeader_def split: if_splits option.splits)

lemma pending_replied:
  assumes "(p, args, reply) \<in> set (votes c)"
  shows "mset (pending c) = add_mset (p, vTerm args, vCandidateID args)
    (mset (pending (c\<lparr>nodes := ns, tally := n, votes := remove1 (p, args, reply) (votes c)\<rparr>)))"
  using mset_map_remove1 [OF assms, of "\<lambda>(p, args, reply). (p, vTerm args, vCandidateID args)"]
  by (simp add: pending_def)

lemma votes_inv_reply:
  assumes inv: "votes_inv ids c h" and step: "vote_reply_event p args reply c = Some c'"
  shows "votes_inv ids c' (remember (VoteReply p args reply) c h)"
proof -
  let ?t = "vTerm args" and ?i = "vCandidateID args"
  let ?e = "(?i, ?t)"
  have a: "(p, args, reply) \<in> set (votes c)" using step by (auto simp: vote_reply_event_def split: if_splits)
  obtain n rf where rv: "vote_reply args reply (tally c ?e) (nodes c ?i) = Some (n, rf)"
    using step by (auto simp: vote_reply_event_def Let_def split: if_splits option.splits)
  have c': "c' = (set_node ?i rf c)\<lparr>tally := (tally c)(?e := n), votes := remove1 (p, args, reply) (votes c)\<rparr>"
    using step a rv by (simp add: vote_reply_event_def Let_def)
  let ?h = "if rVoteGranted reply then h\<lparr>counted := (counted h)(?e := insert p (counted h ?e))\<rparr> else h"
  have h: "remember (VoteReply p args reply) c h = ?h" by simp
  have ms: "mset (pending c) = add_mset (p, ?t, ?i) (mset (pending c'))"
    unfolding c' set_node_def using pending_replied [OF a] by simp
  have "distinct ((p, ?t, ?i) # pending c')"
    using mset_eq_imp_distinct_iff [of "pending c" "(p, ?t, ?i) # pending c'"] ms inv
    by (simp add: votes_inv_def pending_ok_def)
  then have gone: "(p, ?t, ?i) \<notin> set (pending c')" and d: "distinct (pending c')" by simp_all
  have sub: "set (pending c) = insert (p, ?t, ?i) (set (pending c'))"
    using arg_cong [OF ms, of set_mset] by simp
  then have member: "(p, ?t, ?i) \<in> set (pending c)" by simp
  note P = pending_facts [OF inv member]
  have fin: "finite (counted h e)" "counted h e \<subseteq> set ids" for e
    using inv finite_subset [of "counted h e" "set ids"] by (cases e; auto simp: votes_inv_def count_ok_def)+
  have card: "card (insert p (counted h ?e)) = Suc (card (counted h ?e))" using P(3) fin(1) by simp
  have le: "tally c ?e \<le> card (counted h ?e)" using inv by (simp add: votes_inv_def count_ok_def)
  have n: "n \<le> card (counted ?h ?e)" and mono: "currentTerm (nodes c ?i) \<le> currentTerm rf"
    and vote: "currentTerm rf = currentTerm (nodes c ?i) \<Longrightarrow> votedFor rf = votedFor (nodes c ?i)"
    and id: "rid rf = rid (nodes c ?i)" "Peers rf = Peers (nodes c ?i)"
    and lead: "state rf = Leader \<Longrightarrow> state (nodes c ?i) = Leader \<and> currentTerm rf = currentTerm (nodes c ?i) \<or>
      currentTerm rf = ?t \<and> length (Peers (nodes c ?i)) div 2 < n"
    using rv le card by (cases rule: vote_reply_cases; auto simp: quiet_def)+
  have grow: "counted h e \<subseteq> counted ?h e" "card (counted h e) \<le> card (counted ?h e)" for e
    using card by auto
  have late: "t \<le> currentTerm (nodes c' j)" if "t \<le> currentTerm (nodes c j)" for t j
    using that mono by (auto simp: c')
  have G: "granted ?h = granted h" by simp
  have "ids_ok ids c'" using inv id by (simp add: c' votes_inv_def ids_ok_def)
  moreover have "grants_ok c' ?h"
    unfolding grants_ok_def G
  proof (intro allI impI)
    fix q t a assume g: "(q, t, a) \<in> granted h"
    show "a \<noteq> [] \<and> t \<le> currentTerm (nodes c' q) \<and> (t = currentTerm (nodes c' q) \<longrightarrow> votedFor (nodes c' q) = a)"
      using granted_ok [OF inv g] late [of t q] vote mono by (auto simp: c')
  qed
  moreover have "one_vote ?h" using inv by (simp add: votes_inv_def one_vote_def)
  moreover have "count_ok ids c' ?h"
    unfolding count_ok_def G
  proof (intro allI conjI)
    fix j t
    have C: "counted h (j, t) \<subseteq> set ids" "tally c (j, t) \<le> card (counted h (j, t))"
      "\<forall>q \<in> counted h (j, t). (q, t, j) \<in> granted h" "currentTerm (nodes c j) < t \<longrightarrow> counted h (j, t) = {}"
      using inv by (auto simp: votes_inv_def count_ok_def)
    show "counted ?h (j, t) \<subseteq> set ids" using C(1) P(1) by auto
    show "tally c' (j, t) \<le> card (counted ?h (j, t))"
    proof (cases "(j, t) = ?e")
      case True
      have "tally c' ?e = n" by (simp add: c')
      then show ?thesis using n by (simp only: True)
    next
      case False
      then have "tally c' (j, t) = tally c (j, t)" by (auto simp: c')
      then show ?thesis using order_trans [OF C(2) grow(2)] by (simp only:)
    qed
    show "\<forall>q \<in> counted ?h (j, t). (q, t, j) \<in> granted h"
      using C(3) answer_granted [OF inv a] by auto
    show "currentTerm (nodes c' j) < t \<longrightarrow> counted ?h (j, t) = {}"
      using C(4) late [of t j] late [OF P(4)] by (auto simp: c' split: if_splits)
  qed
  moreover have "pending_ok ids c' ?h"
  proof (rule pending_okI [OF d])
    fix q t j assume q: "(q, t, j) \<in> set (pending c')"
    then have "(q, t, j) \<in> set (pending c)" using sub by simp
    note Q = pending_facts [OF inv this]
    have "q \<notin> counted ?h (j, t)" using Q(3) q gone by auto
    then show "q \<in> set ids \<and> j \<in> set ids \<and> q \<notin> counted ?h (j, t) \<and> t \<le> currentTerm (nodes c' j)"
      using Q late by blast
  next
    fix q b r assume "(q, b, r) \<in> set (votes c')" "rVoteGranted r"
    then show "(q, vTerm b, vCandidateID b) \<in> granted ?h"
      unfolding G using answer_granted [OF inv] notin_set_remove1 by (fastforce simp: c' dest: set_remove1_subset [THEN subsetD])
  qed
  moreover have "leaders_ok ids c' ?h"
    unfolding leaders_ok_def
  proof (intro allI impI)
    fix j assume l: "state (nodes c' j) = Leader"
    have old: "length ids div 2 < card (counted h (j, currentTerm (nodes c j)))" if "state (nodes c j) = Leader"
      using inv that by (simp add: votes_inv_def leaders_ok_def)
    have len: "length (Peers (nodes c ?i)) = length ids" using inv by (simp add: votes_inv_def ids_ok_def)
    show "length ids div 2 < card (counted ?h (j, currentTerm (nodes c' j)))"
    proof (cases "j = ?i")
      case True
      then show ?thesis
        using lead old l n len grow(2) [of "(j, currentTerm (nodes c j))"] by (auto simp: c' dest: less_le_trans)
    next
      case False
      then show ?thesis using old l grow(2) [of "(j, currentTerm (nodes c j))"] by (simp add: c')
    qed
  qed
  ultimately show ?thesis unfolding h votes_inv_def by blast
qed

section \<open>Every event\<close>

definition cluster_ids :: "node_id list \<Rightarrow> bool" where
  "cluster_ids ids \<longleftrightarrow> distinct ids \<and> [] \<notin> set ids"

lemma local_event_quiet:
  assumes "votes_inv ids c h" and "local_event i r c = Some c'" and "\<And>rf. r = Some rf \<Longrightarrow> quiet (nodes c i) rf"
  shows "votes_inv ids c' h"
  using assms votes_inv_quiet by (auto simp: local_event_def split: if_splits option.splits)

lemma votes_inv_step:
  assumes inv: "votes_inv ids c h" and ids: "cluster_ids ids" and step: "cluster_step e c = Some c'"
    and e: "\<And>i. e \<noteq> Restart i"
  shows "votes_inv ids c' (remember e c h)"
proof (cases e)
  case (Timeout i)
  then show ?thesis using votes_inv_timeout [OF inv] ids step by (simp add: cluster_ids_def)
next
  case (Vote p args)
  then show ?thesis using votes_inv_vote [OF inv] ids step by (simp add: cluster_ids_def)
next
  case (VoteReply p args reply)
  then show ?thesis using votes_inv_reply [OF inv] step by simp
next
  case (Replicate i p)
  then show ?thesis using inv step by (auto simp: replicate_event_def split: if_splits option.splits)
next
  case (Append p args)
  obtain reply rf where rf: "AppendEntries args (nodes c p) = Some (reply, rf)"
    "c' = (set_node p rf c)\<lparr>appends := remove1 (p, args) (appends c), acks := (p, args, reply) # acks c\<rparr>"
    using step by (auto simp: Append append_event_def split: if_splits option.splits)
  then show ?thesis using votes_inv_quiet [OF inv AppendEntries_quiet [OF rf(1)]] by (simp add: Append)
next
  case (AppendReply p args reply)
  obtain rf where rf: "replicate_reply p args reply (nodes c (aLeaderID args)) = Some rf"
    "c' = (set_node (aLeaderID args) rf c)\<lparr>acks := remove1 (p, args, reply) (acks c)\<rparr>"
    using step by (auto simp: AppendReply ack_event_def split: if_splits option.splits)
  then show ?thesis using votes_inv_quiet [OF inv replicate_reply_quiet [OF rf(1)]] by (simp add: AppendReply)
next
  case (Client i cmd)
  then show ?thesis using local_event_quiet [OF inv] Propose_quiet step by (fastforce split: prod.splits)
next
  case (Apply i)
  then show ?thesis using local_event_quiet [OF inv] applyLogs_quiet step by fastforce
next
  case (Compact i k)
  then show ?thesis using local_event_quiet [OF inv] Snapshot_quiet step by fastforce
next
  case (Restart i)
  then show ?thesis using e by blast
qed

lemma counted_grows:
  assumes inv: "votes_inv ids c h"
  shows "counted h k \<subseteq> counted (remember e c h) k"
proof (cases e)
  case (Timeout i)
  have "counted h (i, t) = {}" if "currentTerm (nodes c i) < t" for t
    using inv that by (simp add: votes_inv_def count_ok_def)
  then show ?thesis
    by (auto simp: Timeout election_timeout_def startElection_def Let_def split: option.splits sum.splits if_splits)
qed auto

lemma votes_inv_run:
  assumes "votes_inv ids c h" and "cluster_ids ids" and "no_restart es" and "cluster_run es c = Some c'"
  shows "\<exists>h'. votes_inv ids c' h' \<and> (\<forall>k. counted h k \<subseteq> counted h' k)"
  using assms
proof (induction es arbitrary: c h)
  case Nil
  then show ?case by auto
next
  case (Cons e es)
  obtain c1 where c1: "cluster_step e c = Some c1" "cluster_run es c1 = Some c'"
    using Cons.prems(4) by (auto split: option.splits)
  have "\<And>i. e \<noteq> Restart i" "no_restart es" using Cons.prems(3) by (auto simp: no_restart_def)
  note I = votes_inv_step [OF Cons.prems(1,2) c1(1) this(1)]
  obtain h' where "votes_inv ids c' h'" "\<forall>k. counted (remember e c h) k \<subseteq> counted h' k"
    using Cons.IH [OF I Cons.prems(2) \<open>no_restart es\<close> c1(2)] by blast
  then show ?case using counted_grows [OF Cons.prems(1)] by blast
qed

text \<open>Two counts above half of the members share a member, and a member votes once per term.\<close>

lemma majorities_meet:
  assumes "distinct ids" and "A \<subseteq> set ids" and "B \<subseteq> set ids" and "length ids div 2 < card A" and "length ids div 2 < card B"
  shows "\<exists>p. p \<in> A \<and> p \<in> B"
proof -
  have "card (A \<union> B) \<le> length ids"
    using assms(1-3) card_mono [of "set ids" "A \<union> B"] by (simp add: distinct_card)
  moreover have "card A + card B = card (A \<union> B) + card (A \<inter> B)"
    using assms(2,3) by (intro card_Un_Int) (auto intro: finite_subset)
  ultimately have "0 < card (A \<inter> B)" using assms(4,5) by linarith
  then show ?thesis by (auto simp: card_gt_0_iff)
qed

lemma winners_agree:
  assumes inv: "votes_inv ids c h" and ids: "cluster_ids ids"
    and "length ids div 2 < card (counted h (i, t))" and "length ids div 2 < card (counted h (j, t))"
  shows "i = j"
proof -
  have C: "counted h (k, t) \<subseteq> set ids" "\<forall>p \<in> counted h (k, t). (p, t, k) \<in> granted h" for k
    using inv by (auto simp: votes_inv_def count_ok_def)
  then obtain p where "p \<in> counted h (i, t)" "p \<in> counted h (j, t)"
    using majorities_meet [OF _ C(1) C(1) assms(3,4)] ids by (auto simp: cluster_ids_def)
  then have "(p, t, i) \<in> granted h" "(p, t, j) \<in> granted h" using C(2) by blast+
  then show ?thesis using inv unfolding votes_inv_def one_vote_def by blast
qed

text \<open>C1. Election safety. In a cluster whose nodes have distinct nonempty identities and all list the same
  peers, however calls and replies are delayed, reordered or lost, and whatever proposals, log
  contents and compactions do, as long as no process restarts: a node that is leader in some term and
  a node that is leader in the same term at that moment or any later one are the same node.\<close>

theorem election_safety:
  assumes "cluster_ids ids" and "no_restart (es @ fs)"
    and "cluster_run es (cluster_init ids) = Some c" and "cluster_run fs c = Some d"
    and "state (nodes c i) = Leader" and "state (nodes d j) = Leader"
    and "currentTerm (nodes c i) = currentTerm (nodes d j)"
  shows "i = j"
proof -
  have nr: "no_restart es" "no_restart fs" using assms(2) by (auto simp: no_restart_def)
  obtain h where h: "votes_inv ids c h" using votes_inv_run [OF votes_inv_init assms(1) nr(1) assms(3)] by blast
  obtain k where k: "votes_inv ids d k" "\<forall>e. counted h e \<subseteq> counted k e"
    using votes_inv_run [OF h assms(1) nr(2) assms(4)] by blast
  let ?t = "currentTerm (nodes c i)"
  have "finite (counted k (i, ?t))"
    using k(1) finite_subset [of _ "set ids"] by (auto simp: votes_inv_def count_ok_def)
  then have "card (counted h (i, ?t)) \<le> card (counted k (i, ?t))" using k(2) by (simp add: card_mono)
  moreover have "length ids div 2 < card (counted h (i, ?t))" using h assms(5) by (simp add: votes_inv_def leaders_ok_def)
  moreover have "length ids div 2 < card (counted k (j, ?t))" using k(1) assms(6,7) by (simp add: votes_inv_def leaders_ok_def)
  ultimately show ?thesis using winners_agree [OF k(1) assms(1)] by (meson less_le_trans)
qed

text \<open>The calls and answers of a first election, for the example runs.\<close>

definition vote_call :: "int \<Rightarrow> node_id \<Rightarrow> int \<Rightarrow> int \<Rightarrow> RequestVoteArgs" where
  "vote_call t i n lt = \<lparr>vTerm = t, vCandidateID = i, vLastLogIndex = n, vLastLogTerm = lt\<rparr>"

definition yes_vote :: "int \<Rightarrow> RequestVoteReply" where
  "yes_vote t = \<lparr>rTerm = t, rVoteGranted = True\<rparr>"

text \<open>A node asks, one peer votes for it and the answer arrives.\<close>

definition ask :: "node_id \<Rightarrow> RequestVoteArgs \<Rightarrow> event list" where
  "ask q args = [Vote q args, VoteReply q args (yes_vote (vTerm args))]"

lemma election_safety_witness:
  "\<exists>c. cluster_run (Timeout ''a'' # ask ''b'' (vote_call 1 ''a'' 0 0)) (cluster_init [''a'', ''b'', ''c'']) = Some c \<and>
     state (nodes c ''a'') = Leader \<and>
     (\<forall>j. state (nodes c j) = Leader \<and> currentTerm (nodes c j) = 1 \<longrightarrow> j = ''a'')"
proof -
  let ?es = "Timeout ''a'' # ask ''b'' (vote_call 1 ''a'' 0 0)" and ?ids = "[''a'', ''b'', ''c'']"
  have r: "map_option (\<lambda>c. (state (nodes c ''a''), currentTerm (nodes c ''a''))) (cluster_run ?es (cluster_init ?ids)) = Some (Leader, 1)"
    by code_simp
  then obtain c where c: "cluster_run ?es (cluster_init ?ids) = Some c" "state (nodes c ''a'') = Leader"
    "currentTerm (nodes c ''a'') = 1" by auto
  have ids: "cluster_ids ?ids" "no_restart (?es @ [])" by (simp_all add: cluster_ids_def no_restart_def ask_def)
  have "''a'' = j" if "state (nodes c j) = Leader" "currentTerm (nodes c j) = 1" for j
    by (rule election_safety [OF ids c(1) _ c(2) that(1)]) (simp_all add: c(3) that(2))
  then show ?thesis using c by blast
qed

section \<open>An undisturbed candidate wins\<close>

lemma ask_run:
  assumes "(q, args) \<in> set (asked c)" and "currentTerm (nodes c q) < vTerm args" and "q \<noteq> vCandidateID args"
    and "vote_reply args (yes_vote (vTerm args)) (tally c (vCandidateID args, vTerm args)) (nodes c (vCandidateID args)) = Some (n, rf)"
  shows "\<exists>c'. cluster_run (ask q args) c = Some c' \<and> nodes c' (vCandidateID args) = rf \<and>
    tally c' (vCandidateID args, vTerm args) = n \<and> asked c' = remove1 (q, args) (asked c) \<and>
    (\<forall>p. p \<noteq> q \<longrightarrow> p \<noteq> vCandidateID args \<longrightarrow> nodes c' p = nodes c p)"
proof -
  have v: "fst (RequestVote args (nodes c q)) = yes_vote (vTerm args)"
    using assms(2) by (simp add: RequestVote_def yes_vote_def)
  then have "RequestVote args (nodes c q) = (yes_vote (vTerm args), snd (RequestVote args (nodes c q)))"
    by (metis prod.collapse)
  then obtain r where r: "RequestVote args (nodes c q) = (yes_vote (vTerm args), r)" by blast
  show ?thesis using assms(1,3,4) r by (simp add: ask_def vote_event_def vote_reply_event_def Let_def)
qed

text \<open>The candidate during its campaign: leader already, or still counting.\<close>

definition campaigning :: "node_id \<Rightarrow> int \<Rightarrow> nat \<Rightarrow> cluster \<Rightarrow> bool" where
  "campaigning i t m c \<longleftrightarrow> currentTerm (nodes c i) = t \<and> logStore (nodes c i) \<noteq> [] \<and>
     (state (nodes c i) = Leader \<or> state (nodes c i) = Candidate \<and> tally c (i, t) = m \<and>
       m \<le> length (Peers (nodes c i)) div 2)"

lemma campaigning_reply:
  assumes "campaigning i t m c" and "vTerm args = t"
  obtains n rf where "vote_reply args (yes_vote t) (tally c (i, t)) (nodes c i) = Some (n, rf)"
    "Peers rf = Peers (nodes c i)" "\<And>c'. nodes c' i = rf \<Longrightarrow> tally c' (i, t) = n \<Longrightarrow> campaigning i t (m + 1) c'"
proof -
  note defs = campaigning_def vote_reply_def yes_vote_def convertToLeader_def LastIndex_def
  let ?rf = "nodes c i"
  consider "state ?rf = Leader" | "state ?rf = Candidate" "length (Peers ?rf) div 2 < m + 1"
    | "state ?rf = Candidate" "m + 1 \<le> length (Peers ?rf) div 2" using assms(1) by (force simp: campaigning_def)
  then show thesis
  proof cases
    case 1
    then show ?thesis using assms by (intro that [of "tally c (i, t)" ?rf]) (simp_all add: defs)
  next
    case 2
    obtain rf where rf: "convertToLeader ?rf = Some rf" "state rf = Leader" "currentTerm rf = currentTerm ?rf"
      "logStore rf = logStore ?rf" "Peers rf = Peers ?rf" using 2 assms(1) by (simp add: defs)
    then show ?thesis using 2 assms
      by (intro that [of "m + 1" rf]) (simp_all add: campaigning_def vote_reply_def yes_vote_def)
  next
    case 3
    then show ?thesis using assms by (intro that [of "m + 1" ?rf]) (simp_all add: defs)
  qed
qed

lemma campaign_run:
  assumes "vTerm args = t" and "vCandidateID args = i"
  shows "campaigning i t m c \<Longrightarrow> distinct qs \<Longrightarrow> i \<notin> set qs \<Longrightarrow> \<forall>q \<in> set qs. (q, args) \<in> set (asked c) \<Longrightarrow>
    \<forall>q \<in> set qs. currentTerm (nodes c q) < t \<Longrightarrow>
    \<exists>c'. cluster_run (concat (map (\<lambda>q. ask q args) qs)) c = Some c' \<and> campaigning i t (m + length qs) c' \<and>
      Peers (nodes c' i) = Peers (nodes c i)"
proof (induction qs arbitrary: c m)
  case Nil
  then show ?case by simp
next
  case (Cons q qs)
  obtain n rf where rf: "vote_reply args (yes_vote t) (tally c (i, t)) (nodes c i) = Some (n, rf)"
    "Peers rf = Peers (nodes c i)" "\<And>c'. nodes c' i = rf \<Longrightarrow> tally c' (i, t) = n \<Longrightarrow> campaigning i t (m + 1) c'"
    using campaigning_reply [OF Cons.prems(1) assms(1)] by blast
  obtain c1 where c1: "cluster_run (ask q args) c = Some c1" "nodes c1 i = rf" "tally c1 (i, t) = n"
    "asked c1 = remove1 (q, args) (asked c)" "\<And>p. p \<noteq> q \<Longrightarrow> p \<noteq> i \<Longrightarrow> nodes c1 p = nodes c p"
    using ask_run [of q args c n rf] Cons.prems(3-5) rf(1) by (auto simp: assms)
  have "\<exists>c'. cluster_run (concat (map (\<lambda>q. ask q args) qs)) c1 = Some c' \<and> campaigning i t (m + 1 + length qs) c' \<and>
      Peers (nodes c' i) = Peers (nodes c1 i)"
  proof (rule Cons.IH)
    show "campaigning i t (m + 1) c1" by (rule rf(3) [OF c1(2,3)])
    show "\<forall>p \<in> set qs. (p, args) \<in> set (asked c1)"
    proof
      fix p assume "p \<in> set qs"
      then have "p \<noteq> q" "(p, args) \<in> set (asked c)" using Cons.prems(2,4) by auto
      then show "(p, args) \<in> set (asked c1)" by (simp add: c1(4))
    qed
    show "\<forall>q \<in> set qs. currentTerm (nodes c1 q) < t"
    proof
      fix p assume "p \<in> set qs"
      then have "p \<noteq> q" "p \<noteq> i" "currentTerm (nodes c p) < t" using Cons.prems(2,3,5) by auto
      then show "currentTerm (nodes c1 p) < t" using c1(5) by simp
    qed
  qed (use Cons.prems(2,3) in auto)
  then show ?case using c1(1,2) rf(2) by (simp add: cluster_run_append)
qed

text \<open>C38. Liveness of an election: when the timer of a node that is not leader fires, its log is not empty, and
  half of its peers, none in a higher term, receive its call and have their answers delivered before
  anything else happens to them, the node becomes leader of the next term.\<close>

theorem undisturbed_candidate_wins:
  assumes "i \<in> set (members c)" and "state (nodes c i) \<noteq> Leader" and "log_good (logStore (nodes c i))"
    and "rid (nodes c i) = i" and "2 \<le> length (Peers (nodes c i))"
    and "distinct qs" and "set qs \<subseteq> set (Peers (nodes c i)) - {i}" and "length (Peers (nodes c i)) div 2 \<le> length qs"
    and "\<forall>q \<in> set qs. currentTerm (nodes c q) \<le> currentTerm (nodes c i)"
  shows "\<exists>args c'. cluster_run (Timeout i # concat (map (\<lambda>q. ask q args) qs)) c = Some c' \<and>
    state (nodes c' i) = Leader \<and> currentTerm (nodes c' i) = currentTerm (nodes c i) + 1"
proof -
  let ?t = "currentTerm (nodes c i) + 1"
  let ?rf = "(nodes c i)\<lparr>state := Candidate, currentTerm := ?t, votedFor := i\<rparr>"
  obtain n where n: "LastIndex (logStore (nodes c i)) = Some n" using mem_log.bounds [OF assms(3)] by blast
  obtain e where e: "log_view (logStore (nodes c i)) n = Some e" using mem_log.last_view [OF assms(3) n] by blast
  have get: "GetLog n (logStore (nodes c i)) = Some (Inr e)" using mem_log.get_iff [OF assms(3)] e by blast
  define args where "args = vote_call ?t i n (Term e)"
  let ?c = "(set_node i ?rf c)\<lparr>tally := (tally c)((i, ?t) := 1),
      asked := asked c @ map (\<lambda>p. (p, args)) (filter (\<lambda>p. p \<noteq> i) (Peers (nodes c i)))\<rparr>"
  have t: "cluster_step (Timeout i) c = Some ?c"
    using assms(1,2,4) n get by (simp add: timeout_event_def election_timeout_def startElection_def args_def vote_call_def)
  have "campaigning i ?t 1 ?c" using assms(3,5) by (simp add: campaigning_def log_good_def)
  moreover have "vTerm args = ?t" "vCandidateID args = i" by (simp_all add: args_def vote_call_def)
  moreover have "i \<notin> set qs" "\<forall>q \<in> set qs. (q, args) \<in> set (asked ?c)" "\<forall>q \<in> set qs. currentTerm (nodes ?c q) < ?t"
    using assms(7,9) by auto
  ultimately obtain c' where c': "cluster_run (concat (map (\<lambda>q. ask q args) qs)) ?c = Some c'"
    "campaigning i ?t (1 + length qs) c'" "Peers (nodes c' i) = Peers (nodes ?c i)"
    using campaign_run assms(6) by blast
  then have "state (nodes c' i) = Leader" using assms(8) by (simp add: campaigning_def)
  then show ?thesis using t c' by (intro exI [of _ args] exI [of _ c']) (simp add: campaigning_def)
qed

lemma undisturbed_candidate_wins_witness:
  "\<exists>args c'. cluster_run (Timeout ''a'' # concat (map (\<lambda>q. ask q args) [''b''])) (cluster_init [''a'', ''b'', ''c'']) = Some c' \<and>
    state (nodes c' ''a'') = Leader"
proof -
  let ?c = "cluster_init [''a'', ''b'', ''c'']"
  have h: "''a'' \<in> set (members ?c)" "state (nodes ?c ''a'') \<noteq> Leader" "log_good (logStore (nodes ?c ''a''))"
    "rid (nodes ?c ''a'') = ''a''" "2 \<le> length (Peers (nodes ?c ''a''))" "distinct [''b'']"
    "set [''b''] \<subseteq> set (Peers (nodes ?c ''a'')) - {''a''}" "length (Peers (nodes ?c ''a'')) div 2 \<le> length [''b'']"
    "\<forall>q \<in> set [''b'']. currentTerm (nodes ?c q) \<le> currentTerm (nodes ?c ''a'')"
    using NewMemoryLogStore_good by (simp_all add: cluster_init_def NewRaft_def)
  from undisturbed_candidate_wins [OF h] show ?thesis by blast
qed

end
