(* ===== verification/RaftLimits.thy ===== *)
theory RaftLimits
  imports RaftElection
begin

text \<open>
  What a cluster does not give: a committed entry can be replaced, a restarted node votes twice, a
  cluster of one never has a leader. The first two are runs of the model, evaluated.
\<close>

section \<open>A cluster of one\<close>

definition leaderless :: "node_id list \<Rightarrow> cluster \<Rightarrow> bool" where
  "leaderless ids c \<longleftrightarrow> members c = ids \<and> asked c = [] \<and> votes c = [] \<and>
     (\<forall>i. rid (nodes c i) = i \<and> Peers (nodes c i) = ids \<and> state (nodes c i) \<noteq> Leader)"

lemma leaderless_node:
  "leaderless ids c \<Longrightarrow> quiet (nodes c i) rf \<Longrightarrow> leaderless ids (set_node i rf c)"
  by (auto simp: leaderless_def quiet_def)

lemma leaderless_appends [simp]:
  "leaderless ids (c\<lparr>appends := x\<rparr>) = leaderless ids c" "leaderless ids (c\<lparr>acks := y\<rparr>) = leaderless ids c"
  "leaderless ids (c\<lparr>appends := x, acks := y\<rparr>) = leaderless ids c"
  by (simp_all add: leaderless_def)

lemma alone: "length ids \<le> 1 \<Longrightarrow> i \<in> set ids \<Longrightarrow> filter (\<lambda>p. p \<noteq> i) ids = []"
  by (cases ids) auto

lemma leaderless_timeout:
  assumes c: "leaderless ids c" and len: "length ids \<le> 1" and step: "timeout_event i c = Some c'"
  shows "leaderless ids c'"
proof -
  have i: "i \<in> set ids" using step c by (auto simp: timeout_event_def leaderless_def split: if_splits)
  obtain r where r: "election_timeout (nodes c i) = Some r"
    using step by (auto simp: timeout_event_def split: if_splits option.splits)
  from r show ?thesis
  proof (cases rule: election_timeout_cases)
    case 1
    then show ?thesis using step r leaderless_node [OF c quiet_refl] by (auto simp: timeout_event_def split: if_splits)
  next
    case (2 args)
    then show ?thesis using step r c alone [OF len i] by (auto simp: timeout_event_def leaderless_def split: if_splits)
  qed
qed

lemma leaderless_step:
  assumes c: "leaderless ids c" and len: "length ids \<le> 1" and step: "cluster_step e c = Some c'"
  shows "leaderless ids c'"
proof (cases e)
  case (Timeout i)
  then show ?thesis using leaderless_timeout [OF c len] step by simp
next
  case (Vote p args)
  then show ?thesis using c step by (simp add: vote_event_def leaderless_def)
next
  case (VoteReply p args reply)
  then show ?thesis using c step by (simp add: vote_reply_event_def leaderless_def)
next
  case (Replicate i p)
  then show ?thesis using c step by (auto simp: replicate_event_def split: if_splits option.splits)
next
  case (Append p args)
  then show ?thesis using step leaderless_node [OF c AppendEntries_quiet]
    by (auto simp: append_event_def split: if_splits option.splits)
next
  case (AppendReply p args reply)
  then show ?thesis using step leaderless_node [OF c replicate_reply_quiet]
    by (auto simp: ack_event_def split: if_splits option.splits)
next
  case (Client i cmd)
  then show ?thesis using step leaderless_node [OF c Propose_quiet]
    by (auto simp: local_event_def split: if_splits option.splits)
next
  case (Apply i)
  then show ?thesis using step leaderless_node [OF c applyLogs_quiet]
    by (auto simp: local_event_def split: if_splits option.splits)
next
  case (Compact i k)
  then show ?thesis using step leaderless_node [OF c Snapshot_quiet]
    by (auto simp: local_event_def split: if_splits option.splits)
next
  case (Restart i)
  then show ?thesis using step c by (auto simp: restart_event_def leaderless_def NewRaft_def split: if_splits)
qed

lemma leaderless_run:
  "leaderless ids c \<Longrightarrow> length ids \<le> 1 \<Longrightarrow> cluster_run es c = Some c' \<Longrightarrow> leaderless ids c'"
  by (induction es arbitrary: c) (auto dest: leaderless_step split: option.splits)

text \<open>A cluster of one node never gets a leader, whatever happens and however long it waits: a majority is
  only looked for when a peer's vote arrives, and there is no peer. Every proposal is refused for
  ever.\<close>

theorem single_node_never_leads:
  assumes "length ids \<le> 1" and "cluster_run es (cluster_init ids) = Some c"
  shows "state (nodes c i) \<noteq> Leader \<and> Propose cmd (nodes c i) = Some ((-1, -1, False), nodes c i)"
proof -
  have "leaderless ids (cluster_init ids)" by (simp add: leaderless_def cluster_init_def NewRaft_def)
  from leaderless_run [OF this assms] have "state (nodes c i) \<noteq> Leader" by (simp add: leaderless_def)
  then show ?thesis by (simp add: Propose_def)
qed

lemma single_node_never_leads_witness:
  "\<exists>c. cluster_run [Timeout ''a'', Timeout ''a''] (cluster_init [''a'']) = Some c \<and> state (nodes c ''a'') \<noteq> Leader"
proof -
  have r: "map_option (\<lambda>c. currentTerm (nodes c ''a'')) (cluster_run [Timeout ''a'', Timeout ''a''] (cluster_init [''a''])) = Some 2"
    by code_simp
  then obtain c where c: "cluster_run [Timeout ''a'', Timeout ''a''] (cluster_init [''a'']) = Some c" by auto
  have "length [''a''] \<le> (1::nat)" by simp
  from single_node_never_leads [OF this c, of "''a''"] c show ?thesis by blast
qed

section \<open>A restart\<close>

text \<open>Node a is elected by b; b restarts, has forgotten its vote, and elects c in the same term.\<close>

definition double_election :: "event list" where
  "double_election = Timeout ''a'' # ask ''b'' (vote_call 1 ''a'' 0 0) @
     [Restart ''b'', Timeout ''c''] @ ask ''b'' (vote_call 1 ''c'' 0 0)"

text \<open>The term and the vote, though called persistent, live in memory: with one restart between two
  elections a cluster of three has two leaders in one term.\<close>

theorem restart_elects_two_leaders:
  "\<exists>c. cluster_run double_election (cluster_init [''a'', ''b'', ''c'']) = Some c \<and>
     state (nodes c ''a'') = Leader \<and> state (nodes c ''c'') = Leader \<and>
     currentTerm (nodes c ''a'') = currentTerm (nodes c ''c'')"
proof -
  have "map_option (\<lambda>c. (state (nodes c ''a''), state (nodes c ''c''), currentTerm (nodes c ''a''), currentTerm (nodes c ''c'')))
      (cluster_run double_election (cluster_init [''a'', ''b'', ''c''])) = Some (Leader, Leader, 1, 1)"
    by code_simp
  then show ?thesis by auto
qed

section \<open>A committed entry replaced\<close>

text \<open>
  What a leader sends for the entry at index 1, its next call, which brings the commit index, and the
  events that make \<open>i\<close>, already a candidate, leader by the vote of \<open>p\<close> and commit and apply \<open>cmd\<close> on both.
\<close>

definition first_entry :: "int \<Rightarrow> node_id \<Rightarrow> command \<Rightarrow> AppendEntriesArgs" where
  "first_entry t i cmd = \<lparr>aTerm = t, aLeaderID = i, aPrevLogIndex = 0, aPrevLogTerm = 0,
     aEntries = [entry t 1 cmd], aLeaderCommit = 0\<rparr>"

definition commit_news :: "int \<Rightarrow> node_id \<Rightarrow> AppendEntriesArgs" where
  "commit_news t i = \<lparr>aTerm = t, aLeaderID = i, aPrevLogIndex = 1, aPrevLogTerm = t, aEntries = [], aLeaderCommit = 1\<rparr>"

definition commit_first :: "int \<Rightarrow> node_id \<Rightarrow> node_id \<Rightarrow> command \<Rightarrow> event list" where
  "commit_first t i p cmd = ask p (vote_call t i 0 0) @
     [Client i cmd, Replicate i p, Append p (first_entry t i cmd),
      AppendReply p (first_entry t i cmd) \<lparr>eTerm = t, eSuccess = True\<rparr>, Apply i,
      Replicate i p, Append p (commit_news t i), Apply p]"

text \<open>
  Node \<open>a\<close> commits \<open>x\<close> through \<open>b\<close>. Then \<open>c\<close>, with an empty log, times out twice, is elected by \<open>b\<close> and
  commits \<open>y\<close> through \<open>b\<close>.
\<close>

definition committing :: "node_id \<Rightarrow> node_id \<Rightarrow> command \<Rightarrow> event list" where
  "committing a b x = Timeout a # commit_first 1 a b x"

definition overwriting :: "node_id \<Rightarrow> node_id \<Rightarrow> command \<Rightarrow> event list" where
  "overwriting c b y = [Timeout c, Timeout c] @ commit_first 2 c b y"

definition holds_first :: "cluster \<Rightarrow> node_id \<Rightarrow> command \<Rightarrow> bool" where
  "holds_first u p cmd \<longleftrightarrow> map_option Command (log_view (logStore (nodes u p)) 1) = Some cmd"

lemmas event_defs = timeout_event_def vote_event_def vote_reply_event_def replicate_event_def append_event_def
  ack_event_def local_event_def election_timeout_def startElection_def RequestVote_def vote_reply_def convertToLeader_def
  Propose_def replicate_args_def read_range_def AppendEntries_def prev_mismatch_def advance_commit_def
  replicate_reply_def updateCommitIndex_def ack_count_def applyLogs_def store_defs convertToFollower_def commit_first_def
  ask_def first_entry_def commit_news_def vote_call_def yes_vote_def entry_def cluster_init_def NewRaft_def
  NewMemoryLogStore_def

text \<open>C15. A committed entry can be replaced, since a vote is given without looking at the candidate's log.
  For any three distinct nonempty node IDs and any two commands there is a run, with no restart and no compaction, with
  these two moments. At the first, node a is the leader and two of the three nodes, a and b, hold x
  at index 1, have committed it and have applied it. At the second, b and c hold y at index 1 with
  commit index 1, although a and b have applied x there, and c has applied y: b's committed entry
  has been deleted, and a and c have applied different commands at one index.\<close>

theorem committed_entry_replaced:
  assumes "distinct [a, b, c]" and "[] \<notin> {a, b, c}"
  shows "no_restart (committing a b x @ overwriting c b y) \<and> no_compaction (committing a b x @ overwriting c b y) \<and>
    (\<exists>u v. cluster_run (committing a b x) (cluster_init [a, b, c]) = Some u \<and> cluster_run (overwriting c b y) u = Some v \<and>
      state (nodes u a) = Leader \<and> holds_first u a x \<and> holds_first u b x \<and>
      commitIndex (nodes u a) = 1 \<and> commitIndex (nodes u b) = 1 \<and>
      applied (nodes u a) = [(x, 1)] \<and> applied (nodes u b) = [(x, 1)] \<and>
      state (nodes v c) = Leader \<and> holds_first v b y \<and> holds_first v c y \<and>
      commitIndex (nodes v b) = 1 \<and> commitIndex (nodes v c) = 1 \<and>
      applied (nodes v a) = [(x, 1)] \<and> applied (nodes v b) = [(x, 1)] \<and> applied (nodes v c) = [(y, 1)])"
proof -
  have ne: "a \<noteq> b" "b \<noteq> a" "a \<noteq> c" "c \<noteq> a" "b \<noteq> c" "c \<noteq> b" "a \<noteq> []" "b \<noteq> []" "c \<noteq> []" using assms by auto
  have "no_restart (committing a b x @ overwriting c b y)" "no_compaction (committing a b x @ overwriting c b y)"
    by (simp_all add: no_restart_def no_compaction_def committing_def overwriting_def commit_first_def ask_def)
  then show ?thesis
    by (simp add: committing_def overwriting_def holds_first_def log_view_def event_defs Let_def List.map_filter_def ne)
qed

lemma committed_entry_replaced_witness:
  "\<exists>u v. cluster_run (committing ''a'' ''b'' ''x'') (cluster_init [''a'', ''b'', ''c'']) = Some u \<and>
     cluster_run (overwriting ''c'' ''b'' ''y'') u = Some v \<and> holds_first u ''b'' ''x'' \<and> holds_first v ''b'' ''y''"
proof -
  have h: "distinct [''a'', ''b'', ''c'']" "[] \<notin> {''a'', ''b'', ''c''}" by simp_all
  from committed_entry_replaced [OF h, of "''x''" "''y''"] show ?thesis by blast
qed

end
