(* ===== verification/RaftMatching.thy ===== *)
theory RaftMatching
  imports RaftElection
begin

text \<open>
  Log matching: as long as no process restarts and no log is compacted, two logs of a cluster that hold
  entries of the same term at one index are the same up to that index.
\<close>

section \<open>A book of the leaders' logs\<close>

text \<open>
  History variables: the leader of each term, and its log, the one a new leader starts with and
  the proposals it adds. Term 0 has no leader; its log is the first entry every store is made with.
\<close>

record book =
  lead :: "int \<Rightarrow> node_id option"
  llog :: "int \<Rightarrow> LogEntry list"

fun event_node :: "event \<Rightarrow> node_id" where
  "event_node (Timeout i) = i"
| "event_node (Vote p args) = p"
| "event_node (VoteReply p args reply) = vCandidateID args"
| "event_node (Replicate i p) = i"
| "event_node (Append p args) = p"
| "event_node (AppendReply p args reply) = aLeaderID args"
| "event_node (Client i cmd) = i"
| "event_node (Apply i) = i"
| "event_node (Compact i k) = i"
| "event_node (Restart i) = i"

definition enter :: "node_id \<Rightarrow> Raft \<Rightarrow> book \<Rightarrow> book" where
  "enter i rf b = (if state rf = Leader
     then b\<lparr>lead := (lead b)(currentTerm rf := Some i), llog := (llog b)(currentTerm rf := logStore rf)\<rparr> else b)"

definition empty_book :: book where
  "empty_book = \<lparr>lead = (\<lambda>_. None), llog = (\<lambda>_. [])(0 := NewMemoryLogStore)\<rparr>"

section \<open>Logs that agree with the book\<close>

definition rooted :: "LogEntry list \<Rightarrow> bool" where
  "rooted l \<longleftrightarrow> log_good l \<and> Index (hd l) = 0"

lemma rooted_nth: "rooted l \<Longrightarrow> k < length l \<Longrightarrow> Index (l ! k) = int k"
  by (auto simp: rooted_def log_good_def from_index_def)

lemma rooted_last: "rooted l \<Longrightarrow> LastIndex l = Some (int (length l) - 1)"
  by (simp add: rooted_def LastIndex_good)

lemma rooted_first: "rooted l \<Longrightarrow> FirstIndex l = Some 0"
  by (auto simp: rooted_def log_good_def FirstIndex_hd)

lemma rooted_get: "rooted l \<Longrightarrow> k < length l \<Longrightarrow> GetLog (int k) l = Some (Inr (l ! k))"
  by (simp add: GetLog_def rooted_first)

lemma rooted_view: "rooted l \<Longrightarrow> log_view l i = (if 0 \<le> i \<and> nat i < length l then Some (l ! nat i) else None)"
  by (auto simp: rooted_def log_good_def log_view_def nat_less_iff)

lemma rooted_take: "rooted l \<Longrightarrow> 0 < m \<Longrightarrow> rooted (take m l)"
  by (auto simp: rooted_def log_good_def from_index_def)

text \<open>Up to each of its entries the log is the log of the leader of the entry's term.\<close>

definition agrees :: "book \<Rightarrow> LogEntry list \<Rightarrow> bool" where
  "agrees b l \<longleftrightarrow> rooted l \<and> (\<forall>k < length l. take (Suc k) l = take (Suc k) (llog b (Term (l ! k))))"

lemma agrees_match:
  assumes "agrees b l" and "agrees b m" and "k < length l" and "k < length m" and "Term (l ! k) = Term (m ! k)"
  shows "take (Suc k) l = take (Suc k) m"
  using assms unfolding agrees_def by metis

lemma agrees_take: "agrees b l \<Longrightarrow> 0 < m \<Longrightarrow> agrees b (take m l)"
  by (auto simp: agrees_def rooted_take take_Suc_conv_app_nth [symmetric] min_def)

text \<open>Growing the log of a term keeps what agrees.\<close>

lemma agrees_grow:
  assumes "agrees b l" and "\<And>t. \<exists>m. llog b' t = llog b t @ m"
  shows "agrees b' l"
  unfolding agrees_def
proof (intro conjI allI impI)
  show "rooted l" using assms(1) by (simp add: agrees_def)
  fix k assume k: "k < length l"
  have eq: "take (Suc k) l = take (Suc k) (llog b (Term (l ! k)))" using assms(1) k by (simp add: agrees_def)
  then have "length (take (Suc k) l) = length (take (Suc k) (llog b (Term (l ! k))))" by simp
  then have "Suc k \<le> length (llog b (Term (l ! k)))" using k by simp
  moreover obtain m where "llog b' (Term (l ! k)) = llog b (Term (l ! k)) @ m" using assms(2) by blast
  ultimately show "take (Suc k) l = take (Suc k) (llog b' (Term (l ! k)))" using eq by simp
qed

section \<open>The receiver\<close>

text \<open>A message is a piece of its leader's log, after a previous entry.\<close>

definition msg_ok :: "book \<Rightarrow> AppendEntriesArgs \<Rightarrow> bool" where
  "msg_ok b args \<longleftrightarrow> lead b (aTerm args) = Some (aLeaderID args) \<and> 0 \<le> aPrevLogIndex args \<and>
     (let l = llog b (aTerm args); k = nat (aPrevLogIndex args) in
      k < length l \<and> aPrevLogTerm args = Term (l ! k) \<and>
      aEntries args = take (length (aEntries args)) (drop (Suc k) l))"

lemma rooted_cut:
  assumes "rooted st" and "s < length st"
  shows "DeleteRange (int s) (int (length st) - 1) st = take s st"
proof -
  have "from_index 0 st" using assms(1) unfolding rooted_def log_good_def by metis
  from filter_low [OF this, of "int s"] show ?thesis by (simp add: DeleteRange_def)
qed

lemma append_loop_result:
  assumes st: "agrees b st" and l: "agrees b l"
  shows "es = take (length es) (drop s l) \<Longrightarrow> s \<le> length st \<Longrightarrow> take s st = take s l \<Longrightarrow>
    append_loop es (int (length st) - 1) st = Some st' \<Longrightarrow> st' = st \<or> (\<exists>m. st' = take m l)"
proof (induction es arbitrary: s)
  case Nil
  then show ?case by simp
next
  case (Cons e es)
  have r: "rooted st" "rooted l" using st l by (simp_all add: agrees_def)
  have s: "s < length l" using Cons.prems(1) by (cases "s < length l") auto
  have cons: "drop s l = l ! s # drop (Suc s) l" using s by (simp add: Cons_nth_drop_Suc)
  have e: "e = l ! s" "es = take (length es) (drop (Suc s) l)" using Cons.prems(1) by (simp_all add: cons)
  have ix: "Index e = int s" using rooted_nth [OF r(2) s] e(1) by simp
  have rest: "take s l @ e # es = take (s + length (e # es)) l"
    using Cons.prems(1) by (metis take_add)
  show ?case
  proof (cases "s < length st")
    case True
    have get: "GetLog (Index e) st = Some (Inr (st ! s))" unfolding ix by (rule rooted_get [OF r(1) True])
    show ?thesis
    proof (cases "Term (st ! s) = Term e")
      case same: True
      have "take (Suc s) st = take (Suc s) l" using agrees_match [OF st l True s] same e(1) by simp
      moreover have "append_loop es (int (length st) - 1) st = Some st'" using Cons.prems(4) get same ix True by simp
      ultimately show ?thesis using Cons.IH [OF e(2)] True by simp
    next
      case False
      have "st' = StoreLogs (e # es) (DeleteRange (int s) (int (length st) - 1) st)"
        using Cons.prems(4) get False ix True by simp
      then have "st' = take (s + length (e # es)) l"
        using rest Cons.prems(3) by (simp add: rooted_cut [OF r(1) True] StoreLogs_def)
      then show ?thesis by blast
    qed
  next
    case False
    then have "st = take s l" using Cons.prems(2,3) by simp
    moreover have "st' = StoreLogs (e # es) st" using Cons.prems(4) False ix by simp
    ultimately have "st' = take (s + length (e # es)) l" using rest by (simp add: StoreLogs_def)
    then show ?thesis by blast
  qed
qed

lemma append_loop_nonempty: "append_loop es n st = Some st' \<Longrightarrow> st \<noteq> [] \<Longrightarrow> st' \<noteq> []"
  by (induction es) (auto simp: StoreLogs_def split: if_splits option.splits sum.splits)

lemma advance_commit_log: "advance_commit lc rf = Some rf' \<Longrightarrow> logStore rf' = logStore rf"
  by (auto simp: advance_commit_def split: if_splits option.splits)

text \<open>The node once it has accepted the sender as leader of the term.\<close>

definition heard :: "AppendEntriesArgs \<Rightarrow> Raft \<Rightarrow> Raft" where
  "heard args rf = (if currentTerm rf < aTerm args then convertToFollower (aTerm args) rf else rf)\<lparr>leaderID := aLeaderID args\<rparr>"

lemma heard_log [simp]: "logStore (heard args rf) = logStore rf"
  by (simp add: heard_def convertToFollower_def)

lemma AppendEntries_outcome:
  assumes "AppendEntries args rf = Some (reply, rf')"
  shows "rf' = rf \<or> currentTerm rf \<le> aTerm args \<and> (rf' = heard args rf \<or>
    (\<exists>n st. LastIndex (logStore rf) = Some n \<and> aPrevLogIndex args \<le> n \<and>
      prev_mismatch args (logStore rf) = Some False \<and> append_loop (aEntries args) n (logStore rf) = Some st \<and>
      advance_commit (aLeaderCommit args) ((heard args rf)\<lparr>logStore := st\<rparr>) = Some rf'))"
  using assms unfolding AppendEntries_def Let_def heard_def [symmetric] heard_log
  by (simp add: not_less split: if_split_asm option.split_asm bool.split_asm prod.split_asm)

lemma AppendEntries_log:
  assumes "AppendEntries args rf = Some (reply, rf')"
  shows "logStore rf' = logStore rf \<or> (\<exists>n. LastIndex (logStore rf) = Some n \<and> aPrevLogIndex args \<le> n \<and>
    prev_mismatch args (logStore rf) = Some False \<and> append_loop (aEntries args) n (logStore rf) = Some (logStore rf'))"
  using AppendEntries_outcome [OF assms] by (auto dest: advance_commit_log)

lemma AppendEntries_cut:
  assumes app: "AppendEntries args rf = Some (reply, rf')" and st: "agrees b (logStore rf)"
    and l: "agrees b (llog b (aTerm args))" and m: "msg_ok b args"
  shows "logStore rf' = logStore rf \<or> (\<exists>k > 0. logStore rf' = take k (llog b (aTerm args)))"
proof (cases "logStore rf' = logStore rf")
  case True
  then show ?thesis by simp
next
  case False
  let ?l = "llog b (aTerm args)" and ?k = "nat (aPrevLogIndex args)" and ?st = "logStore rf"
  have r: "rooted ?st" using st by (simp add: agrees_def)
  obtain n where n: "LastIndex ?st = Some n" "aPrevLogIndex args \<le> n" "prev_mismatch args ?st = Some False"
    "append_loop (aEntries args) n ?st = Some (logStore rf')" using AppendEntries_log [OF app] False by blast
  have len: "n = int (length ?st) - 1" using rooted_last [OF r] n(1) by simp
  have k: "?k < length ?l" "aPrevLogTerm args = Term (?l ! ?k)" "int ?k = aPrevLogIndex args"
    "aEntries args = take (length (aEntries args)) (drop (Suc ?k) ?l)" using m by (simp_all add: msg_ok_def Let_def)
  have ks: "?k < length ?st" using n(2) k(3) len by linarith
  have "Term (?st ! ?k) = Term (?l ! ?k)"
    using n(3) rooted_get [OF r ks] k(2,3) by (simp add: prev_mismatch_def)
  then have "take (Suc ?k) ?st = take (Suc ?k) ?l" by (rule agrees_match [OF st l ks k(1)])
  then have "logStore rf' = ?st \<or> (\<exists>m. logStore rf' = take m ?l)"
    using append_loop_result [OF st l k(4)] ks n(4) len by simp
  moreover have "?st \<noteq> []" using ks by (metis length_0_conv not_less_zero)
  moreover from this have "logStore rf' \<noteq> []" by (rule append_loop_nonempty [OF n(4)])
  ultimately show ?thesis by (metis gr0I take_0)
qed

lemma AppendEntries_agrees:
  assumes "AppendEntries args rf = Some (reply, rf')" and "agrees b (logStore rf)"
    and "agrees b (llog b (aTerm args))" and "msg_ok b args"
  shows "agrees b (logStore rf')"
  using AppendEntries_cut [OF assms] assms(2) agrees_take [OF assms(3)] by metis

section \<open>The invariant\<close>

definition majority :: "node_id list \<Rightarrow> history \<Rightarrow> node_id \<Rightarrow> int \<Rightarrow> bool" where
  "majority ids h i t \<longleftrightarrow> length ids div 2 < card (counted h (i, t))"

text \<open>The book is right about the terms: a leader has won its term, is still leader while in it, and a term
  without a leader has no log, but term 0.\<close>

definition terms_ok :: "node_id list \<Rightarrow> cluster \<Rightarrow> history \<Rightarrow> book \<Rightarrow> bool" where
  "terms_ok ids c h b \<longleftrightarrow> (\<forall>t i. lead b t = Some i \<longrightarrow> 0 < t \<and> majority ids h i t \<and> t \<le> currentTerm (nodes c i) \<and>
      (currentTerm (nodes c i) = t \<longrightarrow> state (nodes c i) = Leader)) \<and>
     (\<forall>t. lead b t = None \<longrightarrow> t \<noteq> 0 \<longrightarrow> llog b t = [])"

definition node_ok :: "book \<Rightarrow> node_id \<Rightarrow> Raft \<Rightarrow> bool" where
  "node_ok b i rf \<longleftrightarrow> agrees b (logStore rf) \<and> 0 \<le> currentTerm rf \<and> (state rf = Candidate \<longrightarrow> 0 < currentTerm rf) \<and>
     (state rf = Leader \<longrightarrow> lead b (currentTerm rf) = Some i \<and> llog b (currentTerm rf) = logStore rf \<and>
       (\<forall>p \<in> set (Peers rf). p \<noteq> i \<longrightarrow> 1 \<le> nextIndex rf p))"

definition wire_ok :: "cluster \<Rightarrow> book \<Rightarrow> bool" where
  "wire_ok c b \<longleftrightarrow> (\<forall>p args. (p, args) \<in> set (appends c) \<longrightarrow> msg_ok b args \<and> p \<noteq> aLeaderID args) \<and>
     (\<forall>p args reply. (p, args, reply) \<in> set (acks c) \<longrightarrow> 0 \<le> aPrevLogIndex args)"

definition logs_inv :: "node_id list \<Rightarrow> cluster \<Rightarrow> history \<Rightarrow> book \<Rightarrow> bool" where
  "logs_inv ids c h b \<longleftrightarrow> terms_ok ids c h b \<and> (\<forall>i. node_ok b i (nodes c i)) \<and> wire_ok c b \<and> (\<forall>t. llog b t = [] \<or> agrees b (llog b t))"

lemma empty_book_agrees: "agrees empty_book NewMemoryLogStore"
  by (simp add: agrees_def rooted_def NewMemoryLogStore_def empty_book_def log_good_def from_index_Cons)

lemma logs_inv_init: "logs_inv ids (cluster_init ids) h empty_book"
  using empty_book_agrees
  by (simp add: logs_inv_def terms_ok_def node_ok_def wire_ok_def cluster_init_def NewRaft_def empty_book_def)

lemma majority_grows:
  assumes "majority ids h i t" and "\<And>k. counted h k \<subseteq> counted h' k" and "votes_inv ids c h'"
  shows "majority ids h' i t"
proof -
  have "finite (counted h' (i, t))"
    using assms(3) finite_subset [of _ "set ids"] by (auto simp: votes_inv_def count_ok_def)
  then have "card (counted h (i, t)) \<le> card (counted h' (i, t))" using assms(2) by (intro card_mono)
  then show ?thesis using assms(1) by (simp add: majority_def)
qed

text \<open>A calm step: the node becomes leader of nothing, stays leader exactly while it stays in its term, and
  then keeps its log.\<close>

definition calm :: "Raft \<Rightarrow> Raft \<Rightarrow> bool" where
  "calm rf rf' \<longleftrightarrow> Peers rf' = Peers rf \<and> currentTerm rf \<le> currentTerm rf' \<and>
     (state rf' = Leader \<longrightarrow> state rf = Leader \<and> currentTerm rf' = currentTerm rf \<and> logStore rf' = logStore rf \<and>
       (\<forall>p. 1 \<le> nextIndex rf p \<longrightarrow> 1 \<le> nextIndex rf' p)) \<and>
     (state rf = Leader \<longrightarrow> currentTerm rf' = currentTerm rf \<longrightarrow> state rf' = Leader) \<and>
     (state rf' = Candidate \<longrightarrow> state rf = Candidate \<or> currentTerm rf < currentTerm rf')"

lemma node_ok_calm:
  assumes "node_ok b i rf" and "calm rf rf'" and "agrees b (logStore rf')"
  shows "node_ok b i rf'"
  using assms by (auto simp: node_ok_def calm_def)

lemma logs_inv_calm:
  assumes inv: "logs_inv ids c h b" and calm: "calm (nodes c i) rf" and "agrees b (logStore rf)"
    and g: "\<And>k. counted h k \<subseteq> counted h' k" and v: "votes_inv ids d h'"
    and d: "nodes d = (nodes c)(i := rf)" "wire_ok d b"
  shows "logs_inv ids d h' b"
proof -
  have "terms_ok ids d h' b"
    unfolding terms_ok_def
  proof (intro conjI allI impI)
    fix t j assume "lead b t = Some j"
    then have l: "0 < t" "majority ids h j t" "t \<le> currentTerm (nodes c j)"
      "currentTerm (nodes c j) = t \<longrightarrow> state (nodes c j) = Leader" using inv by (auto simp: logs_inv_def terms_ok_def)
    show "0 < t" by (rule l(1))
    show "majority ids h' j t" by (rule majority_grows [OF l(2) g v])
    show "t \<le> currentTerm (nodes d j)" using l(3) calm by (auto simp: d(1) calm_def)
    show "state (nodes d j) = Leader" if "currentTerm (nodes d j) = t"
      using l(3,4) calm that by (auto simp: d(1) calm_def split: if_splits)
  next
    fix t assume "lead b t = None" "t \<noteq> 0"
    then show "llog b t = []" using inv by (simp add: logs_inv_def terms_ok_def)
  qed
  moreover have "node_ok b j (nodes d j)" for j
    using inv node_ok_calm [OF _ calm assms(3)] by (simp add: d(1) logs_inv_def)
  ultimately show ?thesis using inv d(2) by (simp add: logs_inv_def)
qed

section \<open>Which handlers are calm\<close>

lemma calm_refl [simp]: "calm rf rf"
  by (simp add: calm_def)

lemma timeout_calm:
  assumes "election_timeout rf = Some (r, rf')"
  shows "calm rf rf' \<and> logStore rf' = logStore rf"
proof (rule election_timeout_cases [OF assms])
  assume "(r, rf') = (None, rf)"
  then have "rf' = rf" by (simp only: prod.inject)
  then show ?thesis by simp
next
  fix args
  assume "(r, rf') = (Some args, rf\<lparr>state := Candidate, currentTerm := currentTerm rf + 1, votedFor := rid rf\<rparr>)"
  then have "rf' = rf\<lparr>state := Candidate, currentTerm := currentTerm rf + 1, votedFor := rid rf\<rparr>" by (simp only: prod.inject)
  then show ?thesis by (simp add: calm_def)
qed

lemma RequestVote_calm: "RequestVote args rf = (reply, rf') \<Longrightarrow> calm rf rf' \<and> logStore rf' = logStore rf"
  by (auto simp: RequestVote_def Let_def calm_def split: if_splits)

lemma applyLogs_calm: "applyLogs rf = Some rf' \<Longrightarrow> calm rf rf' \<and> logStore rf' = logStore rf"
  by (auto simp: applyLogs_def calm_def dest!: apply_loop_fields)

lemma commit_scan_calm: "commit_scan k rf = Some rf' \<Longrightarrow> calm rf rf' \<and> logStore rf' = logStore rf"
  by (induction k) (auto simp: Let_def calm_def split: if_splits option.splits sum.splits)

lemma updateCommitIndex_calm: "updateCommitIndex rf = Some rf' \<Longrightarrow> calm rf rf' \<and> logStore rf' = logStore rf"
  using commit_scan_calm by (auto simp: updateCommitIndex_def split: option.splits)

lemma calm_next: "1 \<le> n \<Longrightarrow> calm (rf\<lparr>matchIndex := m, nextIndex := (nextIndex rf)(p := n)\<rparr>) rf' \<Longrightarrow> calm rf rf'"
  by (auto simp: calm_def)

lemma replicate_reply_calm:
  assumes "replicate_reply p args reply rf = Some rf'" and "0 \<le> aPrevLogIndex args"
  shows "calm rf rf' \<and> logStore rf' = logStore rf"
proof -
  let ?m = "aPrevLogIndex args + int (length (aEntries args))"
  let ?rf = "rf\<lparr>matchIndex := (matchIndex rf)(p := ?m), nextIndex := (nextIndex rf)(p := ?m + 1)\<rparr>"
  let ?dec = "rf\<lparr>nextIndex := (nextIndex rf)(p := max 1 (nextIndex rf p - 1))\<rparr>"
  have def: "replicate_reply p args reply rf =
      (if state rf \<noteq> Leader \<or> aTerm args \<noteq> currentTerm rf then Some rf
       else if currentTerm rf < eTerm reply then Some (convertToFollower (eTerm reply) rf)
       else if eSuccess reply then updateCommitIndex ?rf else Some ?dec)"
    by (simp add: replicate_reply_def Let_def)
  consider "rf' = rf" | "currentTerm rf < eTerm reply" "rf' = convertToFollower (eTerm reply) rf"
    | "updateCommitIndex ?rf = Some rf'" | "rf' = ?dec"
    using assms(1) unfolding def by (metis option.inject)
  then show ?thesis
  proof cases
    case 3
    have "calm ?rf rf'" "logStore rf' = logStore ?rf" using updateCommitIndex_calm [OF 3] by blast+
    then show ?thesis using calm_next [where n = "?m + 1" and rf = rf and m = "(matchIndex rf)(p := ?m)" and p = p and rf' = rf'] assms(2) by simp
  qed (simp_all add: calm_def convertToFollower_def)
qed

lemma vote_reply_calm:
  assumes "vote_reply args reply n rf = Some (m, rf')"
  shows "logStore rf' = logStore rf" and "state rf' = Leader \<Longrightarrow> state rf \<noteq> Leader \<Longrightarrow>
      state rf = Candidate \<and> currentTerm rf' = currentTerm rf \<and> (\<forall>k. LastIndex (logStore rf) = Some k \<longrightarrow>
        (\<forall>p \<in> set (Peers rf). p \<noteq> rid rf \<longrightarrow> nextIndex rf' p = k + 1))"
    and "\<not> (state rf' = Leader \<and> state rf \<noteq> Leader) \<Longrightarrow> calm rf rf'"
  using assms by (auto simp: vote_reply_def convertToLeader_def convertToFollower_def calm_def split: if_splits option.splits)

section \<open>Entering the book\<close>

lemma enter_follower [simp]: "state rf \<noteq> Leader \<Longrightarrow> enter i rf b = b"
  by (simp add: enter_def)

lemma enter_known: "node_ok b i rf \<Longrightarrow> enter i rf b = b"
  by (auto simp: enter_def node_ok_def fun_upd_idem)

text \<open>A term whose log grows, or begins: everything that agreed still agrees.\<close>

lemma msg_ok_grow:
  assumes "msg_ok b args" and "\<And>t. \<exists>m. llog b' t = llog b t @ m"
    and "\<And>t i. lead b t = Some i \<Longrightarrow> lead b' t = Some i"
  shows "msg_ok b' args"
proof -
  obtain m where m: "llog b' (aTerm args) = llog b (aTerm args) @ m" using assms(2) by blast
  let ?l = "llog b (aTerm args)" and ?k = "nat (aPrevLogIndex args)"
  have k: "?k < length ?l" "aPrevLogTerm args = Term (?l ! ?k)"
    "aEntries args = take (length (aEntries args)) (drop (Suc ?k) ?l)" using assms(1) by (simp_all add: msg_ok_def Let_def)
  have "length (aEntries args) \<le> length (drop (Suc ?k) ?l)" using arg_cong [OF k(3), of length] by simp
  then have "aEntries args = take (length (aEntries args)) (drop (Suc ?k) (?l @ m))" using k(1,3) by simp
  then show ?thesis using assms(1,3) k m by (simp add: msg_ok_def Let_def nth_append)
qed

lemma logs_inv_enter:
  assumes inv: "logs_inv ids c h b" and st: "state rf = Leader" and t: "0 < currentTerm rf"
    and ag: "agrees (enter i rf b) (logStore rf)" and grow: "\<exists>m. logStore rf = llog b (currentTerm rf) @ m"
    and own: "lead b (currentTerm rf) = None \<or> lead b (currentTerm rf) = Some i"
    and nx: "\<forall>p \<in> set (Peers rf). p \<noteq> i \<longrightarrow> 1 \<le> nextIndex rf p"
    and maj: "majority ids h' i (currentTerm rf)" and g: "\<And>k. counted h k \<subseteq> counted h' k" and v: "votes_inv ids d h'"
    and mono: "currentTerm rf = currentTerm (nodes c i)"
    and d: "nodes d = (nodes c)(i := rf)" "appends d = appends c" "acks d = acks c"
  shows "logs_inv ids d h' (enter i rf b)"
proof -
  let ?t = "currentTerm rf" and ?b = "enter i rf b"
  have b: "lead ?b = (lead b)(?t := Some i)" "llog ?b = (llog b)(?t := logStore rf)" using st by (simp_all add: enter_def)
  have G: "\<exists>m. llog ?b u = llog b u @ m" for u using grow by (cases "u = ?t") (auto simp: b)
  have L: "lead b u = Some j \<Longrightarrow> lead ?b u = Some j" for u j using own by (auto simp: b)
  have "terms_ok ids d h' ?b"
    unfolding terms_ok_def
  proof (intro conjI allI impI)
    fix u j assume u: "lead ?b u = Some j"
    show "0 < u" "majority ids h' j u" "u \<le> currentTerm (nodes d j)"
      using u inv maj t mono majority_grows [OF _ g v] by (auto simp: b d(1) logs_inv_def terms_ok_def split: if_splits)
    show "state (nodes d j) = Leader" if "currentTerm (nodes d j) = u"
      using u that st inv by (auto simp: b d(1) logs_inv_def terms_ok_def split: if_splits)
  next
    fix u assume "lead ?b u = None" "u \<noteq> 0"
    then show "llog ?b u = []" using inv by (auto simp: b logs_inv_def terms_ok_def split: if_splits)
  qed
  moreover have "node_ok ?b j (nodes d j)" for j
  proof (cases "j = i")
    case True
    then show ?thesis using ag st t nx by (simp add: node_ok_def d(1) b)
  next
    case False
    have o: "node_ok b j (nodes c j)" using inv by (simp add: logs_inv_def)
    then have "state (nodes c j) = Leader \<Longrightarrow> currentTerm (nodes c j) \<noteq> ?t" using own False by (auto simp: node_ok_def)
    then show ?thesis using o False agrees_grow [OF _ G] by (auto simp: node_ok_def d(1) b)
  qed
  moreover have "wire_ok d ?b"
    using inv msg_ok_grow [OF _ G L] by (auto simp: logs_inv_def wire_ok_def d(2,3))
  moreover have "llog ?b u = [] \<or> agrees ?b (llog ?b u)" for u
    using inv ag agrees_grow [OF _ G] by (auto simp: logs_inv_def b)
  ultimately show ?thesis by (simp add: logs_inv_def)
qed

section \<open>The sender\<close>

lemma replicate_msg:
  assumes ok: "node_ok b i rf" and args: "replicate_args p rf = Some (Some args)" and "p \<in> set (Peers rf)" "p \<noteq> i"
    and me: "rid rf = i"
  shows "msg_ok b args \<and> aLeaderID args = i \<and> aLeaderCommit args = commitIndex rf \<and> aTerm args = currentTerm rf \<and>
    aPrevLogIndex args + int (length (aEntries args)) = int (length (logStore rf)) - 1"
proof -
  let ?l = "logStore rf"
  have lead: "state rf = Leader" using args by (auto simp: replicate_args_def split: if_splits)
  have r: "rooted ?l" using ok by (simp add: node_ok_def agrees_def)
  have last: "LastIndex ?l = Some (int (length ?l) - 1)" by (rule rooted_last [OF r])
  have ne: "0 < length ?l" using r by (simp add: rooted_def log_good_def)
  define n where "n = min (nextIndex rf p) (int (length ?l))"
  have n: "1 \<le> n" "n \<le> int (length ?l)" using ok lead assms(3,4) ne by (auto simp: node_ok_def n_def Suc_le_eq)
  define k where "k = nat (n - 1)"
  have k: "n - 1 = int k" "k < length ?l" "nat n = Suc k" using n by (simp_all add: k_def)
  have get: "GetLog (n - 1) ?l = Some (Inr (?l ! k))" unfolding k(1) by (rule rooted_get [OF r k(2)])
  have A: "args = \<lparr>aTerm = currentTerm rf, aLeaderID = rid rf, aPrevLogIndex = n - 1, aPrevLogTerm = Term (?l ! k),
      aEntries = read_range n (int (length ?l) - 1) ?l, aLeaderCommit = commitIndex rf\<rparr>"
    using args lead last get ne n(1) by (simp add: replicate_args_def Let_def n_def Suc_le_eq)
  have up: "[n..int (length ?l) - 1] = map int [Suc k..<length ?l]"
    using k n by (intro nth_equalityI) auto
  have one: "GetLog (int m) ?l = Some (Inr (?l ! m))" if "m \<in> set [Suc k..<length ?l]" for m
    using that rooted_get [OF r, of m] by simp
  have "List.map_filter (\<lambda>i. case GetLog i ?l of Some (Inr e) \<Rightarrow> Some e | _ \<Rightarrow> None) (map int ms) = map ((!) ?l) ms"
    if "\<forall>m \<in> set ms. GetLog (int m) ?l = Some (Inr (?l ! m))" for ms
    using that by (induction ms) (simp_all add: map_filter_simps)
  then have "read_range n (int (length ?l) - 1) ?l = map ((!) ?l) [Suc k..<length ?l]"
    using one unfolding read_range_def up by blast
  also have "\<dots> = drop (Suc k) ?l" by (intro nth_equalityI) auto
  finally have "aEntries args = drop (Suc k) ?l" by (simp add: A)
  moreover have "lead b (currentTerm rf) = Some i" "llog b (currentTerm rf) = ?l" using ok lead by (simp_all add: node_ok_def)
  ultimately show ?thesis using k n by (simp add: msg_ok_def A me Let_def)
qed

section \<open>Every event\<close>

lemma AppendEntries_calm:
  assumes "AppendEntries args rf = Some (reply, rf')" and "\<not> (state rf = Leader \<and> currentTerm rf = aTerm args)"
  shows "calm rf rf'"
proof -
  have "calm rf ((heard args rf)\<lparr>logStore := st, commitIndex := n\<rparr>)" "calm rf (heard args rf)"
    if "currentTerm rf \<le> aTerm args" for st n
    using assms(2) that by (auto simp: calm_def heard_def convertToFollower_def)
  moreover have "\<exists>n. r' = r\<lparr>commitIndex := n\<rparr>" if "advance_commit lc r = Some r'" for lc r r'
    using that by (auto simp: advance_commit_def intro: exI [of _ "commitIndex r"] split: if_splits option.splits)
  ultimately show ?thesis using AppendEntries_outcome [OF assms(1)] by (metis calm_refl)
qed

text \<open>The term of a node that wins an election has no leader yet.\<close>

lemma elected_fresh:
  assumes inv: "logs_inv ids c h b" and v': "votes_inv ids c' h'" and ids: "cluster_ids ids"
    and g: "\<And>k. counted h k \<subseteq> counted h' k" and d: "nodes c' = (nodes c)(i := rf)"
    and st: "state rf = Leader" "state (nodes c i) = Candidate" and t: "currentTerm rf = currentTerm (nodes c i)"
  shows "0 < currentTerm rf" and "majority ids h' i (currentTerm rf)" and "lead b (currentTerm rf) = None"
    and "llog b (currentTerm rf) = []"
proof -
  show pos: "0 < currentTerm rf" using inv st(2) t by (simp add: logs_inv_def node_ok_def)
  show maj: "majority ids h' i (currentTerm rf)"
    using v' st(1) by (auto simp: votes_inv_def leaders_ok_def majority_def d split: if_splits)
  show none: "lead b (currentTerm rf) = None"
  proof (rule ccontr)
    assume "lead b (currentTerm rf) \<noteq> None"
    then obtain j where j: "lead b (currentTerm rf) = Some j" by blast
    have T: "majority ids h j (currentTerm rf)" "currentTerm (nodes c j) = currentTerm rf \<longrightarrow> state (nodes c j) = Leader"
      using inv j by (auto simp: logs_inv_def terms_ok_def)
    have "majority ids h' j (currentTerm rf)" by (rule majority_grows [OF T(1) g v'])
    then have "j = i" using winners_agree [OF v' ids] maj by (simp add: majority_def)
    then show False using T(2) t st(2) by simp
  qed
  show "llog b (currentTerm rf) = []" using inv pos none by (auto simp: logs_inv_def terms_ok_def)
qed

lemma logs_inv_vote_reply:
  assumes inv: "logs_inv ids c h b" and v: "votes_inv ids c h" and v': "votes_inv ids c' h'" and ids: "cluster_ids ids"
    and g: "\<And>k. counted h k \<subseteq> counted h' k" and step: "vote_reply_event p args reply c = Some c'"
    and i: "i = vCandidateID args"
  shows "logs_inv ids c' h' (enter i (nodes c' i) b)"
proof -
  obtain n rf where rv: "vote_reply args reply (tally c (i, vTerm args)) (nodes c i) = Some (n, rf)"
    and d: "nodes c' = (nodes c)(i := rf)" "appends c' = appends c" "acks c' = acks c"
    using step i by (auto simp: vote_reply_event_def Let_def split: if_splits option.splits)
  have ok: "node_ok b i (nodes c i)" and w: "wire_ok c' b" using inv d by (auto simp: logs_inv_def wire_ok_def)
  have me: "rid (nodes c i) = i" "Peers rf = Peers (nodes c i)"
    using v v' by (auto simp: votes_inv_def ids_ok_def d(1) split: if_splits)
  have log: "logStore rf = logStore (nodes c i)" using vote_reply_calm(1) [OF rv] .
  show ?thesis
  proof (cases "state rf = Leader \<and> state (nodes c i) \<noteq> Leader")
    case True
    then have st: "state rf = Leader" "state (nodes c i) = Candidate" and t: "currentTerm rf = currentTerm (nodes c i)"
      and nx: "\<And>k q. LastIndex (logStore rf) = Some k \<Longrightarrow> q \<in> set (Peers rf) \<Longrightarrow> q \<noteq> i \<Longrightarrow> nextIndex rf q = k + 1"
      using vote_reply_calm(2) [OF rv] me log by auto
    note fresh = elected_fresh [OF inv v' ids g d(1) st t]
    note pos = fresh(1) and maj = fresh(2) and none = fresh(3) and empty = fresh(4)
    have r: "rooted (logStore rf)" using ok log by (simp add: node_ok_def agrees_def)
    have ll: "llog (enter i rf b) = (llog b)(currentTerm rf := logStore rf)" using st(1) by (simp add: enter_def)
    have "logs_inv ids c' h' (enter i rf b)"
    proof (rule logs_inv_enter [OF inv st(1) pos _ _ _ _ maj g v' t d])
      show "agrees (enter i rf b) (logStore rf)"
      proof (rule agrees_grow)
        show "agrees b (logStore rf)" using ok log by (simp add: node_ok_def)
        show "\<exists>m. llog (enter i rf b) u = llog b u @ m" for u by (cases "u = currentTerm rf") (simp_all add: ll empty)
      qed
      show "\<exists>m. logStore rf = llog b (currentTerm rf) @ m" by (simp add: empty)
      show "\<forall>q \<in> set (Peers rf). q \<noteq> i \<longrightarrow> 1 \<le> nextIndex rf q"
        using nx [OF rooted_last [OF r]] r by (auto simp: rooted_def log_good_def Suc_le_eq)
    qed (simp add: none)
    then show ?thesis by (simp add: d(1))
  next
    case False
    then have calm: "calm (nodes c i) rf" by (rule vote_reply_calm(3) [OF rv])
    have "logs_inv ids c' h' b"
      using logs_inv_calm [OF inv calm _ g v' d(1) w] ok log by (simp add: node_ok_def)
    then show ?thesis using enter_known [of b i "nodes c' i"] by (simp add: logs_inv_def)
  qed
qed

lemma logs_inv_propose:
  assumes inv: "logs_inv ids c h b" and v: "votes_inv ids c h" and v': "votes_inv ids c' h"
    and pr: "Propose cmd (nodes c i) = Some (ans, rf)" and c': "c' = set_node i rf c"
  shows "logs_inv ids c' h (enter i rf b)"
proof (cases "state (nodes c i) = Leader")
  case True
  let ?l = "logStore (nodes c i)" and ?t = "currentTerm (nodes c i)"
  have ok: "node_ok b i (nodes c i)" using inv by (simp add: logs_inv_def)
  then have L: "lead b ?t = Some i" "llog b ?t = ?l" "agrees b ?l" "rooted ?l" using True by (simp_all add: node_ok_def agrees_def)
  define e where "e = \<lparr>Term = ?t, Index = int (length ?l), Command = cmd\<rparr>"
  have rf: "rf = (nodes c i)\<lparr>logStore := ?l @ [e]\<rparr>"
    using pr True rooted_last [OF L(4)] by (simp add: Propose_def Let_def StoreLog_def StoreLogs_def e_def)
  have r: "rooted (?l @ [e])"
    using L(4) by (auto simp: rooted_def log_good_def from_index_append from_index_Cons e_def)
  have b: "llog (enter i rf b) = (llog b)(?t := ?l @ [e])" using True by (simp add: enter_def rf)
  have old: "agrees (enter i rf b) ?l" using L(2) by (intro agrees_grow [OF L(3)]) (auto simp: b)
  have ag: "agrees (enter i rf b) (logStore rf)"
    unfolding agrees_def
  proof (intro conjI allI impI)
    show "rooted (logStore rf)" using r by (simp add: rf)
    fix k assume "k < length (logStore rf)"
    then consider "k < length ?l" | "k = length ?l" by (auto simp: rf less_Suc_eq)
    then show "take (Suc k) (logStore rf) = take (Suc k) (llog (enter i rf b) (Term (logStore rf ! k)))"
    proof cases
      case 1
      then have "take (Suc k) ?l = take (Suc k) (llog (enter i rf b) (Term (?l ! k)))" using old by (simp add: agrees_def)
      then show ?thesis using 1 by (simp add: rf nth_append)
    next
      case 2
      then have "Term (logStore rf ! k) = ?t" "take (Suc k) (logStore rf) = ?l @ [e]" by (simp_all add: rf e_def)
      moreover have "llog (enter i rf b) ?t = ?l @ [e]" by (simp add: b)
      ultimately show ?thesis using 2 by (simp only: take_all length_append) simp
    qed
  qed
  have maj: "majority ids h i (currentTerm rf)" using inv L(1) by (auto simp: logs_inv_def terms_ok_def rf)
  show ?thesis
    using ok True L inv by (intro logs_inv_enter [OF inv _ _ ag _ _ _ maj subset_refl v'])
      (auto simp: rf c' node_ok_def logs_inv_def terms_ok_def)
next
  case False
  then have "rf = nodes c i" using pr by (simp add: Propose_def)
  then show ?thesis using inv False by (simp add: c' set_node_def)
qed

lemma wire_ok_less:
  assumes "wire_ok c b" and "set (appends d) \<subseteq> set (appends c)"
    and "\<And>p args reply. (p, args, reply) \<in> set (acks d) \<Longrightarrow> (p, args, reply) \<in> set (acks c) \<or> 0 \<le> aPrevLogIndex args"
  shows "wire_ok d b"
  using assms unfolding wire_ok_def by blast

definition remember_log :: "event \<Rightarrow> cluster \<Rightarrow> book \<Rightarrow> book" where
  "remember_log e c' b = enter (event_node e) (nodes c' (event_node e)) b"

lemma logs_inv_step:
  assumes inv: "logs_inv ids c h b" and v: "votes_inv ids c h" and ids: "cluster_ids ids" and step: "cluster_step e c = Some c'"
    and e: "\<And>i. e \<noteq> Restart i" "\<And>i k. e \<noteq> Compact i k"
  shows "logs_inv ids c' (remember e c h) (remember_log e c' b)"
proof -
  let ?h = "remember e c h" and ?i = "event_node e"
  note v' = votes_inv_step [OF v ids step e(1)] and g = counted_grows [OF v, of _ e]
  have ok: "node_ok b i (nodes c i)" "agrees b (logStore (nodes c i))" for i using inv by (simp_all add: logs_inv_def node_ok_def)
  have w: "wire_ok c b" using inv by (simp add: logs_inv_def)
  have calm_case: "logs_inv ids c' ?h (remember_log e c' b)"
    if "nodes c' = (nodes c)(?i := rf)" "calm (nodes c ?i) rf" "agrees b (logStore rf)" "wire_ok c' b" for rf
  proof -
    have L: "logs_inv ids c' ?h b" by (rule logs_inv_calm [OF inv that(2,3) g v' that(1,4)])
    then have "node_ok b ?i (nodes c' ?i)" by (simp add: logs_inv_def)
    then show ?thesis using L by (simp add: remember_log_def enter_known)
  qed
  show ?thesis
  proof (cases e)
    case (Timeout i)
    obtain r rf where r: "election_timeout (nodes c i) = Some (r, rf)" "nodes c' = (nodes c)(i := rf)"
      "appends c' = appends c" "acks c' = acks c"
      using step by (auto simp: Timeout timeout_event_def split: if_splits option.splits)
    then show ?thesis using calm_case [of rf] timeout_calm [OF r(1)] ok(2) w by (simp add: Timeout wire_ok_def)
  next
    case (Vote p args)
    obtain reply rf where r: "RequestVote args (nodes c p) = (reply, rf)" "nodes c' = (nodes c)(p := rf)"
      "appends c' = appends c" "acks c' = acks c"
      using step by (auto simp: Vote vote_event_def split: if_splits prod.splits)
    then show ?thesis using calm_case [of rf] RequestVote_calm [OF r(1)] ok(2) w by (simp add: Vote wire_ok_def)
  next
    case (VoteReply p args reply)
    then show ?thesis using logs_inv_vote_reply [OF inv v v' ids g] step by (simp add: remember_log_def)
  next
    case (Replicate i p)
    consider "c' = c" | args where "replicate_args p (nodes c i) = Some (Some args)" "p \<in> set (Peers (nodes c i))" "p \<noteq> i"
        "c' = c\<lparr>appends := (p, args) # appends c\<rparr>"
      using step by (auto simp: Replicate replicate_event_def split: if_splits option.splits)
    then have "wire_ok c' b \<and> nodes c' = (nodes c)(i := nodes c i)"
    proof cases
      case 2
      have "rid (nodes c i) = i" using v by (simp add: votes_inv_def ids_ok_def)
      from replicate_msg [OF ok(1) 2(1-3) this] 2(3,4) w
      show ?thesis by (auto simp: wire_ok_def)
    qed (use w in auto)
    then show ?thesis using calm_case [of "nodes c i"] ok(2) by (simp add: Replicate)
  next
    case (Append p args)
    obtain reply rf where r: "AppendEntries args (nodes c p) = Some (reply, rf)" "(p, args) \<in> set (appends c)"
      "nodes c' = (nodes c)(p := rf)" "appends c' = remove1 (p, args) (appends c)" "acks c' = (p, args, reply) # acks c"
      using step by (auto simp: Append append_event_def split: if_splits option.splits)
    have m: "msg_ok b args" "p \<noteq> aLeaderID args" using w r(2) by (auto simp: wire_ok_def)
    have "llog b (aTerm args) \<noteq> []" using m(1) by (auto simp: msg_ok_def Let_def)
    then have "agrees b (logStore rf)"
      using AppendEntries_agrees [OF r(1) ok(2) _ m(1)] inv by (auto simp: logs_inv_def)
    moreover have "\<not> (state (nodes c p) = Leader \<and> currentTerm (nodes c p) = aTerm args)"
      using ok(1) [of p] m by (auto simp: node_ok_def msg_ok_def)
    moreover have "wire_ok c' b"
      using m(1) r(4,5) set_remove1_subset [of "(p, args)" "appends c"]
      by (intro wire_ok_less [OF w]) (auto simp: msg_ok_def)
    ultimately show ?thesis using calm_case [of rf] AppendEntries_calm [OF r(1)] r(3) by (simp add: Append)
  next
    case (AppendReply p args reply)
    let ?j = "aLeaderID args"
    obtain rf where r: "replicate_reply p args reply (nodes c ?j) = Some rf" "(p, args, reply) \<in> set (acks c)"
      "nodes c' = (nodes c)(?j := rf)" "appends c' = appends c" "acks c' = remove1 (p, args, reply) (acks c)"
      using step by (auto simp: AppendReply ack_event_def split: if_splits option.splits)
    have "0 \<le> aPrevLogIndex args" using w r(2) unfolding wire_ok_def by blast
    moreover have "wire_ok c' b"
      using r(4,5) set_remove1_subset [of "(p, args, reply)" "acks c"] by (intro wire_ok_less [OF w]) auto
    ultimately show ?thesis using calm_case [of rf] replicate_reply_calm [OF r(1)] ok(2) r(3) by (simp add: AppendReply)
  next
    case (Client i cmd)
    obtain ans rf where r: "Propose cmd (nodes c i) = Some (ans, rf)" "c' = set_node i rf c"
      using step by (auto simp: Client local_event_def split: if_splits option.splits)
    have "?h = h" by (simp add: Client)
    then show ?thesis using logs_inv_propose [OF inv v _ r] v' r(2) by (simp add: Client remember_log_def)
  next
    case (Apply i)
    obtain rf where r: "applyLogs (nodes c i) = Some rf" "c' = set_node i rf c"
      using step by (auto simp: Apply local_event_def split: if_splits option.splits)
    then show ?thesis using calm_case [of rf] applyLogs_calm [OF r(1)] ok(2) w by (simp add: Apply wire_ok_def)
  qed (use e in auto)
qed

lemma logs_inv_run:
  assumes "logs_inv ids c h b" and "votes_inv ids c h" and "cluster_ids ids" and "no_restart es" and "no_compaction es"
    and "cluster_run es c = Some c'"
  shows "\<exists>h' b'. logs_inv ids c' h' b'"
  using assms
proof (induction es arbitrary: c h b)
  case Nil
  then show ?case by auto
next
  case (Cons e es)
  obtain c1 where c1: "cluster_step e c = Some c1" "cluster_run es c1 = Some c'"
    using Cons.prems(6) by (auto split: option.splits)
  have e: "\<And>i. e \<noteq> Restart i" "\<And>i k. e \<noteq> Compact i k" and es: "no_restart es" "no_compaction es"
    using Cons.prems(4,5) by (auto simp: no_restart_def no_compaction_def)
  show ?case
    using Cons.IH [OF logs_inv_step [OF Cons.prems(1,2,3) c1(1) e] votes_inv_step [OF Cons.prems(2,3) c1(1) e(1)]
        Cons.prems(3) es c1(2)] .
qed

text \<open>C5. Log matching. In every run without a restart and without a compaction, whatever is lost, delayed or
  reordered: if the logs of two nodes hold entries of the same term at some index, the two logs are
  the same up to that index.\<close>

theorem log_matching:
  assumes "cluster_ids ids" and "no_restart es" and "no_compaction es" and "cluster_run es (cluster_init ids) = Some c"
    and "log_view (logStore (nodes c i)) k = Some e" and "log_view (logStore (nodes c j)) k = Some e'" and "Term e = Term e'"
    and "m \<le> k"
  shows "log_view (logStore (nodes c i)) m = log_view (logStore (nodes c j)) m"
proof -
  let ?l = "logStore (nodes c i)" and ?l' = "logStore (nodes c j)"
  obtain h b where "logs_inv ids c h b"
    using logs_inv_run [OF logs_inv_init votes_inv_init assms(1-4)] by blast
  then have a: "agrees b ?l" "agrees b ?l'" by (simp_all add: logs_inv_def node_ok_def)
  then have r: "rooted ?l" "rooted ?l'" by (simp_all add: agrees_def)
  have k: "0 \<le> k" "nat k < length ?l" "nat k < length ?l'" "e = ?l ! nat k" "e' = ?l' ! nat k"
    using assms(5,6) by (auto simp: rooted_view [OF r(1)] rooted_view [OF r(2)] split: if_splits)
  have eq: "take (Suc (nat k)) ?l = take (Suc (nat k)) ?l'" using agrees_match [OF a k(2,3)] k(4,5) assms(7) by simp
  show ?thesis
  proof (cases "0 \<le> m")
    case True
    then have m: "nat m < Suc (nat k)" "nat m < length ?l" "nat m < length ?l'" using assms(8) k(2,3) by auto
    have "?l ! nat m = ?l' ! nat m" using arg_cong [OF eq, of "\<lambda>l. l ! nat m"] m(1) by simp
    then show ?thesis using m True by (simp add: rooted_view [OF r(1)] rooted_view [OF r(2)])
  next
    case False
    then show ?thesis by (simp add: rooted_view [OF r(1)] rooted_view [OF r(2)])
  qed
qed

text \<open>Node a leads term 1 and replicates one command to b.\<close>

definition replicated :: "event list" where
  "replicated = Timeout ''a'' # ask ''b'' (vote_call 1 ''a'' 0 0) @ [Client ''a'' ''x'', Replicate ''a'' ''b'',
     Append ''b'' \<lparr>aTerm = 1, aLeaderID = ''a'', aPrevLogIndex = 0, aPrevLogTerm = 0, aEntries = [entry 1 1 ''x''], aLeaderCommit = 0\<rparr>]"

lemma log_matching_witness:
  "\<exists>c. cluster_run replicated (cluster_init [''a'', ''b'', ''c'']) = Some c \<and>
     log_view (logStore (nodes c ''a'')) 0 = log_view (logStore (nodes c ''b'')) 0"
proof -
  let ?ids = "[''a'', ''b'', ''c'']"
  have "map_option (\<lambda>c. (log_view (logStore (nodes c ''a'')) 1, log_view (logStore (nodes c ''b'')) 1))
      (cluster_run replicated (cluster_init ?ids)) = Some (Some (entry 1 1 ''x''), Some (entry 1 1 ''x''))"
    by code_simp
  then obtain c where c: "cluster_run replicated (cluster_init ?ids) = Some c"
    "log_view (logStore (nodes c ''a'')) 1 = Some (entry 1 1 ''x'')" "log_view (logStore (nodes c ''b'')) 1 = Some (entry 1 1 ''x'')"
    by auto
  have h: "cluster_ids ?ids" "no_restart replicated" "no_compaction replicated"
    by (simp_all add: cluster_ids_def no_restart_def no_compaction_def replicated_def ask_def)
  have "(0::int) \<le> 1" by simp
  from log_matching [OF h c refl this] c(1) show ?thesis by blast
qed

end
