(* ===== verification/WalWriter.thy ===== *)
theory WalWriter
  imports WalLog "HOL-Library.Multiset"
begin

text \<open>
  The concurrent side of \<open>wal.go\<close>: many goroutines in \<open>Append\<close>, the goroutine \<open>batchWriter\<close>, and
  \<open>Close\<close> or \<open>Rotate\<close>. A step is what one goroutine does between two points where it can be
  preempted (a lock, a channel operation, the entry of a \<open>select\<close>). \<open>Wal\<close> is this machine seen by a caller that is alone.
\<close>

section \<open>The state\<close>

text \<open>
  Calls of \<open>Append\<close> are numbered. A call has drawn its sequence number, stands in its \<open>select\<close>, waits
  for its answer, or has returned. The \<open>select\<close> reads \<open>w.closed\<close> once, on entry: the call keeps the
  channel it has read, named by the number of rotations before. The channel and the batch hold the
  numbers of the calls whose requests they carry.
\<close>

datatype call = Drawn (call_event: Event) | Selecting (call_event: Event) nat | Waiting (call_event: Event)
  | Returned (call_event: Event) "gerror option"

datatype phase = Open | Closing | Rotating | Shut

text \<open>
  \<open>isClosed\<close> is \<open>phase \<noteq> Open\<close>; \<open>ws_closed\<close> says that the channel \<open>closed\<close> is closed, \<open>ws_epoch\<close> which
  channel that is. \<open>ws_file\<close> is the file at the path of the log, \<open>[]\<close> also when there is none;
  \<open>ws_archive\<close> are the files rotated away, by the second in their name.
\<close>

record Writer =
  ws_seq :: "64 word"
  ws_file :: "wal_line list"
  ws_archive :: "int \<rightharpoonup> wal_line list"
  ws_calls :: "call list"
  batchChan :: "nat list"
  batch :: "nat list"
  ws_running :: bool
  ws_closed :: bool
  ws_epoch :: nat
  ws_phase :: phase
  bufferSize :: nat

definition new_writer :: "nat \<Rightarrow> Writer" where
  "new_writer n =
     \<lparr>ws_seq = 0, ws_file = [], ws_archive = Map.empty, ws_calls = [], batchChan = [], batch = [],
      ws_running = True, ws_closed = False, ws_epoch = 0, ws_phase = Open, bufferSize = n\<rparr>"

section \<open>Append\<close>

definition draw :: "int \<Rightarrow> EventType \<Rightarrow> Job \<Rightarrow> Writer \<Rightarrow> Writer" where
  "draw now eventType job w =
     w\<lparr>ws_seq := ws_seq w + 1, ws_calls := ws_calls w @ [Drawn (new_event now eventType job (ws_seq w + 1))]\<rparr>"

definition enter_select :: "nat \<Rightarrow> Writer \<Rightarrow> Writer option" where
  "enter_select k w =
     (if k < length (ws_calls w) then
        (case ws_calls w ! k of
           Drawn e \<Rightarrow> Some (w\<lparr>ws_calls := (ws_calls w)[k := Selecting e (ws_epoch w)]\<rparr>)
         | _ \<Rightarrow> None)
      else None)"

text \<open>
  The two cases of the \<open>select\<close>; when both are ready either may be taken. The channels of earlier
  rotations are closed.
\<close>

definition send :: "nat \<Rightarrow> Writer \<Rightarrow> Writer option" where
  "send k w =
     (if k < length (ws_calls w) then
        (case ws_calls w ! k of
           Selecting e n \<Rightarrow>
             if length (batchChan w) < 2 * bufferSize w
             then Some (w\<lparr>batchChan := batchChan w @ [k], ws_calls := (ws_calls w)[k := Waiting e]\<rparr>) else None
         | _ \<Rightarrow> None)
      else None)"

definition send_closed :: "nat \<Rightarrow> Writer \<Rightarrow> Writer option" where
  "send_closed k w =
     (if k < length (ws_calls w) then
        (case ws_calls w ! k of
           Selecting e n \<Rightarrow>
             if n \<noteq> ws_epoch w \<or> ws_closed w
             then Some (w\<lparr>ws_calls := (ws_calls w)[k := Returned e (Some ErrWALClosed)]\<rparr>) else None
         | _ \<Rightarrow> None)
      else None)"

section \<open>The batch writer\<close>

text \<open>\<open>flushBatch\<close> sends its result to every request of the batch.\<close>

fun answer :: "gerror option \<Rightarrow> nat list \<Rightarrow> call list \<Rightarrow> call list" where
  "answer err [] cs = cs"
| "answer err (k # ks) cs = answer err ks (cs[k := Returned (call_event (cs ! k)) err])"

definition flush :: "flush_io \<Rightarrow> Writer \<Rightarrow> Writer" where
  "flush out w =
     (case flushBatch out (map (\<lambda>k. call_event (ws_calls w ! k)) (batch w)) (ws_file w) of
        (err, file) \<Rightarrow> w\<lparr>ws_file := file, ws_calls := answer err (batch w) (ws_calls w), batch := []\<rparr>)"

text \<open>The writer takes a request unless its batch is full, which it then flushes first.\<close>

definition recv :: "Writer \<Rightarrow> Writer option" where
  "recv w = (case batchChan w of
     [] \<Rightarrow> None
   | k # ks \<Rightarrow> if ws_running w \<and> length (batch w) < bufferSize w
                then Some (w\<lparr>batchChan := ks, batch := batch w @ [k]\<rparr>) else None)"

definition flush_full :: "flush_io \<Rightarrow> Writer \<Rightarrow> Writer option" where
  "flush_full out w = (if ws_running w \<and> bufferSize w \<le> length (batch w) then Some (flush out w) else None)"

definition tick :: "flush_io \<Rightarrow> Writer \<Rightarrow> Writer option" where
  "tick out w = (if ws_running w \<and> batch w \<noteq> [] \<and> length (batch w) < bufferSize w then Some (flush out w) else None)"

definition exit_writer :: "flush_io \<Rightarrow> Writer \<Rightarrow> Writer option" where
  "exit_writer out w =
     (if ws_running w \<and> ws_closed w \<and> length (batch w) < bufferSize w
      then Some ((if batch w = [] then w else flush out w)\<lparr>ws_running := False\<rparr>) else None)"

section \<open>Close and Rotate\<close>

text \<open>Both set \<open>isClosed\<close>, close the channel, and wait for the writer to exit.\<close>

definition begin_stop :: "phase \<Rightarrow> Writer \<Rightarrow> Writer option" where
  "begin_stop p w = (if ws_phase w = Open then Some (w\<lparr>ws_phase := p, ws_closed := True\<rparr>) else None)"

definition end_close :: "Writer \<Rightarrow> Writer option" where
  "end_close w = (if ws_phase w = Closing \<and> \<not> ws_running w then Some (w\<lparr>ws_phase := Shut\<rparr>) else None)"

text \<open>
  \<open>Rotate\<close> then renames the file to a name made of the second the clock shows; \<open>os.Rename\<close> replaces a
  file that has this name already. Where opening the new file fails the old one has been renamed.
\<close>

definition end_rotate :: "int \<Rightarrow> rotate_io \<Rightarrow> Writer \<Rightarrow> Writer option" where
  "end_rotate stamp out w =
     (if ws_phase w = Rotating \<and> \<not> ws_running w then
        Some (case out of
                RotateOk \<Rightarrow> w\<lparr>ws_archive := (ws_archive w)(stamp \<mapsto> ws_file w), ws_file := [], ws_seq := 0,
                               ws_closed := False, ws_epoch := ws_epoch w + 1, ws_running := True, ws_phase := Open\<rparr>
              | OpenFails \<Rightarrow> w\<lparr>ws_archive := (ws_archive w)(stamp \<mapsto> ws_file w), ws_file := [], ws_phase := Shut\<rparr>
              | _ \<Rightarrow> w\<lparr>ws_phase := Shut\<rparr>)
      else None)"

datatype wstep = Draw int EventType Job | Select nat | Send nat | SendClosed nat | Recv | FlushFull flush_io | Tick flush_io
  | Exit flush_io | BeginClose | EndClose | BeginRotate | EndRotate int rotate_io

fun writer_step :: "wstep \<Rightarrow> Writer \<Rightarrow> Writer option" where
  "writer_step (Draw now t j) w = Some (draw now t j w)"
| "writer_step (Select k) w = enter_select k w"
| "writer_step (Send k) w = send k w"
| "writer_step (SendClosed k) w = send_closed k w"
| "writer_step Recv w = recv w"
| "writer_step (FlushFull out) w = flush_full out w"
| "writer_step (Tick out) w = tick out w"
| "writer_step (Exit out) w = exit_writer out w"
| "writer_step BeginClose w = begin_stop Closing w"
| "writer_step EndClose w = end_close w"
| "writer_step BeginRotate w = begin_stop Rotating w"
| "writer_step (EndRotate stamp out) w = end_rotate stamp out w"

fun writer_run :: "wstep list \<Rightarrow> Writer \<Rightarrow> Writer option" where
  "writer_run [] w = Some w"
| "writer_run (s # ss) w = (case writer_step s w of None \<Rightarrow> None | Some w' \<Rightarrow> writer_run ss w')"

lemma writer_run_append:
  "writer_run (ss @ ts) w = (case writer_run ss w of None \<Rightarrow> None | Some w' \<Rightarrow> writer_run ts w')"
  by (induction ss arbitrary: w) (auto split: option.splits)

section \<open>The invariant\<close>

definition acked :: "call list \<Rightarrow> Event multiset" where
  "acked cs = mset (List.map_filter (\<lambda>c. case c of Returned e None \<Rightarrow> Some e | _ \<Rightarrow> None) cs)"

text \<open>The events in the files: those rotated away, and the one at the path.\<close>

definition archived :: "(int \<rightharpoonup> wal_line list) \<Rightarrow> Event multiset" where
  "archived a = (\<Sum>t \<in> dom a. mset (records (the (a t))))"

definition stored :: "Writer \<Rightarrow> Event multiset" where
  "stored w = archived (ws_archive w) + mset (records (ws_file w))"

lemma archived_empty [simp]: "archived Map.empty = {#}"
  by (simp add: archived_def)

lemma archived_fresh:
  assumes "finite (dom a)" and "a t = None"
  shows "archived (a(t \<mapsto> file)) = mset (records file) + archived a"
proof -
  have "(\<Sum>u \<in> dom a. mset (records (the ((a(t \<mapsto> file)) u)))) = archived a"
    unfolding archived_def using assms(2) by (intro sum.cong) auto
  then show ?thesis using assms by (simp add: archived_def domIff)
qed

definition is_waiting :: "call \<Rightarrow> bool" where
  "is_waiting c \<longleftrightarrow> (case c of Waiting e \<Rightarrow> True | _ \<Rightarrow> False)"

lemma is_waiting_simps [simp]:
  "is_waiting (Waiting e)" "\<not> is_waiting (Drawn e)" "\<not> is_waiting (Selecting e n)" "\<not> is_waiting (Returned e err)"
  by (simp_all add: is_waiting_def)

text \<open>The requests under way are exactly those of the waiting calls, each once.\<close>

definition requests_ok :: "Writer \<Rightarrow> bool" where
  "requests_ok w \<longleftrightarrow> distinct (batchChan w @ batch w) \<and>
     (\<forall>k. k \<in> set (batchChan w @ batch w) \<longleftrightarrow> k < length (ws_calls w) \<and> is_waiting (ws_calls w ! k))"

definition phase_ok :: "Writer \<Rightarrow> bool" where
  "phase_ok w \<longleftrightarrow> (ws_phase w = Open \<longrightarrow> ws_running w \<and> \<not> ws_closed w) \<and> (ws_phase w \<noteq> Open \<longrightarrow> ws_closed w) \<and>
     (ws_phase w = Shut \<longrightarrow> \<not> ws_running w) \<and> (\<not> ws_running w \<longrightarrow> batch w = [])"

definition writer_inv :: "Writer \<Rightarrow> bool" where
  "writer_inv w \<longleftrightarrow> requests_ok w \<and> phase_ok w \<and> finite (dom (ws_archive w)) \<and>
     length (batch w) \<le> bufferSize w \<and> length (batchChan w) \<le> 2 * bufferSize w"

lemma acked_simps [simp]:
  "acked [] = {#}" "acked (xs @ ys) = acked xs + acked ys"
  "acked (Returned e None # cs) = add_mset e (acked cs)" "acked (Returned e (Some err) # cs) = acked cs"
  "acked (Drawn e # cs) = acked cs" "acked (Selecting e n # cs) = acked cs" "acked (Waiting e # cs) = acked cs"
  by (simp_all add: acked_def map_filter_simps map_filter_def)

lemma acked_update:
  assumes "k < length cs" and "acked [cs ! k] = {#}"
  shows "acked (cs[k := c]) = acked [c] + acked cs"
proof -
  have "cs[k := c] = take k cs @ [c] @ drop (Suc k) cs" using assms(1) by (simp add: upd_conv_take_nth_drop)
  moreover have "cs = take k cs @ [cs ! k] @ drop (Suc k) cs" using assms(1) by (simp add: id_take_nth_drop)
  ultimately show ?thesis using assms(2) by (metis acked_simps(2) add.left_commute add.right_neutral add.commute)
qed

lemma is_waiting_acked: "is_waiting c \<Longrightarrow> acked [c] = {#}"
  by (cases c) simp_all

lemma answer_event [simp]: "call_event (cs[a := Returned (call_event (cs ! a)) err] ! k) = call_event (cs ! k)"
  by (cases "a = k"; cases "a < length cs") (simp_all add: list_update_beyond)

lemma answer_length [simp]: "length (answer err ks cs) = length cs"
  by (induction ks arbitrary: cs) simp_all

lemma answer_nth:
  "distinct ks \<Longrightarrow> k < length cs \<Longrightarrow> answer err ks cs ! k = (if k \<in> set ks then Returned (call_event (cs ! k)) err else cs ! k)"
  by (induction ks arbitrary: cs) (auto simp: nth_list_update)

lemma answer_acked:
  assumes "distinct ks" and "\<forall>k \<in> set ks. k < length cs \<and> is_waiting (cs ! k)"
  shows "acked (answer err ks cs) = (if err = None then mset (map (\<lambda>k. call_event (cs ! k)) ks) else {#}) + acked cs"
  using assms
proof (induction ks arbitrary: cs)
  case Nil
  then show ?case by simp
next
  case (Cons k ks)
  let ?cs = "cs[k := Returned (call_event (cs ! k)) err]"
  have k: "k < length cs" "is_waiting (cs ! k)" "k \<notin> set ks" using Cons.prems by simp_all
  have "acked (answer err ks ?cs) = (if err = None then mset (map (\<lambda>k. call_event (?cs ! k)) ks) else {#}) + acked ?cs"
    using Cons.prems by (intro Cons.IH) (auto simp: nth_list_update)
  moreover have "map (\<lambda>k. call_event (?cs ! k)) ks = map (\<lambda>k. call_event (cs ! k)) ks" by simp
  moreover have "acked ?cs = acked [Returned (call_event (cs ! k)) err] + acked cs"
    by (rule acked_update [OF k(1) is_waiting_acked [OF k(2)]])
  ultimately show ?case by (cases err) simp_all
qed

lemma flushBatch_stored:
  "flushBatch out es file = (err, file') \<Longrightarrow>
     (if err = None then mset es else {#}) + mset (records file) \<subseteq># mset (records file')"
  by (auto simp: flushBatch_def split: flush_io.splits if_splits)

lemma flush_inv:
  assumes inv: "writer_inv w" and run: "ws_running w"
  shows "writer_inv (flush out w)" and "batch (flush out w) = []" and "ws_phase (flush out w) = ws_phase w"
    "ws_closed (flush out w) = ws_closed w" "ws_running (flush out w) = ws_running w"
    "ws_archive (flush out w) = ws_archive w"
    "acked (ws_calls w) \<subseteq># stored w \<Longrightarrow> acked (ws_calls (flush out w)) \<subseteq># stored (flush out w)"
proof -
  let ?es = "map (\<lambda>k. call_event (ws_calls w ! k)) (batch w)"
  obtain err f where fb: "flushBatch out ?es (ws_file w) = (err, f)" by fastforce
  have fl: "flush out w = w\<lparr>ws_file := f, ws_calls := answer err (batch w) (ws_calls w), batch := []\<rparr>"
    using fb by (simp add: flush_def)
  have r: "distinct (batchChan w @ batch w)"
    "\<And>k. k \<in> set (batchChan w @ batch w) \<longleftrightarrow> k < length (ws_calls w) \<and> is_waiting (ws_calls w ! k)"
    using inv by (auto simp: writer_inv_def requests_ok_def)
  have nth: "answer err (batch w) (ws_calls w) ! k = (if k \<in> set (batch w) then Returned (call_event (ws_calls w ! k)) err
      else ws_calls w ! k)" if "k < length (ws_calls w)" for k
    using answer_nth [OF _ that] r(1) by simp
  have "k \<in> set (batchChan w) \<longleftrightarrow> k < length (ws_calls w) \<and> is_waiting (answer err (batch w) (ws_calls w) ! k)" for k
    using r(1) r(2) [of k] nth [of k] by auto
  then have "requests_ok (flush out w)" using r(1) by (simp add: fl requests_ok_def)
  then show "writer_inv (flush out w)" using inv run by (simp add: writer_inv_def phase_ok_def fl)
  have "acked (answer err (batch w) (ws_calls w)) = (if err = None then mset ?es else {#}) + acked (ws_calls w)"
    using r by (intro answer_acked) auto
  moreover have "(if err = None then mset ?es else {#}) + stored w \<subseteq># stored (flush out w)"
    using flushBatch_stored [OF fb] by (simp add: stored_def fl add.left_commute)
  moreover have "ws_calls (flush out w) = answer err (batch w) (ws_calls w)" by (simp add: fl)
  ultimately show "acked (ws_calls (flush out w)) \<subseteq># stored (flush out w)" if "acked (ws_calls w) \<subseteq># stored w"
    using subset_mset.order_trans [OF subset_mset.add_left_mono [OF that]] by simp
  show "batch (flush out w) = []" "ws_phase (flush out w) = ws_phase w" "ws_archive (flush out w) = ws_archive w"
    "ws_closed (flush out w) = ws_closed w" "ws_running (flush out w) = ws_running w" by (simp_all add: fl)
qed

lemma draw_inv: "writer_inv w \<Longrightarrow> writer_inv (draw now t j w)"
  by (auto simp: writer_inv_def requests_ok_def phase_ok_def draw_def nth_append less_Suc_eq)

lemma update_inv:
  assumes inv: "writer_inv w" and k: "k < length (ws_calls w)" "\<not> is_waiting (ws_calls w ! k)" and c: "\<not> is_waiting c"
  shows "writer_inv (w\<lparr>ws_calls := (ws_calls w)[k := c]\<rparr>)"
  using inv k c by (auto simp: writer_inv_def requests_ok_def phase_ok_def nth_list_update)

lemma send_inv:
  assumes inv: "writer_inv w" and s: "send k w = Some w'"
  shows "writer_inv w'"
proof -
  obtain e n where e: "k < length (ws_calls w)" "ws_calls w ! k = Selecting e n" "length (batchChan w) < 2 * bufferSize w"
    "w' = w\<lparr>batchChan := batchChan w @ [k], ws_calls := (ws_calls w)[k := Waiting e]\<rparr>"
    using s by (auto simp: send_def split: if_splits call.splits)
  have "k \<notin> set (batchChan w @ batch w)" using inv e(2) by (simp add: writer_inv_def requests_ok_def)
  then have d: "distinct (batchChan w' @ batch w')" using inv by (simp add: writer_inv_def requests_ok_def e(4))
  have "j \<in> set (batchChan w' @ batch w') \<longleftrightarrow> j < length (ws_calls w') \<and> is_waiting (ws_calls w' ! j)" for j
  proof -
    have "j \<in> set (batchChan w @ batch w) \<longleftrightarrow> j < length (ws_calls w) \<and> is_waiting (ws_calls w ! j)"
      using inv by (simp add: writer_inv_def requests_ok_def)
    then show ?thesis using e(1) by (cases "j = k") (auto simp: e(4))
  qed
  with d have "requests_ok w'" unfolding requests_ok_def by blast
  then show ?thesis using inv e(3) by (simp add: writer_inv_def phase_ok_def e(4))
qed

lemma writer_inv_phase: "writer_inv w \<Longrightarrow> phase_ok w"
  by (simp add: writer_inv_def)

lemma writer_inv_archive: "writer_inv w \<Longrightarrow> finite (dom (ws_archive w))"
  by (simp add: writer_inv_def)

lemma writer_inv_frame:
  assumes "writer_inv w" and "ws_calls w' = ws_calls w" and "batchChan w' = batchChan w" and "batch w' = batch w"
    and "bufferSize w' = bufferSize w" and "finite (dom (ws_archive w'))" and "phase_ok w'"
  shows "writer_inv w'"
  using assms by (simp add: writer_inv_def requests_ok_def)

lemma stopped_inv: "writer_inv w \<Longrightarrow> batch w = [] \<Longrightarrow> ws_phase w \<noteq> Open \<Longrightarrow> writer_inv (w\<lparr>ws_running := False\<rparr>)"
  by (simp add: writer_inv_def requests_ok_def phase_ok_def)

lemma writer_step_inv:
  assumes inv: "writer_inv w" and s: "writer_step s w = Some w'"
  shows "writer_inv w'"
proof (cases s)
  case (Draw now t j)
  then show ?thesis using draw_inv [OF inv] s by auto
next
  case (Select k)
  then show ?thesis using update_inv [OF inv] s by (auto simp: enter_select_def split: if_splits call.splits)
next
  case (Send k)
  then show ?thesis using send_inv [OF inv] s by simp
next
  case (SendClosed k)
  then show ?thesis using update_inv [OF inv] s by (auto simp: send_closed_def split: if_splits call.splits)
next
  case Recv
  then obtain k ks where r: "batchChan w = k # ks" "ws_running w" "length (batch w) < bufferSize w"
    "w' = w\<lparr>batchChan := ks, batch := batch w @ [k]\<rparr>"
    using s by (auto simp: recv_def split: list.splits if_splits)
  have "set (batchChan w' @ batch w') = set (batchChan w @ batch w)" by (simp add: r(1,4))
  moreover have "distinct (batchChan w' @ batch w')"
    using inv by (auto simp: writer_inv_def requests_ok_def r(1,4))
  ultimately have "requests_ok w'" using inv by (simp add: requests_ok_def writer_inv_def r(4))
  then show ?thesis using inv r(1-3) by (simp add: writer_inv_def phase_ok_def r(4))
next
  case (FlushFull out)
  then show ?thesis using flush_inv [OF inv] s by (auto simp: flush_full_def split: if_splits)
next
  case (Tick out)
  then show ?thesis using flush_inv [OF inv] s by (auto simp: tick_def split: if_splits)
next
  case (Exit out)
  then have w': "ws_running w" "ws_closed w" "w' = (if batch w = [] then w else flush out w)\<lparr>ws_running := False\<rparr>"
    using s by (auto simp: exit_writer_def split: if_splits)
  let ?w = "if batch w = [] then w else flush out w"
  note F = flush_inv [OF inv w'(1), of out]
  have p: "ws_phase w \<noteq> Open" using inv w'(2) by (simp add: writer_inv_def phase_ok_def)
  have "writer_inv ?w \<and> batch ?w = [] \<and> ws_phase ?w \<noteq> Open \<and> ws_closed ?w"
  proof (cases "batch w = []")
    case True
    then show ?thesis using inv p w'(2) by simp
  next
    case False
    then show ?thesis using F p w'(2) by simp
  qed
  then show ?thesis unfolding w'(3) using stopped_inv by blast
next
  case (EndRotate stamp out)
  then show ?thesis using writer_inv_phase [OF inv] writer_inv_archive [OF inv] s
    by (intro writer_inv_frame [OF inv]) (auto simp: end_rotate_def phase_ok_def split: if_splits rotate_io.splits)
next
  case BeginClose
  then show ?thesis using writer_inv_phase [OF inv] writer_inv_archive [OF inv] s
    by (intro writer_inv_frame [OF inv]) (auto simp: begin_stop_def phase_ok_def split: if_splits)
next
  case BeginRotate
  then show ?thesis using writer_inv_phase [OF inv] writer_inv_archive [OF inv] s
    by (intro writer_inv_frame [OF inv]) (auto simp: begin_stop_def phase_ok_def split: if_splits)
next
  case EndClose
  then show ?thesis using writer_inv_phase [OF inv] writer_inv_archive [OF inv] s
    by (intro writer_inv_frame [OF inv]) (auto simp: end_close_def phase_ok_def split: if_splits)
qed

lemma writer_run_inv: "writer_inv w \<Longrightarrow> writer_run ss w = Some w' \<Longrightarrow> writer_inv w'"
  by (induction ss arbitrary: w) (auto dest: writer_step_inv split: option.splits)

lemma new_writer_inv: "writer_inv (new_writer n)"
  by (simp add: writer_inv_def requests_ok_def phase_ok_def new_writer_def)

section \<open>What the files hold\<close>

text \<open>The seconds in the names of the files a run archives.\<close>

fun archive_second :: "wstep \<Rightarrow> int list" where
  "archive_second (EndRotate stamp RotateOk) = [stamp]"
| "archive_second (EndRotate stamp OpenFails) = [stamp]"
| "archive_second s = []"

definition archive_seconds :: "wstep list \<Rightarrow> int list" where
  "archive_seconds ss = concat (map archive_second ss)"

lemma archive_seconds_Cons: "archive_seconds (s # ss) = archive_second s @ archive_seconds ss"
  by (simp add: archive_seconds_def)

lemma flush_archive [simp]: "ws_archive (flush out w) = ws_archive w"
  by (simp add: flush_def split: prod.splits)

lemma archive_step:
  assumes "writer_step s w = Some w'"
  shows "dom (ws_archive w') = set (archive_second s) \<union> dom (ws_archive w)"
  using assms
  by (cases s) (auto simp: draw_def enter_select_def send_def send_closed_def recv_def flush_full_def tick_def
      exit_writer_def begin_stop_def end_close_def end_rotate_def split: if_splits call.splits list.splits rotate_io.splits)

text \<open>A step that does not replace an archived file keeps every acknowledged event in the files.\<close>

lemma writer_logged_frame:
  assumes "acked (ws_calls w) \<subseteq># stored w" and "stored w' = stored w" and "acked (ws_calls w') = acked (ws_calls w)"
  shows "acked (ws_calls w') \<subseteq># stored w'"
  using assms by simp

lemma end_rotate_stored:
  assumes "finite (dom (ws_archive w))" and "set (archive_second (EndRotate stamp out)) \<inter> dom (ws_archive w) = {}"
    and "end_rotate stamp out w = Some w'"
  shows "stored w' = stored w"
  using assms by (cases out) (auto simp: end_rotate_def stored_def archived_fresh add.commute domIff split: if_splits)

lemma writer_logged_step:
  assumes inv: "writer_inv w" and log: "acked (ws_calls w) \<subseteq># stored w"
    and fresh: "set (archive_second s) \<inter> dom (ws_archive w) = {}" and s: "writer_step s w = Some w'"
  shows "acked (ws_calls w') \<subseteq># stored w'"
proof (cases s)
  case (EndRotate stamp out)
  then have r: "end_rotate stamp out w = Some w'" using s by simp
  show ?thesis
    using end_rotate_stored [OF writer_inv_archive [OF inv] fresh [unfolded EndRotate] r] r
    by (intro writer_logged_frame [OF log]) (auto simp: end_rotate_def split: if_splits rotate_io.splits)
next
  case (Exit out)
  then have "ws_running w" "w' = (if batch w = [] then w else flush out w)\<lparr>ws_running := False\<rparr>"
    using s by (auto simp: exit_writer_def split: if_splits)
  then show ?thesis using flush_inv(7) [OF inv _ log, of out] log by (simp add: stored_def)
qed (use s log flush_inv(7) [OF inv _ log] acked_update in
    \<open>auto simp: draw_def enter_select_def send_def send_closed_def recv_def flush_full_def tick_def begin_stop_def
      end_close_def stored_def split: if_splits call.splits list.splits\<close>)

lemma writer_logged_run:
  assumes "writer_inv w" and "acked (ws_calls w) \<subseteq># stored w" and "distinct (archive_seconds ss)"
    and "set (archive_seconds ss) \<inter> dom (ws_archive w) = {}" and "writer_run ss w = Some w'"
  shows "acked (ws_calls w') \<subseteq># stored w'"
  using assms
proof (induction ss arbitrary: w)
  case Nil
  then show ?case by simp
next
  case (Cons s ss)
  obtain w1 where w1: "writer_step s w = Some w1" "writer_run ss w1 = Some w'" using Cons.prems(5) by (auto split: option.splits)
  have f: "set (archive_second s) \<inter> dom (ws_archive w) = {}" using Cons.prems(4) by (auto simp: archive_seconds_Cons)
  have "set (archive_seconds ss) \<inter> dom (ws_archive w1) = {}"
    using Cons.prems(3,4) by (auto simp: archive_seconds_Cons archive_step [OF w1(1)])
  then show ?case using Cons.prems(3) w1(2)
    by (intro Cons.IH [OF writer_step_inv [OF Cons.prems(1) w1(1)] writer_logged_step [OF Cons.prems(1,2) f w1(1)]])
      (auto simp: archive_seconds_Cons)
qed

end
