(* ===== verification/WalWriterProps.thy ===== *)
theory WalWriterProps
  imports WalWriter
begin

text \<open>
  What concurrent callers of the log can rely on: an append that returned no error is in a file, an open
  log answers everybody, a caller that is alone sees the \<open>Append\<close> of \<open>Wal\<close>. And what they cannot: an
  answer after \<open>Close\<close>, and numbers in order.
\<close>

section \<open>Durability\<close>

text \<open>C8. Acknowledged means written, as long as no two rotations fall in the same second. In every
  interleaving of appends, flushes with any outcome, closing and rotation, where no two of the
  renames of the run give a file the same name, the events of the calls that returned without an
  error are in the files, as often as they were acknowledged; and a call waits for an answer exactly
  if its request is in the channel or in the batch, once.\<close>

theorem acknowledged_events_are_logged:
  assumes "writer_run ss (new_writer n) = Some w" and "distinct (archive_seconds ss)"
  shows "acked (ws_calls w) \<subseteq># stored w \<and> distinct (batchChan w @ batch w) \<and>
    (\<forall>k. k \<in> set (batchChan w @ batch w) \<longleftrightarrow> k < length (ws_calls w) \<and> is_waiting (ws_calls w ! k))"
  using writer_logged_run [OF new_writer_inv _ assms(2) _ assms(1)] writer_run_inv [OF new_writer_inv assms(1)]
  by (auto simp: writer_inv_def requests_ok_def new_writer_def)

definition some_job :: "JobID \<Rightarrow> Job" where
  "some_job i = zero_job\<lparr>ID := i\<rparr>"

text \<open>Two callers; the second sends first; one flush writes both.\<close>

definition two_appends :: "wstep list" where
  "two_appends = [Draw 0 EventEnqueue (some_job ''a''), Draw 0 EventEnqueue (some_job ''b''), Select 0, Select 1, Send 1, Send 0,
     Recv, Recv, Tick FlushOk]"

definition rotate_at :: "int \<Rightarrow> wstep list" where
  "rotate_at t = [BeginRotate, Exit FlushOk, EndRotate t RotateOk]"

lemmas writer_defs = draw_def enter_select_def send_def send_closed_def recv_def flush_full_def tick_def exit_writer_def begin_stop_def
  end_close_def end_rotate_def flush_def flushBatch_def new_writer_def

lemma acknowledged_events_are_logged_witness:
  "\<exists>w. writer_run (two_appends @ rotate_at 7 @ rotate_at 8) (new_writer 4) = Some w \<and> ws_file w = [] \<and>
     size (acked (ws_calls w)) = 2 \<and> acked (ws_calls w) \<subseteq># stored w"
proof -
  let ?ss = "two_appends @ rotate_at 7 @ rotate_at 8"
  obtain w where w: "writer_run ?ss (new_writer 4) = Some w" "ws_file w = []" "size (acked (ws_calls w)) = 2"
    by (simp add: two_appends_def rotate_at_def writer_defs)
  have "distinct (archive_seconds ?ss)" by (simp add: two_appends_def rotate_at_def archive_seconds_def)
  then show ?thesis using acknowledged_events_are_logged [OF w(1)] w by blast
qed

text \<open>The second of two rotations in one second replaces the file of the first, and the acknowledged
  events with it.\<close>

theorem rotations_in_one_second_lose_events:
  "\<exists>w. writer_run (two_appends @ rotate_at t @ rotate_at t) (new_writer 4) = Some w \<and>
     size (acked (ws_calls w)) = 2 \<and> ws_file w = [] \<and> ws_archive w = [t \<mapsto> []] \<and> stored w = {#}"
  by (simp add: two_appends_def rotate_at_def writer_defs stored_def archived_def)

section \<open>An open log answers\<close>

text \<open>What happens to the calls while the writer works: some of the waiting ones return without an error.\<close>

definition served :: "call list \<Rightarrow> call list \<Rightarrow> bool" where
  "served cs cs' \<longleftrightarrow> length cs' = length cs \<and>
     (\<forall>k < length cs. cs' ! k = cs ! k \<or> is_waiting (cs ! k) \<and> cs' ! k = Returned (call_event (cs ! k)) None)"

lemma served_refl [simp]: "served cs cs"
  by (simp add: served_def)

lemma served_trans: "served a b \<Longrightarrow> served b c \<Longrightarrow> served a c"
  by (fastforce simp: served_def)

lemma flush_served:
  assumes "writer_inv w"
  shows "served (ws_calls w) (ws_calls (flush FlushOk w))"
proof -
  have b: "distinct (batch w)" "k \<in> set (batch w) \<Longrightarrow> is_waiting (ws_calls w ! k)" for k
    using assms by (auto simp: writer_inv_def requests_ok_def)
  show ?thesis using b by (auto simp: served_def flush_def flushBatch_def answer_nth)
qed

lemma writer_drains:
  assumes "writer_inv w" and "ws_phase w = Open" and "0 < bufferSize w"
  shows "\<exists>ss w'. set ss \<subseteq> {Recv, FlushFull FlushOk, Tick FlushOk} \<and> writer_run ss w = Some w' \<and>
    length ss \<le> 2 * length (batchChan w) + (if batch w = [] then 0 else 1) \<and>
    batchChan w' = [] \<and> batch w' = [] \<and> served (ws_calls w) (ws_calls w')"
  using assms
proof (induction "2 * length (batchChan w) + (if batch w = [] then 0 else 1)" arbitrary: w rule: less_induct)
  case less
  have run: "ws_running w" using less.prems(1,2) by (auto dest: writer_inv_phase simp: phase_ok_def)
  have go: "\<exists>ss w'. set ss \<subseteq> {Recv, FlushFull FlushOk, Tick FlushOk} \<and> writer_run ss w = Some w' \<and>
      length ss \<le> 2 * length (batchChan w) + (if batch w = [] then 0 else 1) \<and>
      batchChan w' = [] \<and> batch w' = [] \<and> served (ws_calls w) (ws_calls w')"
    if s: "s \<in> {Recv, FlushFull FlushOk, Tick FlushOk}" "writer_step s w = Some w1"
      and d: "2 * length (batchChan w1) + (if batch w1 = [] then 0 else 1) < 2 * length (batchChan w) + (if batch w = [] then 0 else (1::nat))"
      and o: "ws_phase w1 = Open" "bufferSize w1 = bufferSize w" "served (ws_calls w) (ws_calls w1)" for s w1
  proof -
    have "0 < bufferSize w1" using o(2) less.prems(3) by simp
    then obtain ss w' where "set ss \<subseteq> {Recv, FlushFull FlushOk, Tick FlushOk}" "writer_run ss w1 = Some w'"
      "length ss \<le> 2 * length (batchChan w1) + (if batch w1 = [] then 0 else 1)"
      "batchChan w' = []" "batch w' = []" "served (ws_calls w1) (ws_calls w')"
      using less.hyps [OF d writer_step_inv [OF less.prems(1) s(2)] o(1)] by blast
    then show ?thesis using s d served_trans [OF o(3)] by (intro exI [of _ "s # ss"] exI [of _ w']) auto
  qed
  note F = flush_inv [OF less.prems(1) run, of FlushOk] flush_served [OF less.prems(1)]
  have fl: "bufferSize (flush FlushOk w) = bufferSize w" "batchChan (flush FlushOk w) = batchChan w"
    by (simp_all add: flush_def split: prod.splits)
  consider "bufferSize w \<le> length (batch w)" | k ks where "batchChan w = k # ks" "length (batch w) < bufferSize w"
    | "batchChan w = []" "batch w \<noteq> []" "length (batch w) < bufferSize w" | "batchChan w = []" "batch w = []"
    by (cases "batchChan w"; cases "batch w") force+
  then show ?case
  proof cases
    case 1
    then have "batch w \<noteq> []" using less.prems(3) by auto
    then show ?thesis using 1 run F fl less.prems(2) by (intro go [of "FlushFull FlushOk" "flush FlushOk w"]) (auto simp: flush_full_def)
  next
    case 2
    then show ?thesis using run less.prems(2)
      by (intro go [of Recv "w\<lparr>batchChan := ks, batch := batch w @ [k]\<rparr>"]) (auto simp: recv_def)
  next
    case 3
    then show ?thesis using run F fl less.prems(2) by (intro go [of "Tick FlushOk" "flush FlushOk w"]) (auto simp: tick_def)
  next
    case 4
    then show ?thesis by (intro exI [of _ "[]"] exI [of _ w]) simp
  qed
qed

text \<open>C28. While the log is open nobody waits for ever: from every reachable state, with a working disk, the
  writer alone answers all calls whose request was accepted, without an error, in at most two steps
  per queued request and one for the batch.\<close>

theorem open_log_answers:
  assumes "writer_run ss (new_writer n) = Some w" and "ws_phase w = Open" and "0 < bufferSize w"
  shows "\<exists>ts w'. length ts \<le> 2 * length (batchChan w) + 1 \<and> set ts \<subseteq> {Recv, FlushFull FlushOk, Tick FlushOk} \<and>
    writer_run ts w = Some w' \<and>
    (\<forall>k < length (ws_calls w). is_waiting (ws_calls w ! k) \<longrightarrow> ws_calls w' ! k = Returned (call_event (ws_calls w ! k)) None)"
proof -
  have inv: "writer_inv w" by (rule writer_run_inv [OF new_writer_inv assms(1)])
  obtain ts w' where t: "set ts \<subseteq> {Recv, FlushFull FlushOk, Tick FlushOk}" "writer_run ts w = Some w'"
    "length ts \<le> 2 * length (batchChan w) + (if batch w = [] then 0 else 1)"
    "batchChan w' = []" "batch w' = []" "served (ws_calls w) (ws_calls w')"
    using writer_drains [OF inv assms(2,3)] by blast
  have "writer_inv w'" by (rule writer_run_inv [OF inv t(2)])
  then have none: "\<not> is_waiting (ws_calls w' ! k)" if "k < length (ws_calls w')" for k
    using t(4,5) that by (auto simp: writer_inv_def requests_ok_def)
  have "ws_calls w' ! k = Returned (call_event (ws_calls w ! k)) None" if "k < length (ws_calls w)" "is_waiting (ws_calls w ! k)" for k
    using none [of k] t(6) that by (auto simp: served_def)
  moreover have "length ts \<le> 2 * length (batchChan w) + 1" using t(3) by (auto split: if_splits)
  ultimately show ?thesis using t(1,2) by blast
qed

lemma open_log_answers_witness:
  "\<exists>w ts w'. writer_run (butlast two_appends) (new_writer 4) = Some w \<and> writer_run ts w = Some w' \<and>
     is_waiting (ws_calls w ! 0) \<and> \<not> is_waiting (ws_calls w' ! 0)"
proof -
  obtain w where w: "writer_run (butlast two_appends) (new_writer 4) = Some w" "ws_phase w = Open" "0 < bufferSize w"
    "0 < length (ws_calls w)" "is_waiting (ws_calls w ! 0)" by (simp add: two_appends_def writer_defs)
  obtain ts w' where "writer_run ts w = Some w'" "ws_calls w' ! 0 = Returned (call_event (ws_calls w ! 0)) None"
    using open_log_answers [OF w(1-3)] w(4,5) by blast
  then show ?thesis using w by (intro exI [of _ w] exI [of _ ts] exI [of _ w']) simp
qed

section \<open>A closed log does not\<close>

lemma shut_step:
  assumes "writer_inv w" and "ws_phase w = Shut" and "writer_step s w = Some w'"
  shows "ws_phase w' = Shut \<and> (\<forall>k < length (ws_calls w). is_waiting (ws_calls w ! k) \<longrightarrow>
    k < length (ws_calls w') \<and> ws_calls w' ! k = ws_calls w ! k)"
proof -
  have "\<not> ws_running w" using assms(1,2) by (auto dest: writer_inv_phase simp: phase_ok_def)
  then show ?thesis using assms(2,3)
    by (cases s) (auto simp: writer_defs nth_append nth_list_update is_waiting_def split: if_splits call.splits list.splits)
qed

lemma shut_run:
  "writer_inv w \<Longrightarrow> ws_phase w = Shut \<Longrightarrow> writer_run ss w = Some w' \<Longrightarrow> k < length (ws_calls w) \<Longrightarrow>
    is_waiting (ws_calls w ! k) \<Longrightarrow> ws_calls w' ! k = ws_calls w ! k"
proof (induction ss arbitrary: w)
  case Nil
  then show ?case by simp
next
  case (Cons s ss)
  obtain w1 where w1: "writer_step s w = Some w1" "writer_run ss w1 = Some w'" using Cons.prems(3) by (auto split: option.splits)
  have "ws_phase w1 = Shut" "k < length (ws_calls w1)" "ws_calls w1 ! k = ws_calls w ! k"
    using shut_step [OF Cons.prems(1,2) w1(1)] Cons.prems(4,5) by blast+
  then show ?case using Cons.IH [OF writer_step_inv [OF Cons.prems(1) w1(1)] _ w1(2)] Cons.prems(5) by simp
qed

text \<open>C29. A call can hang for ever. Once the log is shut, by \<open>Close\<close> or by a failed rotation, every call
  whose request is still in the channel waits in all futures: the writer that would answer has
  exited, having looked only at its batch, and the caller waits for nothing else.\<close>

theorem shut_log_never_answers:
  assumes "writer_run ss (new_writer n) = Some w" and "ws_phase w = Shut" and "k \<in> set (batchChan w)"
    and "writer_run ts w = Some w'"
  shows "is_waiting (ws_calls w' ! k)"
proof -
  have inv: "writer_inv w" by (rule writer_run_inv [OF new_writer_inv assms(1)])
  then have k: "k < length (ws_calls w)" "is_waiting (ws_calls w ! k)"
    using assms(3) by (auto simp: writer_inv_def requests_ok_def)
  then show ?thesis using shut_run [OF inv assms(2,4) k] by simp
qed

text \<open>An append that starts after \<open>Close\<close> has returned, and whose \<open>select\<close> takes the first case.\<close>

definition late_append :: "wstep list" where
  "late_append = [BeginClose, Exit FlushOk, EndClose, Draw 0 EventAck (some_job ''a''), Select 0, Send 0]"

lemma shut_log_never_answers_witness:
  "\<exists>w. writer_run late_append (new_writer 4) = Some w \<and> (\<forall>ts w'. writer_run ts w = Some w' \<longrightarrow> is_waiting (ws_calls w' ! 0))"
proof -
  obtain w where w: "writer_run late_append (new_writer 4) = Some w" "ws_phase w = Shut" "0 \<in> set (batchChan w)"
    by (simp add: late_append_def writer_defs)
  then show ?thesis using shut_log_never_answers [OF w] by blast
qed

section \<open>Numbers\<close>

text \<open>A request left in the channel by a rotation reaches the new file with its old number.\<close>

definition rotated_append :: "wstep list" where
  "rotated_append = [Draw 0 EventEnqueue (some_job ''a''), Select 0, Send 0] @ rotate_at 7 @
     [Draw 0 EventEnqueue (some_job ''b''), Select 1, Send 1, Recv, Recv, Tick FlushOk]"

text \<open>The numbers in a log file are neither in order nor unique: two concurrent appends reach the file in
  the order of their sends, not of their numbers, and a request that waited during a rotation keeps
  a number the new file uses again.\<close>

theorem file_numbers_unordered:
  "\<exists>v w. writer_run two_appends (new_writer 4) = Some v \<and> map Seq (records (ws_file v)) = [2, 1] \<and>
     writer_run rotated_append (new_writer 4) = Some w \<and> map Seq (records (ws_file w)) = [1, 1]"
  by (simp add: two_appends_def rotated_append_def rotate_at_def writer_defs)

section \<open>A caller that is alone\<close>

definition log_of :: "(int \<rightharpoonup> wal_line list) \<Rightarrow> int \<Rightarrow> Writer \<Rightarrow> WAL" where
  "log_of archive interval w =
     \<lparr>w_file = Some (ws_file w), w_archive = archive, w_seq = ws_seq w, w_isClosed = ws_phase w \<noteq> Open,
      w_bufferSize = int (bufferSize w), w_flushInterval = interval\<rparr>"

text \<open>The steps of one append when nobody else is there: the batch is flushed when full or at the tick.\<close>

definition lone_append :: "flush_io \<Rightarrow> int \<Rightarrow> EventType \<Rightarrow> Job \<Rightarrow> Writer \<Rightarrow> wstep list" where
  "lone_append out now t j w = [Draw now t j, Select (length (ws_calls w)), Send (length (ws_calls w)), Recv,
     if bufferSize w = 1 then FlushFull out else Tick out]"

text \<open>An append that meets an open log with nothing under way is the \<open>Append\<close> of the sequential model:
  same answer, same file, same counter, for every outcome of the disk.\<close>

theorem lone_append_is_Append:
  assumes "ws_phase w = Open" and "ws_running w" and "batchChan w = []" and "batch w = []" and "0 < bufferSize w"
    and "Append out now t j (log_of a i w) = (err, l)"
  shows "\<exists>w'. writer_run (lone_append out now t j w) w = Some w' \<and> log_of a i w' = l \<and>
    ws_calls w' = ws_calls w @ [Returned (new_event now t j (ws_seq w + 1)) err] \<and> batchChan w' = [] \<and> batch w' = []"
  using assms
  by (auto simp: lone_append_def writer_defs Append_def log_of_def Let_def nth_append list_update_append split: prod.splits)

lemma lone_append_is_Append_witness:
  "\<exists>w'. writer_run (lone_append SyncFails 5 EventAck (some_job ''a'') (new_writer 4)) (new_writer 4) = Some w' \<and>
     ws_calls w' = [Returned (new_event 5 EventAck (some_job ''a'') 1) (Some ErrSync)]"
proof -
  let ?w = "new_writer 4"
  obtain l where l: "Append SyncFails 5 EventAck (some_job ''a'') (log_of Map.empty 10 ?w) = (Some ErrSync, l)"
    by (simp add: Append_def log_of_def new_writer_def flushBatch_def)
  have h: "ws_phase ?w = Open" "ws_running ?w" "batchChan ?w = []" "batch ?w = []" "0 < bufferSize ?w"
    by (simp_all add: new_writer_def)
  from lone_append_is_Append [OF h l] show ?thesis by (auto simp: new_writer_def)
qed

end
