(* ===== verification/Server.thy ===== *)
theory Server
  imports Controller Raft
begin

text \<open>
  The gRPC front of \<open>internal/server/server.go\<close> and its client \<open>internal/worker/grpc_source.go\<close>:
  the messages of \<open>service.proto\<close> as records, one function per handler, and the conversions the
  client makes. Times are milliseconds; a handler takes one reading of the clock.
\<close>

section \<open>Messages\<close>

text \<open>An enum of proto3 is an open 32-bit integer: \<open>PbOther\<close> are the values without a name.\<close>

datatype pb_status = PbUnspecified | PbPending | PbInFlight | PbCompleted | PbDead | PbOther int

definition mapStatusToPb :: "JobStatus \<Rightarrow> pb_status" where
  "mapStatusToPb s =
     (case s of
        StatusPending \<Rightarrow> PbPending
      | StatusInFlight \<Rightarrow> PbInFlight
      | StatusCompleted \<Rightarrow> PbCompleted
      | StatusDead \<Rightarrow> PbDead
      | StatusOther x \<Rightarrow> PbUnspecified)"

definition mapPbStatusToType :: "pb_status \<Rightarrow> JobStatus" where
  "mapPbStatusToType s =
     (case s of
        PbPending \<Rightarrow> StatusPending
      | PbInFlight \<Rightarrow> StatusInFlight
      | PbCompleted \<Rightarrow> StatusCompleted
      | PbDead \<Rightarrow> StatusDead
      | _ \<Rightarrow> StatusPending)"

text \<open>
  The payload's bytes, up to what \<open>json.Unmarshal\<close> into a map makes of them: nothing, \<open>null\<close>, an
  object, or anything else, which is an error. Marshalling a map gives an object whose numbers
  come back as floats.
\<close>

datatype bytes = NoBytes | JsonNull | JsonObject payload | JsonBad

definition json_payload :: "payload \<Rightarrow> payload" where
  "json_payload p = map_option json_val \<circ> p"

definition unmarshal :: "bytes \<Rightarrow> payload option" where
  "unmarshal b =
     (case b of
        NoBytes \<Rightarrow> Some Map.empty
      | JsonNull \<Rightarrow> Some Map.empty
      | JsonObject p \<Rightarrow> Some (json_payload p)
      | JsonBad \<Rightarrow> None)"

definition marshal :: "payload \<Rightarrow> bytes" where
  "marshal p = JsonObject (json_payload p)"

text \<open>The conversion \<open>int32(x)\<close>, and \<open>Duration.Milliseconds\<close>, which divides towards zero.\<close>

definition int32 :: "int \<Rightarrow> int" where
  "int32 z = (z + 2 ^ 31) mod 2 ^ 32 - 2 ^ 31"

definition Milliseconds :: "int \<Rightarrow> int" where
  "Milliseconds d = (if d < 0 then - (- d div 1000000) else d div 1000000)"

record PbJob =
  pbId :: string
  pbPayload :: bytes
  pbStatus :: pb_status
  pbAttempt :: int
  pbTimeoutMs :: int
  pbDeadlineMs :: int
  pbCreatedAt :: int
  pbUpdatedAt :: int
  pbWorkerId :: string

section \<open>The server\<close>

record WorkerInfo =
  NodeID :: string
  Address :: string
  Capacity :: int
  Tags :: "string list"
  LastSeen :: int
  ExpiryTime :: int

record Server =
  controller :: Controller
  raftNode :: "Raft option"
  registry :: "string \<rightharpoonup> WorkerInfo"

definition NewServer :: "Controller \<Rightarrow> Raft option \<Rightarrow> Server" where
  "NewServer ctrl rf = \<lparr>controller = ctrl, raftNode = rf, registry = Map.empty\<rparr>"

section \<open>Raft calls\<close>

text \<open>Without a node the call fails; otherwise the arguments and the reply are copied field by field.\<close>

definition srv_RequestVote :: "RequestVoteArgs \<Rightarrow> Server \<Rightarrow> RequestVoteReply res \<times> Server" where
  "srv_RequestVote req s =
     (case raftNode s of
        None \<Rightarrow> (Inl ErrRaftNotInitialized, s)
      | Some rf \<Rightarrow> (case RequestVote req rf of (reply, rf') \<Rightarrow> (Inr reply, s\<lparr>raftNode := Some rf'\<rparr>)))"

definition srv_AppendEntries :: "AppendEntriesArgs \<Rightarrow> Server \<Rightarrow> (AppendEntriesReply res \<times> Server) option" where
  "srv_AppendEntries req s =
     (case raftNode s of
        None \<Rightarrow> Some (Inl ErrRaftNotInitialized, s)
      | Some rf \<Rightarrow>
          (case AppendEntries req rf of
             None \<Rightarrow> None
           | Some (reply, rf') \<Rightarrow> Some (Inr reply, s\<lparr>raftNode := Some rf'\<rparr>)))"

section \<open>Submitting\<close>

fun digits :: "nat \<Rightarrow> string" where
  "digits n = (if n < 10 then [char_of (48 + n)] else digits (n div 10) @ [char_of (48 + n mod 10)])"

declare digits.simps [simp del]

definition fresh_id :: "int \<Rightarrow> string" where
  "fresh_id nanos = ''job-'' @ (if nanos < 0 then ''-'' @ digits (nat (- nanos)) else digits (nat nanos))"

record SubmitJobRequest =
  reqJobId :: string
  reqPayload :: bytes
  reqTimeoutMs :: int

datatype submit_error = InvalidPayload | NotLeader | EnqueueFailed gerror

definition submitted_job :: "int \<Rightarrow> int \<Rightarrow> payload \<Rightarrow> SubmitJobRequest \<Rightarrow> Job" where
  "submitted_job now nanos p req =
     \<lparr>ID = (if reqJobId req = [] then fresh_id nanos else reqJobId req), Payload = p, Status = StatusPending, Attempt = 0,
      Timeout = wrap64 (reqTimeoutMs req * 1000000), Deadline = None, CreatedAt = now, UpdatedAt = now, WorkerID = []\<rparr>"

text \<open>\<open>enc\<close> is the JSON encoding of a command; it does not fail on a payload that came from JSON.\<close>

definition SubmitJob ::
  "(raft_command \<Rightarrow> command) \<Rightarrow> (nat \<Rightarrow> flush_io) \<Rightarrow> int \<Rightarrow> int \<Rightarrow> SubmitJobRequest \<Rightarrow> Server \<Rightarrow>
     ((submit_error + JobID) \<times> Server) option" where
  "SubmitJob enc io now nanos req s =
     (case unmarshal (reqPayload req) of
        None \<Rightarrow> Some (Inl InvalidPayload, s)
      | Some p \<Rightarrow>
          let job = submitted_job now nanos p req
          in case raftNode s of
               Some rf \<Rightarrow>
                 (case Propose (enc (CmdEnqueue [job])) rf of
                    None \<Rightarrow> None
                  | Some ((_, _, isLeader), rf') \<Rightarrow>
                      Some (if isLeader then Inr (ID job) else Inl NotLeader, s\<lparr>raftNode := Some rf'\<rparr>))
             | None \<Rightarrow>
                 (case EnqueueJobs io now [job] (controller s) of
                    (Some err, c) \<Rightarrow> Some (Inl (EnqueueFailed err), s\<lparr>controller := c\<rparr>)
                  | (None, c) \<Rightarrow> Some (Inr (ID job), s\<lparr>controller := c\<rparr>)))"

section \<open>Workers\<close>

text \<open>A lease of ten seconds. Nothing reads \<open>ExpiryTime\<close>: no call is refused because a lease ran out.\<close>

definition RegisterWorker :: "int \<Rightarrow> string \<Rightarrow> string \<Rightarrow> int \<Rightarrow> string list \<Rightarrow> Server \<Rightarrow> (bool \<times> int) \<times> Server" where
  "RegisterWorker now nodeId address cap tags s =
     ((True, 10000),
      s\<lparr>registry := (registry s)(nodeId \<mapsto> \<lparr>NodeID = nodeId, Address = address, Capacity = cap, Tags = tags,
           LastSeen = now, ExpiryTime = now + 10000\<rparr>)\<rparr>)"

text \<open>The answer is acknowledged and re-register.\<close>

definition SendHeartbeat :: "int \<Rightarrow> string \<Rightarrow> int \<Rightarrow> Server \<Rightarrow> (bool \<times> bool) \<times> Server" where
  "SendHeartbeat now nodeId timestamp s =
     (case registry s nodeId of
        None \<Rightarrow> ((False, True), s)
      | Some info \<Rightarrow>
          ((True, False), s\<lparr>registry := (registry s)(nodeId \<mapsto> info\<lparr>LastSeen := timestamp, ExpiryTime := now + 10000\<rparr>)\<rparr>))"

section \<open>Polling and acknowledging\<close>

definition pb_job :: "string \<Rightarrow> Job \<Rightarrow> PbJob" where
  "pb_job workerId job =
     \<lparr>pbId = ID job, pbPayload = marshal (Payload job), pbStatus = mapStatusToPb (Status job), pbAttempt = int32 (Attempt job),
      pbTimeoutMs = Milliseconds (Timeout job), pbDeadlineMs = (case Deadline job of None \<Rightarrow> 0 | Some d \<Rightarrow> d),
      pbCreatedAt = CreatedAt job, pbUpdatedAt = UpdatedAt job, pbWorkerId = workerId\<rparr>"

text \<open>
  The jobs are read through the pointers \<open>Poll\<close> returned, in the state it left. \<^term>\<open>None\<close> is a panic:
  for a negative number the \<open>make\<close> in \<open>Poll\<close>, after its test of \<open>stopped\<close>, panics.
\<close>

definition PollJobs :: "(nat \<Rightarrow> flush_io) \<Rightarrow> int \<Rightarrow> string \<Rightarrow> int \<Rightarrow> Server \<Rightarrow> (PbJob list res \<times> Server) option" where
  "PollJobs io now workerId maxJobs s =
     (if maxJobs < 0 \<and> \<not> ctl_stopped (controller s) then None
      else case Poll io now (nat maxJobs) (controller s) of
             (Inl err, c) \<Rightarrow> Some (Inl err, s\<lparr>controller := c\<rparr>)
           | (Inr as, c) \<Rightarrow> Some (Inr (map (\<lambda>a. pb_job workerId (heap (mgr c) a)) as), s\<lparr>controller := c\<rparr>))"

definition AcknowledgeJob ::
  "(raft_command \<Rightarrow> command) \<Rightarrow> flush_io \<Rightarrow> int \<Rightarrow> JobID \<Rightarrow> pb_status \<Rightarrow> Server \<Rightarrow> (bool \<times> Server) option" where
  "AcknowledgeJob enc io now jobId pbstatus s =
     (let status = mapPbStatusToType pbstatus
      in case raftNode s of
           Some rf \<Rightarrow>
             (case Propose (enc (CmdAck jobId status)) rf of
                None \<Rightarrow> None
              | Some ((_, _, isLeader), rf') \<Rightarrow> Some (isLeader, s\<lparr>raftNode := Some rf'\<rparr>))
         | None \<Rightarrow>
             (case Acknowledge io now jobId status
                     (Some \<lparr>ResultID = jobId, Success = (status = StatusCompleted), Duration = 0\<rparr>) (controller s) of
                (err, c) \<Rightarrow> Some (err = None, s\<lparr>controller := c\<rparr>)))"

section \<open>Calls over the network\<close>

text \<open>
  A call may succeed, be lost before it arrives, or run on the server while the answer is lost or late
  (the clients give up after a time limit).
\<close>

datatype rpc = RpcOk | RpcLost | RpcNoReply

definition rpc_call :: "rpc \<Rightarrow> ('s \<Rightarrow> 'r \<times> 's) \<Rightarrow> 's \<Rightarrow> 'r option \<times> 's" where
  "rpc_call r f s =
     (case r of
        RpcOk \<Rightarrow> (case f s of (x, s') \<Rightarrow> (Some x, s'))
      | RpcLost \<Rightarrow> (None, s)
      | RpcNoReply \<Rightarrow> (case f s of (x, s') \<Rightarrow> (None, s')))"

text \<open>\<open>GrpcTransport\<close> (\<open>internal/raft/transport.go\<close>): the arguments and replies of Raft, copied field by field.\<close>

definition SendRequestVote :: "rpc \<Rightarrow> RequestVoteArgs \<Rightarrow> Server \<Rightarrow> RequestVoteReply res \<times> Server" where
  "SendRequestVote r args s =
     (case rpc_call r (srv_RequestVote args) s of
        (None, s') \<Rightarrow> (Inl ErrRpc, s')
      | (Some (Inl err), s') \<Rightarrow> (Inl err, s')
      | (Some (Inr resp), s') \<Rightarrow> (Inr \<lparr>rTerm = rTerm resp, rVoteGranted = rVoteGranted resp\<rparr>, s'))"

definition wire_entry :: "LogEntry \<Rightarrow> LogEntry" where
  "wire_entry e = \<lparr>Term = Term e, Index = Index e, Command = Command e\<rparr>"

definition wire_append :: "AppendEntriesArgs \<Rightarrow> AppendEntriesArgs" where
  "wire_append args =
     \<lparr>aTerm = aTerm args, aLeaderID = aLeaderID args, aPrevLogIndex = aPrevLogIndex args,
      aPrevLogTerm = aPrevLogTerm args, aEntries = map wire_entry (aEntries args), aLeaderCommit = aLeaderCommit args\<rparr>"

definition SendAppendEntries :: "rpc \<Rightarrow> AppendEntriesArgs \<Rightarrow> Server \<Rightarrow> (AppendEntriesReply res \<times> Server) option" where
  "SendAppendEntries r args s =
     (if r = RpcLost then Some (Inl ErrRpc, s)
      else case srv_AppendEntries (wire_append args) s of
             None \<Rightarrow> None
           | Some (resp, s') \<Rightarrow> Some (if r = RpcNoReply then Inl ErrRpc else resp, s'))"

section \<open>The client\<close>

text \<open>\<open>GrpcJobSource\<close>, with the call to the server in place of the stub.\<close>

record GrpcJobSource =
  workerID :: string
  workerAddr :: string

text \<open>The client has its own copies of the server's conversions.\<close>

definition client_mapStatusToPb :: "JobStatus \<Rightarrow> pb_status" where
  "client_mapStatusToPb s =
     (case s of
        StatusPending \<Rightarrow> PbPending
      | StatusInFlight \<Rightarrow> PbInFlight
      | StatusCompleted \<Rightarrow> PbCompleted
      | StatusDead \<Rightarrow> PbDead
      | StatusOther x \<Rightarrow> PbUnspecified)"

definition client_mapPbStatusToType :: "pb_status \<Rightarrow> JobStatus" where
  "client_mapPbStatusToType s =
     (case s of
        PbPending \<Rightarrow> StatusPending
      | PbInFlight \<Rightarrow> StatusInFlight
      | PbCompleted \<Rightarrow> StatusCompleted
      | PbDead \<Rightarrow> StatusDead
      | _ \<Rightarrow> StatusPending)"

lemma client_conversions [simp]: "client_mapStatusToPb = mapStatusToPb" "client_mapPbStatusToType = mapPbStatusToType"
  by (auto simp: fun_eq_iff client_mapStatusToPb_def mapStatusToPb_def client_mapPbStatusToType_def mapPbStatusToType_def
      split: JobStatus.splits pb_status.splits)

definition job_of_pb :: "PbJob \<Rightarrow> Job" where
  "job_of_pb pb =
     \<lparr>ID = pbId pb, Payload = (case unmarshal (pbPayload pb) of None \<Rightarrow> Map.empty | Some p \<Rightarrow> p),
      Status = client_mapPbStatusToType (pbStatus pb), Attempt = pbAttempt pb, Timeout = wrap64 (pbTimeoutMs pb * 1000000),
      Deadline = (if 0 < pbDeadlineMs pb then Some (pbDeadlineMs pb) else None),
      CreatedAt = pbCreatedAt pb, UpdatedAt = pbUpdatedAt pb, WorkerID = pbWorkerId pb\<rparr>"

definition grpc_Poll :: "GrpcJobSource \<Rightarrow> rpc \<Rightarrow> (nat \<Rightarrow> flush_io) \<Rightarrow> int \<Rightarrow> int \<Rightarrow> Server \<Rightarrow> (Job list res \<times> Server) option" where
  "grpc_Poll src r io now maxJobs s =
     (if r = RpcLost then Some (Inl ErrRpc, s)
      else case PollJobs io now (workerID src) (int32 maxJobs) s of
             None \<Rightarrow> None
           | Some (resp, s') \<Rightarrow>
               Some (if r = RpcNoReply then Inl ErrRpc
                     else case resp of Inl err \<Rightarrow> Inl err | Inr pbs \<Rightarrow> Inr (map job_of_pb pbs), s'))"

definition grpc_Acknowledge ::
  "rpc \<Rightarrow> (raft_command \<Rightarrow> command) \<Rightarrow> flush_io \<Rightarrow> int \<Rightarrow> JobID \<Rightarrow> JobStatus \<Rightarrow> Server \<Rightarrow> (gerror option \<times> Server) option" where
  "grpc_Acknowledge r enc io now jobID status s =
     (if r = RpcLost then Some (Some ErrRpc, s)
      else case AcknowledgeJob enc io now jobID (client_mapStatusToPb status) s of
             None \<Rightarrow> None
           | Some (success, s') \<Rightarrow>
               Some (if r = RpcNoReply then Some ErrRpc else if success then None else Some ErrAckRejected, s'))"

definition register :: "GrpcJobSource \<Rightarrow> rpc \<Rightarrow> int \<Rightarrow> Server \<Rightarrow> gerror option \<times> Server" where
  "register src r now s =
     (case rpc_call r (RegisterWorker now (workerID src) (workerAddr src) 10 [''default'']) s of
        (None, s') \<Rightarrow> (Some ErrRpc, s')
      | (Some (success, lease), s') \<Rightarrow> (if success then None else Some ErrAckRejected, s'))"

definition grpc_Heartbeat :: "GrpcJobSource \<Rightarrow> rpc \<Rightarrow> rpc \<Rightarrow> int \<Rightarrow> string \<Rightarrow> Server \<Rightarrow> gerror option \<times> Server" where
  "grpc_Heartbeat src r r' now nodeID s =
     (case rpc_call r (SendHeartbeat now nodeID now) s of
        (None, s') \<Rightarrow> (Some ErrRpc, s')
      | (Some (acknowledged, reRegister), s') \<Rightarrow> if reRegister then register src r' now s' else (None, s'))"

end
