(* ===== verification/ServerProps.thy ===== *)
theory ServerProps
  imports Server CrashProps RaftLog
begin

text \<open>
  The distributed mode end to end: what survives the wire, the life of a job submitted, polled and
  acknowledged over gRPC, how a failure's meaning depends on the mode, and registration.
\<close>

section \<open>The wire\<close>

lemma int32_id: "- (2 ^ 31) \<le> z \<Longrightarrow> z < 2 ^ 31 \<Longrightarrow> int32 z = z"
  by (simp add: int32_def)

lemma wrap64_id: "- (2 ^ 63) \<le> z \<Longrightarrow> z < 2 ^ 63 \<Longrightarrow> wrap64 z = z"
  by (simp add: wrap64_def)

definition named_status :: "JobStatus \<Rightarrow> bool" where
  "named_status s \<longleftrightarrow> s \<in> {StatusPending, StatusInFlight, StatusCompleted, StatusDead}"

lemma status_wire: "mapPbStatusToType (mapStatusToPb s) = (if named_status s then s else StatusPending)"
  by (cases s) (simp_all add: mapPbStatusToType_def mapStatusToPb_def named_status_def)

lemma payload_wire: "unmarshal (marshal p) = Some (json_payload p)"
  by (simp add: unmarshal_def marshal_def json_payload_def fun_eq_iff option.map_comp comp_def json_val_idem)

text \<open>A job polled over gRPC is the job the master has, with the worker's name in it: for a status with a
  name, an attempt counter of 32 bits, a timeout of whole milliseconds and a positive deadline, nothing
  is lost but the dynamic type of the payload's numbers.\<close>

theorem job_wire_roundtrip:
  assumes "named_status (Status j)" and "- (2 ^ 31) \<le> Attempt j" and "Attempt j < 2 ^ 31"
    and "Timeout j = 1000000 * ms" and "0 \<le> Timeout j" and "Timeout j < 2 ^ 63"
    and "\<And>d. Deadline j = Some d \<Longrightarrow> 0 < d"
  shows "job_of_pb (pb_job w j) = (json_job j)\<lparr>WorkerID := w\<rparr>"
proof -
  have "wrap64 (Milliseconds (Timeout j) * 1000000) = Timeout j"
    using assms(4-6) by (simp add: Milliseconds_def wrap64_id)
  then show ?thesis
    using assms(1-3,7) by (cases "Deadline j")
      (simp_all add: job_of_pb_def pb_job_def payload_wire status_wire int32_id json_job_def json_payload_def)
qed

lemma job_wire_roundtrip_witness:
  "job_of_pb (pb_job ''w'' (zero_job\<lparr>ID := ''a'', Status := StatusInFlight, Timeout := 2000000, Deadline := Some 9\<rparr>)) =
     (json_job (zero_job\<lparr>ID := ''a'', Status := StatusInFlight, Timeout := 2000000, Deadline := Some 9\<rparr>))\<lparr>WorkerID := ''w''\<rparr>"
  by (rule job_wire_roundtrip [of _ 2]) (simp_all add: named_status_def zero_job_def)

section \<open>A job's life over gRPC\<close>

lemma GetJob_iff: "GetJob i jm = jobs jm i"
  by (simp add: GetJob_def)

lemma Enqueue_heap: "Enqueue now j jm = Inr jm' \<Longrightarrow> heap jm' (nxt jm) = j\<lparr>Status := StatusPending, CreatedAt := now, UpdatedAt := now\<rparr>"
  by (auto simp: Enqueue_def Let_def split: if_splits option.splits)

lemma MarkInFlight_heap: "MarkInFlight now i d jm = Inr jm' \<Longrightarrow> jobs jm i = Some a \<Longrightarrow>
    heap jm' a = (heap jm a)\<lparr>Status := StatusInFlight, Deadline := Some d, UpdatedAt := now\<rparr>"
  by (auto simp: MarkInFlight_def split: if_splits)

lemma submit_standalone:
  assumes "raftNode s = None" and "jm_ok (mgr (controller s))" and "wal_live (wal (controller s))"
    and "unmarshal (reqPayload req) = Some p" and "jobs (mgr (controller s)) (ID (submitted_job now nanos p req)) = None"
  defines "j \<equiv> submitted_job now nanos p req"
  shows "\<exists>c. SubmitJob enc (\<lambda>_. FlushOk) now nanos req s = Some (Inr (ID j), s\<lparr>controller := c\<rparr>) \<and>
    jm_ok (mgr c) \<and> wal_live (wal c) \<and> config c = config (controller s) \<and> ctl_stopped c = ctl_stopped (controller s) \<and>
    queue (mgr c) = queue (mgr (controller s)) @ [ID j] \<and> job_view (mgr c) (ID j) = Some j \<and>
    job_status (mgr c) = (job_status (mgr (controller s)))(ID j \<mapsto> StatusPending)"
proof -
  obtain w where w: "Append FlushOk now EventEnqueue j (wal (controller s)) = (None, w)" "wal_live w"
    using Append_live [OF assms(3)] by blast
  obtain jm where jm: "Enqueue now j (mgr (controller s)) = Inr jm" "jm_ok jm" "queue jm = queue (mgr (controller s)) @ [ID j]"
    "jobs jm = (jobs (mgr (controller s)))(ID j \<mapsto> nxt (mgr (controller s)))"
    "job_status jm = (job_status (mgr (controller s)))(ID j \<mapsto> StatusPending)"
    using Enqueue_new_ok [OF assms(5) [folded j_def] assms(2)] by blast
  have "heap jm (nxt (mgr (controller s))) = j"
    using Enqueue_heap [OF jm(1)] by (simp add: j_def submitted_job_def)
  then show ?thesis
    using assms(1,4) w jm unfolding j_def
    by (intro exI [of _ "(controller s)\<lparr>wal := w, mgr := jm\<rparr>"]) (simp add: SubmitJob_def EnqueueJobs_def Let_def job_view_def)
qed

lemma poll_one:
  assumes "raftNode s = None" and "jm_ok (mgr (controller s))" and "wal_live (wal (controller s))"
    and "\<not> ctl_stopped (controller s)" and "queue (mgr (controller s)) = [i]" and "job_view (mgr (controller s)) i = Some j"
    and "0 < n" and "n < 2 ^ 31"
  shows "\<exists>c. grpc_Poll src RpcOk (\<lambda>_. FlushOk) now n s = Some (Inr [job_of_pb (pb_job (workerID src)
      (j\<lparr>Status := StatusInFlight, Deadline := Some (now + TaskTimeout (config (controller s))), UpdatedAt := now\<rparr>))], s\<lparr>controller := c\<rparr>) \<and>
    jm_ok (mgr c) \<and> wal_live (wal c) \<and> job_status (mgr c) i = Some StatusInFlight"
proof -
  let ?jm = "mgr (controller s)" and ?d = "now + TaskTimeout (config (controller s))"
  obtain a where a: "jobs ?jm i = Some a" "heap ?jm a = j" using assms(6) by (auto simp: job_view_def)
  have pend: "job_status ?jm i = Some StatusPending" using assms(2,5) by (simp add: jm_ok_def clean_queue_def)
  have id: "ID j = i" using named_ID [OF jm_ok_D(2) [OF assms(2)] a(1)] a(2) by simp
  obtain k where k: "nat n = Suc k" using assms(7) by (metis Suc_pred zero_less_nat_eq)
  have "set (queue ?jm) \<subseteq> dom (jobs ?jm)" using a(1) assms(5) by auto
  from pop_batch_char [OF this, of "nat n"] have pop: "pop_batch (nat n) ?jm = ([a], ?jm\<lparr>queue := []\<rparr>)"
    using a(1) assms(5) k by simp
  have ok: "jm_ok (?jm\<lparr>queue := []\<rparr>)" using pop_batch_ok(1) [OF assms(2), of 1] assms(5) by simp
  have st: "job_status (?jm\<lparr>queue := []\<rparr>) i = Some StatusPending" using pop_batch_ok(2) [OF assms(2)] pend by simp
  obtain jm where jm: "MarkInFlight now i ?d (?jm\<lparr>queue := []\<rparr>) = Inr jm" "jm_ok jm"
    "job_status jm = (job_status (?jm\<lparr>queue := []\<rparr>))(i \<mapsto> StatusInFlight)"
    using in_flight_step [OF ok st, of now ?d] by auto
  have h: "heap jm a = j\<lparr>Status := StatusInFlight, Deadline := Some ?d, UpdatedAt := now\<rparr>"
    using MarkInFlight_heap [OF jm(1)] a by simp
  obtain w where w: "Append FlushOk now EventDispatch j (wal (controller s)) = (None, w)" "wal_live w"
    using Append_live [OF assms(3)] by blast
  have "Poll (\<lambda>_. FlushOk) now (nat n) (controller s) = (Inr [a], (controller s)\<lparr>mgr := jm, wal := w\<rparr>)"
    using pop assms(4) a(2) id w(1) jm(1) by (simp add: Poll_def Let_def logged_def)
  moreover have "int32 n = n" using assms(7,8) by (simp add: int32_id)
  ultimately show ?thesis using h jm w(2)
    by (intro exI [of _ "(controller s)\<lparr>mgr := jm, wal := w\<rparr>"]) (use assms(7) in \<open>simp add: grpc_Poll_def PollJobs_def\<close>)
qed

lemma acknowledge_standalone:
  assumes "raftNode s = None" and "jm_ok (mgr (controller s))" and "wal_live (wal (controller s))"
    and "job_status (mgr (controller s)) i = Some StatusInFlight"
  shows "\<exists>c. grpc_Acknowledge RpcOk enc FlushOk now i StatusCompleted s = Some (None, s\<lparr>controller := c\<rparr>) \<and>
    job_status (mgr c) i = Some StatusCompleted"
proof -
  obtain a where a: "jobs (mgr (controller s)) i = Some a" using assms(4) by (auto simp: job_status_iff)
  obtain jm where jm: "MarkCompleted now i (mgr (controller s)) = Inr jm"
    "job_status jm = (job_status (mgr (controller s)))(i \<mapsto> StatusCompleted)" using completed_step [OF assms(2,4)] by blast
  obtain w where "Append FlushOk now EventAck (heap (mgr (controller s)) a) (wal (controller s)) = (None, w)"
    using Append_live [OF assms(3)] by blast
  then have "handleResult FlushOk now \<lparr>ResultID = i, Success = True, Duration = 0\<rparr> (controller s) = (controller s)\<lparr>wal := w, mgr := jm\<rparr>"
    using a jm(1) by (simp add: handleResult_def GetJob_iff Let_def logged_def)
  then show ?thesis using assms(1) jm(2)
    by (intro exI [of _ "(controller s)\<lparr>wal := w, mgr := jm\<rparr>"])
      (simp add: grpc_Acknowledge_def AcknowledgeJob_def Acknowledge_def mapPbStatusToType_def mapStatusToPb_def Let_def)
qed

text \<open>C26. The life of a job in standalone mode. On a running server with a working log, a well-formed job
  manager and an empty queue, a submitted job is accepted if its ID is new and not empty and its payload decodes, the next poll of any worker gets exactly this job with its payload and its timeout
  (less than 2^43 ms), and the worker's acknowledgement completes it.\<close>

theorem grpc_job_lifecycle:
  assumes "raftNode s = None" and "jm_ok (mgr (controller s))" and "wal_live (wal (controller s))"
    and "\<not> ctl_stopped (controller s)" and "queue (mgr (controller s)) = []"
    and "unmarshal (reqPayload req) = Some p" and "i = reqJobId req" and "i \<noteq> []" and "jobs (mgr (controller s)) i = None"
    and "0 < n" and "n < 2 ^ 31" and "0 \<le> reqTimeoutMs req" and "reqTimeoutMs req < 2 ^ 43"
  shows "\<exists>s1 s2 s3 j. SubmitJob enc (\<lambda>_. FlushOk) t1 nanos req s = Some (Inr i, s1) \<and>
    grpc_Poll src RpcOk (\<lambda>_. FlushOk) t2 n s1 = Some (Inr [j], s2) \<and> ID j = i \<and> Status j = StatusInFlight \<and> Payload j = json_payload p \<and>
    Timeout j = reqTimeoutMs req * 1000000 \<and> WorkerID j = workerID src \<and>
    grpc_Acknowledge RpcOk enc FlushOk t3 i StatusCompleted s2 = Some (None, s3) \<and>
    job_status (mgr (controller s3)) i = Some StatusCompleted"
proof -
  let ?j = "submitted_job t1 nanos p req"
  have id: "ID ?j = i" using assms(7,8) by (simp add: submitted_job_def)
  obtain c1 where c1: "SubmitJob enc (\<lambda>_. FlushOk) t1 nanos req s = Some (Inr i, s\<lparr>controller := c1\<rparr>)" "jm_ok (mgr c1)"
    "wal_live (wal c1)" "ctl_stopped c1 = ctl_stopped (controller s)" "queue (mgr c1) = [i]" "job_view (mgr c1) i = Some ?j"
    using submit_standalone [OF assms(1-3,6), of t1 nanos enc] assms(5,9) by (auto simp: id)
  let ?s1 = "s\<lparr>controller := c1\<rparr>"
  let ?k = "?j\<lparr>Status := StatusInFlight, Deadline := Some (t2 + TaskTimeout (config c1)), UpdatedAt := t2\<rparr>"
  obtain c2 where c2: "grpc_Poll src RpcOk (\<lambda>_. FlushOk) t2 n ?s1 = Some (Inr [job_of_pb (pb_job (workerID src) ?k)], ?s1\<lparr>controller := c2\<rparr>)"
    "jm_ok (mgr c2)" "wal_live (wal c2)" "job_status (mgr c2) i = Some StatusInFlight"
    using poll_one [of ?s1 i ?j n src t2] c1 assms(1,4,10,11) by auto
  let ?s2 = "?s1\<lparr>controller := c2\<rparr>"
  obtain c3 where c3: "grpc_Acknowledge RpcOk enc FlushOk t3 i StatusCompleted ?s2 = Some (None, ?s2\<lparr>controller := c3\<rparr>)"
    "job_status (mgr c3) i = Some StatusCompleted"
    using acknowledge_standalone [of ?s2 i enc t3] c2 assms(1) by auto
  have "wrap64 (Milliseconds (Timeout ?k) * 1000000) = reqTimeoutMs req * 1000000"
    using assms(12,13) by (simp add: submitted_job_def Milliseconds_def wrap64_id)
  then have "ID (job_of_pb (pb_job (workerID src) ?k)) = i" "Status (job_of_pb (pb_job (workerID src) ?k)) = StatusInFlight"
    "Payload (job_of_pb (pb_job (workerID src) ?k)) = json_payload p"
    "Timeout (job_of_pb (pb_job (workerID src) ?k)) = reqTimeoutMs req * 1000000"
    "WorkerID (job_of_pb (pb_job (workerID src) ?k)) = workerID src"
    using id by (simp_all add: job_of_pb_def pb_job_def payload_wire mapPbStatusToType_def mapStatusToPb_def)
      (simp_all add: submitted_job_def)
  then show ?thesis using c1(1) c2(1) c3 by (intro exI conjI) (auto)
qed

definition sample_request :: SubmitJobRequest where
  "sample_request = \<lparr>reqJobId = ''a'', reqPayload = NoBytes, reqTimeoutMs = 5\<rparr>"

lemma grpc_job_lifecycle_witness:
  "\<exists>s s1 s2 s3 j. SubmitJob (\<lambda>_. []) (\<lambda>_. FlushOk) 1 2 sample_request s = Some (Inr ''a'', s1) \<and>
     grpc_Poll \<lparr>workerID = ''w'', workerAddr = ''x''\<rparr> RpcOk (\<lambda>_. FlushOk) 3 10 s1 = Some (Inr [j], s2) \<and> Timeout j = 5000000 \<and>
     grpc_Acknowledge RpcOk (\<lambda>_. []) FlushOk 4 ''a'' StatusCompleted s2 = Some (None, s3)"
proof -
  obtain b :: Controller where b: "mgr b = NewJobManager" "wal_live (wal b)" "\<not> ctl_stopped b" using sample_boot by blast
  let ?s = "NewServer b None"
  have h: "raftNode ?s = None" "jm_ok (mgr (controller ?s))" "wal_live (wal (controller ?s))" "\<not> ctl_stopped (controller ?s)"
    "queue (mgr (controller ?s)) = []" "unmarshal (reqPayload sample_request) = Some Map.empty" "''a'' = reqJobId sample_request"
    "''a'' \<noteq> []" "jobs (mgr (controller ?s)) ''a'' = None" "(0::int) < 10" "(10::int) < 2 ^ 31" "0 \<le> reqTimeoutMs sample_request"
    "reqTimeoutMs sample_request < 2 ^ 43"
    using b NewJobManager_ok by (simp_all add: NewServer_def NewJobManager_def sample_request_def unmarshal_def)
  from grpc_job_lifecycle [OF h, of "\<lambda>_. []" 1 2 "\<lparr>workerID = ''w'', workerAddr = ''x''\<rparr>" 3 4]
  obtain s1 s2 s3 j where "SubmitJob (\<lambda>_. []) (\<lambda>_. FlushOk) 1 2 sample_request ?s = Some (Inr ''a'', s1)"
    "grpc_Poll \<lparr>workerID = ''w'', workerAddr = ''x''\<rparr> RpcOk (\<lambda>_. FlushOk) 3 10 s1 = Some (Inr [j], s2)"
    "Timeout j = reqTimeoutMs sample_request * 1000000"
    "grpc_Acknowledge RpcOk (\<lambda>_. []) FlushOk 4 ''a'' StatusCompleted s2 = Some (None, s3)" by blast
  then show ?thesis
    by (intro exI [of _ ?s] exI [of _ s1] exI [of _ s2] exI [of _ s3] exI [of _ j]) (simp add: sample_request_def)
qed

section \<open>What a failure means\<close>

lemma dead_report_standalone:
  assumes "raftNode s = None" and "jm_ok (mgr (controller s))" and "wal_live (wal (controller s))"
    and "job_view (mgr (controller s)) i = Some j" and "Status j = StatusInFlight"
    and "Attempt j + 1 < MaxRetry (config (controller s))"
  shows "\<exists>s'. grpc_Acknowledge RpcOk enc FlushOk now i StatusDead s = Some (None, s') \<and>
      job_status (mgr (controller s')) i = Some StatusPending"
proof -
  let ?jm = "mgr (controller s)"
  obtain a where a: "jobs ?jm i = Some a" "heap ?jm a = j" using assms(4) by (auto simp: job_view_def)
  have st: "job_status ?jm i = Some StatusInFlight" using assms(4,5) by (simp add: job_status_def)
  let ?b = "bump_attempt a ?jm"
  have b: "jm_ok ?b" "job_status ?b i = Some StatusInFlight" using bump_ok [OF assms(2)] st by simp_all
  obtain jm where jm: "Requeue now i ?b = Inr jm" "job_status jm = (job_status ?b)(i \<mapsto> StatusPending)"
    using requeue_step [OF b] by blast
  obtain w where w: "Append FlushOk now EventRetry (heap ?b a) (wal (controller s)) = (None, w)"
    using Append_live [OF assms(3)] by blast
  have "Attempt (heap ?b a) = Attempt j + 1" using a(2) by (simp add: bump_attempt_def)
  then have "handleResult FlushOk now \<lparr>ResultID = i, Success = False, Duration = 0\<rparr> (controller s) = (controller s)\<lparr>wal := w, mgr := jm\<rparr>"
    using a jm(1) w assms(6) by (simp add: handleResult_def GetJob_iff Let_def logged_def)
  then show "\<exists>s'. grpc_Acknowledge RpcOk enc FlushOk now i StatusDead s = Some (None, s') \<and>
      job_status (mgr (controller s')) i = Some StatusPending"
    using assms(1) jm(2)
    by (intro exI [of _ "s\<lparr>controller := (controller s)\<lparr>wal := w, mgr := jm\<rparr>\<rparr>"])
      (simp add: grpc_Acknowledge_def AcknowledgeJob_def Acknowledge_def mapPbStatusToType_def mapStatusToPb_def Let_def)
qed

lemma dead_command:
  assumes "jm_ok jm" and "job_view jm i = Some j" and "Status j = StatusInFlight"
  shows "job_status (handleRaftCommand now (CmdAck i StatusDead) jm) i = Some StatusDead"
proof -
  obtain a where a: "jobs jm i = Some a" using assms(2) by (auto simp: job_view_def)
  have st: "job_status jm i = Some StatusInFlight" using assms(2,3) by (simp add: job_status_def)
  have "\<not> IsCompleted i jm" "\<not> IsDead i jm"
    using pending_not_final [OF jm_ok_D(1) [OF assms(1)] st] by simp_all
  moreover have "ID (heap jm a) = i" by (rule named_ID [OF jm_ok_D(2) [OF assms(1)] a])
  moreover obtain jm' where "MarkDead now i jm = Inr jm'" "job_status jm' = (job_status jm)(i \<mapsto> StatusDead)"
    using dead_step [OF assms(1) st] by blast
  ultimately show "job_status (handleRaftCommand now (CmdAck i StatusDead) jm) i = Some StatusDead"
    using a by (simp add: handleRaftCommand_def GetJob_iff logged_def)
qed


text \<open>A worker reports a failed job with the status DEAD. In standalone mode this is a failed attempt: while
  attempts remain the job is queued again. In Raft mode the same report is a replicated command that
  kills the job at once: it is never retried.\<close>

theorem failure_depends_on_mode:
  assumes "raftNode s = None" and "jm_ok (mgr (controller s))" and "wal_live (wal (controller s))"
    and "job_view (mgr (controller s)) i = Some j" and "Status j = StatusInFlight"
    and "Attempt j + 1 < MaxRetry (config (controller s))"
  shows "(\<exists>s'. grpc_Acknowledge RpcOk enc FlushOk now i StatusDead s = Some (None, s') \<and>
      job_status (mgr (controller s')) i = Some StatusPending) \<and>
    job_status (handleRaftCommand now (CmdAck i StatusDead) (mgr (controller s))) i = Some StatusDead"
proof
  show "\<exists>s'. grpc_Acknowledge RpcOk enc FlushOk now i StatusDead s = Some (None, s') \<and>
      job_status (mgr (controller s')) i = Some StatusPending"
    by (rule dead_report_standalone [OF assms])
  show "job_status (handleRaftCommand now (CmdAck i StatusDead) (mgr (controller s))) i = Some StatusDead"
    by (rule dead_command [OF assms(2,4,5)])
qed

lemma failure_depends_on_mode_witness:
  "\<exists>s s'. job_status (mgr (controller s)) ''a'' = Some StatusInFlight \<and>
     grpc_Acknowledge RpcOk (\<lambda>_. []) FlushOk 9 ''a'' StatusDead s = Some (None, s') \<and>
     job_status (mgr (controller s')) ''a'' = Some StatusPending \<and>
     job_status (handleRaftCommand 9 (CmdAck ''a'' StatusDead) (mgr (controller s))) ''a'' = Some StatusDead"
proof -
  obtain c0 where c0: "recoverable c0" "job_status (mgr c0) = [''a'' \<mapsto> StatusInFlight]" using sample_polled by blast
  then have st: "job_status (mgr c0) ''a'' = Some StatusInFlight" by simp
  then obtain j where j: "job_view (mgr c0) ''a'' = Some j" "Status j = StatusInFlight" by (auto simp: job_status_def)
  let ?s = "NewServer (c0\<lparr>config := sample_cfg\<lparr>MaxRetry := Attempt j + 3\<rparr>\<rparr>) None"
  have h: "raftNode ?s = None" "jm_ok (mgr (controller ?s))" "wal_live (wal (controller ?s))"
    "job_view (mgr (controller ?s)) ''a'' = Some j" "Status j = StatusInFlight" "Attempt j + 1 < MaxRetry (config (controller ?s))"
    using j recoverable_D [OF c0(1)] by (simp_all add: NewServer_def)
  from failure_depends_on_mode [OF h, of "\<lambda>_. []" 9] obtain s' where
    "grpc_Acknowledge RpcOk (\<lambda>_. []) FlushOk 9 ''a'' StatusDead ?s = Some (None, s')"
    "job_status (mgr (controller s')) ''a'' = Some StatusPending"
    "job_status (handleRaftCommand 9 (CmdAck ''a'' StatusDead) (mgr (controller ?s))) ''a'' = Some StatusDead" by blast
  then show ?thesis using st by (intro exI [of _ ?s] exI [of _ s']) (simp add: NewServer_def)
qed

section \<open>A job without a timeout\<close>

text \<open>A job submitted without a timeout never succeeds on a remote worker: its timeout travels as zero, the
  worker's deadline is over before the work starts, and every attempt whose work takes any time at all
  is reported as a failure. (The local dispatcher uses the configured timeout instead.)\<close>

theorem no_timeout_never_succeeds:
  assumes "reqTimeoutMs req = 0" and "0 < work_duration rnd (json_payload p)"
  shows "\<not> Success (run_task tie rnd elapsed (poll_task (job_of_pb (pb_job w (submitted_job now nanos p req)))))"
  using assms
  by (simp add: run_task_def execute_def poll_task_def job_of_pb_def pb_job_def submitted_job_def Milliseconds_def
      wrap64_def payload_wire Let_def)

lemma no_timeout_never_succeeds_witness:
  "\<not> Success (run_task True 3 7 (poll_task (job_of_pb (pb_job ''w'' (submitted_job 1 2 Map.empty
      \<lparr>reqJobId = ''a'', reqPayload = NoBytes, reqTimeoutMs = 0\<rparr>)))))"
  by (rule no_timeout_never_succeeds) (simp_all add: work_duration_def json_payload_def wrap64_def)

section \<open>Submitting through Raft\<close>

text \<open>In Raft mode a successful answer means proposed, not committed: the leader has added one entry of its
  term at the end of its log, the queue knows nothing of the job yet, and the commit index has not
  moved. Any other node refuses and changes nothing.\<close>

theorem raft_submit_only_proposes:
  assumes "raftNode s = Some rf" and "log_good (logStore rf)" and "unmarshal (reqPayload req) = Some p"
  shows "\<exists>r rf'. SubmitJob enc io now nanos req s = Some (r, s\<lparr>raftNode := Some rf'\<rparr>) \<and> commitIndex rf' = commitIndex rf \<and>
    (if state rf = Leader
     then r = Inr (ID (submitted_job now nanos p req)) \<and> (\<exists>n. LastIndex (logStore rf) = Some n \<and> logStore rf' = logStore rf @
       [\<lparr>Term = currentTerm rf, Index = n + 1, Command = enc (CmdEnqueue [submitted_job now nanos p req])\<rparr>])
     else r = Inl NotLeader \<and> rf' = rf)"
proof -
  obtain n where "LastIndex (logStore rf) = Some n" using mem_log.bounds [OF assms(2)] by blast
  then show ?thesis using assms(1,3)
    by (cases "state rf") (auto simp: SubmitJob_def Propose_def Let_def StoreLog_def StoreLogs_def
        intro: exI [of _ rf] exI [of _ "rf\<lparr>logStore := logStore rf @ [\<lparr>Term = currentTerm rf, Index = n + 1,
          Command = enc (CmdEnqueue [submitted_job now nanos p req])\<rparr>]\<rparr>"])
qed

lemma raft_submit_only_proposes_witness:
  "\<exists>c r rf'. SubmitJob (\<lambda>_. ''c'') (\<lambda>_. FlushOk) 1 2 sample_request
      (NewServer c (Some ((NewRaft ''a'' [''a'', ''b''] NewMemoryLogStore)\<lparr>state := Leader\<rparr>))) =
    Some (r, (NewServer c (Some rf'))) \<and> r = Inr ''a''"
proof -
  obtain c :: Controller where "mgr c = NewJobManager" using sample_boot by blast
  let ?rf = "(NewRaft ''a'' [''a'', ''b''] NewMemoryLogStore)\<lparr>state := Leader\<rparr>"
  let ?s = "NewServer c (Some ?rf)"
  have h: "raftNode ?s = Some ?rf" "log_good (logStore ?rf)" "unmarshal (reqPayload sample_request) = Some Map.empty"
    using NewMemoryLogStore_good by (simp_all add: NewServer_def NewRaft_def sample_request_def unmarshal_def)
  from raft_submit_only_proposes [OF h, of "\<lambda>_. ''c''" "\<lambda>_. FlushOk" 1 2]
  obtain r rf' where "SubmitJob (\<lambda>_. ''c'') (\<lambda>_. FlushOk) 1 2 sample_request ?s = Some (r, ?s\<lparr>raftNode := Some rf'\<rparr>)"
    "r = Inr (ID (submitted_job 1 2 Map.empty sample_request))" by auto
  then show ?thesis
    by (intro exI [of _ c] exI [of _ r] exI [of _ rf']) (simp add: NewServer_def submitted_job_def sample_request_def)
qed

section \<open>Registration\<close>

text \<open>A worker whose heartbeat under its own name returns without an error is registered, with a lease of
  ten seconds from then, whether it was known, unknown or had let its lease run out. A heartbeat never
  removes a worker, and changes no entry but those of the two names. One sent under another name never
  makes that name known.\<close>

theorem heartbeat_registers:
  assumes "grpc_Heartbeat src r r' now nodeID s = (err, s')"
  shows "(err = None \<longrightarrow> nodeID = workerID src \<longrightarrow> map_option ExpiryTime (registry s' nodeID) = Some (now + 10000)) \<and>
    (registry s nodeID = None \<longrightarrow> nodeID \<noteq> workerID src \<longrightarrow> registry s' nodeID = None) \<and>
    dom (registry s) \<subseteq> dom (registry s') \<and>
    (\<forall>w. w \<noteq> nodeID \<longrightarrow> w \<noteq> workerID src \<longrightarrow> registry s' w = registry s w)"
  using assms
  by (cases r; cases r'; auto simp: grpc_Heartbeat_def rpc_call_def SendHeartbeat_def register_def RegisterWorker_def
      split: option.splits if_splits)

lemma heartbeat_registers_witness:
  "\<exists>c s'. grpc_Heartbeat \<lparr>workerID = ''w'', workerAddr = ''x''\<rparr> RpcOk RpcOk 5 ''w'' (NewServer c None) = (None, s') \<and>
     map_option ExpiryTime (registry s' ''w'') = Some 10005"
proof -
  obtain c :: Controller where "mgr c = NewJobManager" using sample_boot by blast
  obtain s' where s': "grpc_Heartbeat \<lparr>workerID = ''w'', workerAddr = ''x''\<rparr> RpcOk RpcOk 5 ''w'' (NewServer c None) = (None, s')"
    by (simp add: grpc_Heartbeat_def rpc_call_def SendHeartbeat_def register_def RegisterWorker_def NewServer_def)
  show ?thesis using heartbeat_registers [OF s'] s' by (intro exI [of _ c] exI [of _ s']) simp
qed

section \<open>Raft over the network\<close>

lemma wire_append_id: "wire_append args = args"
  by (simp add: wire_append_def wire_entry_def map_idI)

text \<open>The transport is transparent: a call that gets through runs the peer's handler on exactly the arguments
  the sender has and returns exactly its reply; a call whose answer is lost has run the handler all the
  same; a lost call changes nothing. These are the deliveries the cluster model makes.\<close>

theorem transport_transparent:
  assumes "raftNode s = Some rf"
  shows "SendRequestVote RpcOk v s = (case RequestVote v rf of (reply, rf') \<Rightarrow> (Inr reply, s\<lparr>raftNode := Some rf'\<rparr>))"
    and "SendRequestVote RpcNoReply v s = (Inl ErrRpc, s\<lparr>raftNode := Some (snd (RequestVote v rf))\<rparr>)"
    and "SendAppendEntries RpcOk args s = map_option (\<lambda>(reply, rf'). (Inr reply, s\<lparr>raftNode := Some rf'\<rparr>)) (AppendEntries args rf)"
    and "SendAppendEntries RpcNoReply args s = map_option (\<lambda>(reply, rf'). (Inl ErrRpc, s\<lparr>raftNode := Some rf'\<rparr>)) (AppendEntries args rf)"
    and "SendRequestVote RpcLost v s = (Inl ErrRpc, s)" and "SendAppendEntries RpcLost args s = Some (Inl ErrRpc, s)"
  using assms
  by (auto simp: SendRequestVote_def SendAppendEntries_def rpc_call_def srv_RequestVote_def srv_AppendEntries_def wire_append_id
      split: prod.splits option.splits)

end
