(* ===== verification/JobSource.thy ===== *)
theory JobSource
  imports ServerProps
begin

text \<open>
  The interface \<open>JobSource\<close> (\<open>internal/worker/source.go\<close>) as a contract, its two providers, the
  controller (\<open>job_source_impl.go\<close>) and the gRPC client (\<open>grpc_source.go\<close>), and what a worker that relies
  on it alone achieves: it works off the queue.
\<close>

section \<open>A worker\<close>

text \<open>
  The sequential worker: in each round it polls a batch, runs every job to a successful end and
  acknowledges it; a poll that fails is skipped. \<open>clock k\<close> is the time of the round with \<open>k\<close> more to come.
\<close>

fun ack_all :: "(int \<Rightarrow> JobID \<Rightarrow> 's \<Rightarrow> gerror option \<times> 's) \<Rightarrow> int \<Rightarrow> JobID list \<Rightarrow> 's \<Rightarrow> 's" where
  "ack_all ack now [] s = s"
| "ack_all ack now (i # is) s = ack_all ack now is (snd (ack now i s))"

fun work_off ::
  "(int \<Rightarrow> 's \<Rightarrow> Job list res \<times> 's) \<Rightarrow> (int \<Rightarrow> JobID \<Rightarrow> 's \<Rightarrow> gerror option \<times> 's) \<Rightarrow> (nat \<Rightarrow> int) \<Rightarrow> nat \<Rightarrow> 's \<Rightarrow> 's" where
  "work_off poll ack clock 0 s = s"
| "work_off poll ack clock (Suc k) s =
     (case poll (clock k) s of
        (Inl err, s') \<Rightarrow> work_off poll ack clock k s'
      | (Inr js, s') \<Rightarrow> work_off poll ack clock k (ack_all ack (clock k) (map ID js) s'))"

section \<open>The contract\<close>

text \<open>
  A poll hands out the first ten waiting jobs, in flight; acknowledging a job in flight as completed
  completes it; neither touches any other job.
\<close>

locale job_source =
  fixes ready :: "'s \<Rightarrow> bool"
    and status :: "'s \<Rightarrow> JobID \<Rightarrow> JobStatus option"
    and waiting :: "'s \<Rightarrow> JobID list"
    and poll :: "int \<Rightarrow> 's \<Rightarrow> Job list res \<times> 's"
    and ack :: "int \<Rightarrow> JobID \<Rightarrow> 's \<Rightarrow> gerror option \<times> 's"
  assumes poll_ok: "ready s \<Longrightarrow> \<exists>js s'. poll now s = (Inr js, s') \<and> ready s' \<and> map ID js = take 10 (waiting s) \<and>
      (\<forall>j \<in> set js. Status j = StatusInFlight) \<and> waiting s' = drop 10 (waiting s) \<and>
      (\<forall>i. status s' i = (if i \<in> set (take 10 (waiting s)) then Some StatusInFlight else status s i))"
    and ack_ok: "ready s \<Longrightarrow> status s i = Some StatusInFlight \<Longrightarrow> \<exists>s'. ack now i s = (None, s') \<and> ready s' \<and>
      waiting s' = waiting s \<and> status s' = (status s)(i \<mapsto> StatusCompleted)"
    and waiting_distinct: "ready s \<Longrightarrow> distinct (waiting s)"
begin

lemma ack_all_completes:
  "ready s \<Longrightarrow> distinct is \<Longrightarrow> (\<And>i. i \<in> set is \<Longrightarrow> status s i = Some StatusInFlight) \<Longrightarrow>
     ready (ack_all ack now is s) \<and> waiting (ack_all ack now is s) = waiting s \<and>
     (\<forall>i. status (ack_all ack now is s) i = (if i \<in> set is then Some StatusCompleted else status s i))"
proof (induction "is" arbitrary: s)
  case Nil
  then show ?case by simp
next
  case (Cons k ks)
  have "status s k = Some StatusInFlight" using Cons.prems(3) by simp
  with ack_ok [OF Cons.prems(1)] obtain s' where s': "ack now k s = (None, s')" "ready s'" "waiting s' = waiting s"
    "status s' = (status s)(k \<mapsto> StatusCompleted)" by blast
  have "status s' i = Some StatusInFlight" if "i \<in> set ks" for i
    using that Cons.prems(2) Cons.prems(3) [of i] s'(4) by auto
  then show ?case using Cons.IH [OF s'(2)] Cons.prems(2) s' by auto
qed

lemma work_off_drains:
  "ready s \<Longrightarrow> length (waiting s) \<le> 10 * k \<Longrightarrow>
     ready (work_off poll ack clock k s) \<and> waiting (work_off poll ack clock k s) = [] \<and>
     (\<forall>i. status (work_off poll ack clock k s) i = (if i \<in> set (waiting s) then Some StatusCompleted else status s i))"
proof (induction k arbitrary: s)
  case 0
  then show ?case by simp
next
  case (Suc k)
  obtain js s1 where p: "poll (clock k) s = (Inr js, s1)" "ready s1" "map ID js = take 10 (waiting s)"
    "waiting s1 = drop 10 (waiting s)"
    "\<And>i. status s1 i = (if i \<in> set (take 10 (waiting s)) then Some StatusInFlight else status s i)"
    using poll_ok [OF Suc.prems(1), of "clock k"] by blast
  let ?s2 = "ack_all ack (clock k) (map ID js) s1"
  have "distinct (map ID js)" using waiting_distinct [OF Suc.prems(1)] p(3) by simp
  then have a: "ready ?s2" "waiting ?s2 = drop 10 (waiting s)"
    "\<And>i. status ?s2 i = (if i \<in> set (take 10 (waiting s)) then Some StatusCompleted else status s i)"
    using ack_all_completes [OF p(2), of "map ID js" "clock k"] p(3-5) by simp_all
  have "length (waiting ?s2) \<le> 10 * k" using a(2) Suc.prems(2) by simp
  note IH = Suc.IH [OF a(1) this]
  have "set (take 10 (waiting s)) \<union> set (drop 10 (waiting s)) = set (waiting s)"
    by (metis append_take_drop_id set_append)
  then show ?case using IH p(1) a(2,3) by auto
qed

end

section \<open>The controller as a source\<close>

text \<open>The controller as its own process sees it: the polled pointers are read at once.\<close>

definition local_poll :: "int \<Rightarrow> Controller \<Rightarrow> Job list res \<times> Controller" where
  "local_poll now c =
     (case Poll (\<lambda>_. FlushOk) now 10 c of
        (Inl err, c') \<Rightarrow> (Inl err, c')
      | (Inr as, c') \<Rightarrow> (Inr (map (heap (mgr c')) as), c'))"

definition local_ack :: "int \<Rightarrow> JobID \<Rightarrow> Controller \<Rightarrow> gerror option \<times> Controller" where
  "local_ack now i c = Acknowledge FlushOk now i StatusCompleted (Some \<lparr>ResultID = i, Success = True, Duration = 0\<rparr>) c"

definition live :: "Controller \<Rightarrow> bool" where
  "live c \<longleftrightarrow> jm_ok (mgr c) \<and> wal_live (wal c) \<and> \<not> ctl_stopped c"

lemma poll_loop_live:
  assumes "live c" and "distinct ids"
    and "\<And>i. i \<in> set ids \<Longrightarrow> job_status (mgr c) i = Some StatusPending \<and> i \<notin> set (queue (mgr c))"
    and "c' = poll_loop (\<lambda>_. FlushOk) n now (addrs (mgr c) ids) c"
  shows "live c' \<and> queue (mgr c') = queue (mgr c) \<and> jobs (mgr c') = jobs (mgr c) \<and>
    (\<forall>i. job_status (mgr c') i = (if i \<in> set ids then Some StatusInFlight else job_status (mgr c) i))"
  using assms
proof (induction ids arbitrary: n c)
  case Nil
  then show ?case by (simp add: addrs_def)
next
  case (Cons i ids)
  have ok: "jm_ok (mgr c)" and wl: "wal_live (wal c)" and run: "\<not> ctl_stopped c" using Cons.prems(1) by (simp_all add: live_def)
  have st: "job_status (mgr c) i = Some StatusPending" and nq: "i \<notin> set (queue (mgr c))"
    using Cons.prems(3) [of i] by auto
  obtain a where a: "jobs (mgr c) i = Some a" "ID (heap (mgr c) a) = i"
    using status_address [OF ok st] by blast
  let ?d = "now + TaskTimeout (config c)"
  obtain jm' where jm': "MarkInFlight now i ?d (mgr c) = Inr jm'" "jm_ok jm'"
    "job_status jm' = (job_status (mgr c))(i \<mapsto> StatusInFlight)" "jobs jm' = jobs (mgr c)" "queue jm' = queue (mgr c)"
    using in_flight_step [OF ok st nq] by blast
  obtain w' where w': "Append FlushOk now EventDispatch (heap (mgr c) a) (wal c) = (None, w')" "wal_live w'"
    using Append_live [OF wl] by blast
  let ?c1 = "c\<lparr>wal := w', mgr := jm'\<rparr>"
  have l1: "live ?c1" using jm'(2) w'(2) run by (simp add: live_def)
  have pend: "job_status (mgr ?c1) k = Some StatusPending \<and> k \<notin> set (queue (mgr ?c1))" if "k \<in> set ids" for k
    using that Cons.prems(2) Cons.prems(3) [of k] jm'(3,5) by auto
  have c': "c' = poll_loop (\<lambda>_. FlushOk) (Suc n) now (addrs (mgr ?c1) ids) ?c1"
    using Cons.prems(4) a w'(1) jm'(1,4) by (simp add: addrs_def logged_def Let_def)
  have "distinct ids" using Cons.prems(2) by simp
  from Cons.IH [OF l1 this pend c'] show ?case using jm'(3-5) by auto
qed

lemma Poll_live:
  assumes "live c"
  shows "\<exists>c'. Poll (\<lambda>_. FlushOk) now n c = (Inr (addrs (mgr c) (take n (queue (mgr c)))), c') \<and> live c' \<and>
    queue (mgr c') = drop n (queue (mgr c)) \<and> jobs (mgr c') = jobs (mgr c) \<and>
    (\<forall>i. job_status (mgr c') i = (if i \<in> set (take n (queue (mgr c))) then Some StatusInFlight else job_status (mgr c) i))"
proof -
  have ok: "jm_ok (mgr c)" and run: "\<not> ctl_stopped c" using assms by (simp_all add: live_def)
  let ?ids = "take n (queue (mgr c))" let ?jm = "(mgr c)\<lparr>queue := drop n (queue (mgr c))\<rparr>" let ?c1 = "c\<lparr>mgr := ?jm\<rparr>"
  have "set (queue (mgr c)) \<subseteq> dom (jobs (mgr c))" using jm_inv_queue [OF jm_ok_D(1) [OF ok]] by blast
  then have pop: "pop_batch n (mgr c) = (addrs (mgr c) ?ids, ?jm)" by (simp add: pop_batch_char addrs_def)
  have st: "job_status ?jm = job_status (mgr c)" by (rule pop_batch_ok(2) [OF ok])
  have l1: "live ?c1" using pop_batch_ok(1) [OF ok] assms by (simp add: live_def)
  have q: "distinct (queue (mgr c))" "\<And>i. i \<in> set (queue (mgr c)) \<Longrightarrow> job_status (mgr c) i = Some StatusPending"
    using jm_ok_D(3) [OF ok] by (auto simp: clean_queue_def)
  have "distinct (take n (queue (mgr c)) @ drop n (queue (mgr c)))" using q(1) by simp
  then have di: "distinct ?ids" and dj: "\<And>i. i \<in> set ?ids \<Longrightarrow> i \<notin> set (drop n (queue (mgr c)))"
    by (auto simp only: distinct_append)
  have pp: "job_status (mgr ?c1) i = Some StatusPending \<and> i \<notin> set (queue (mgr ?c1))" if "i \<in> set ?ids" for i
    using q(2) [OF in_set_takeD [OF that]] dj [OF that] st by simp
  let ?c2 = "poll_loop (\<lambda>_. FlushOk) 0 now (addrs (mgr ?c1) ?ids) ?c1"
  have "Poll (\<lambda>_. FlushOk) now n c = (Inr (addrs (mgr c) ?ids), ?c2)"
    using run pop by (simp add: Poll_def addrs_def)
  then show ?thesis using poll_loop_live [OF l1 di pp refl, of 0 now] st by auto
qed

text \<open>What the polled pointers point to after the poll.\<close>

lemma polled_heap:
  assumes "jm_ok (mgr c')" and "jobs (mgr c') = jobs (mgr c)" and "i \<in> dom (jobs (mgr c))"
    and "job_status (mgr c') i = Some StatusInFlight"
  shows "ID (heap (mgr c') (the (jobs (mgr c) i))) = i \<and> Status (heap (mgr c') (the (jobs (mgr c) i))) = StatusInFlight"
  using status_address [OF assms(1,4)] assms(2) by auto

lemma polled_jobs:
  assumes "live c" and "Poll (\<lambda>_. FlushOk) now n c = (Inr as, c')"
  shows "map (\<lambda>a. ID (heap (mgr c') a)) as = take n (queue (mgr c)) \<and> (\<forall>a \<in> set as. Status (heap (mgr c') a) = StatusInFlight)"
proof -
  have as: "as = addrs (mgr c) (take n (queue (mgr c)))" and c': "live c'" "jobs (mgr c') = jobs (mgr c)"
    "\<And>i. i \<in> set (take n (queue (mgr c))) \<Longrightarrow> job_status (mgr c') i = Some StatusInFlight"
    using Poll_live [OF assms(1), of now n] assms(2) by auto
  have q: "i \<in> dom (jobs (mgr c))" if "i \<in> set (take n (queue (mgr c)))" for i
    using jm_inv_queue [OF jm_ok_D(1)] in_set_takeD [OF that] assms(1) by (auto simp: live_def)
  have h: "ID (heap (mgr c') (the (jobs (mgr c) i))) = i \<and> Status (heap (mgr c') (the (jobs (mgr c) i))) = StatusInFlight"
    if "i \<in> set (take n (queue (mgr c)))" for i
    using polled_heap [OF _ c'(2) q [OF that] c'(3) [OF that]] c'(1) by (simp add: live_def)
  then show ?thesis by (auto simp: as addrs_def map_idI)
qed

lemma local_ack_live:
  assumes "live c" and "job_status (mgr c) i = Some StatusInFlight"
  shows "\<exists>c'. local_ack now i c = (None, c') \<and> live c' \<and> queue (mgr c') = queue (mgr c) \<and>
    job_status (mgr c') = (job_status (mgr c))(i \<mapsto> StatusCompleted)"
proof -
  have ok: "jm_ok (mgr c)" "wal_live (wal c)" "\<not> ctl_stopped c" using assms(1) by (simp_all add: live_def)
  obtain a where a: "jobs (mgr c) i = Some a" using assms(2) by (auto simp: job_status_iff)
  obtain jm where jm: "MarkCompleted now i (mgr c) = Inr jm" "jm_ok jm" "job_status jm = (job_status (mgr c))(i \<mapsto> StatusCompleted)"
    using completed_step [OF ok(1) assms(2)] by blast
  have "queue jm = queue (mgr c)" using jm(1) by (auto simp: MarkCompleted_def split: option.splits if_splits)
  moreover obtain w where "Append FlushOk now EventAck (heap (mgr c) a) (wal c) = (None, w)" "wal_live w"
    using Append_live [OF ok(2)] by blast
  ultimately show ?thesis using a jm ok(3)
    by (simp add: local_ack_def Acknowledge_def handleResult_def GetJob_def Let_def logged_def live_def)
qed

interpretation controller_source: job_source live "\<lambda>c. job_status (mgr c)" "\<lambda>c. queue (mgr c)" local_poll local_ack
proof unfold_locales
  fix s :: Controller and now :: int
  assume "live s"
  then obtain c' where c': "Poll (\<lambda>_. FlushOk) now 10 s = (Inr (addrs (mgr s) (take 10 (queue (mgr s)))), c')" "live c'"
    "queue (mgr c') = drop 10 (queue (mgr s))"
    "\<And>i. job_status (mgr c') i = (if i \<in> set (take 10 (queue (mgr s))) then Some StatusInFlight else job_status (mgr s) i)"
    using Poll_live by blast
  then show "\<exists>js s'. local_poll now s = (Inr js, s') \<and> live s' \<and> map ID js = take 10 (queue (mgr s)) \<and>
      (\<forall>j \<in> set js. Status j = StatusInFlight) \<and> queue (mgr s') = drop 10 (queue (mgr s)) \<and>
      (\<forall>i. job_status (mgr s') i = (if i \<in> set (take 10 (queue (mgr s))) then Some StatusInFlight else job_status (mgr s) i))"
    using polled_jobs [OF \<open>live s\<close> c'(1)] by (simp add: local_poll_def comp_def)
next
  fix s :: Controller and i now
  assume "live s" "job_status (mgr s) i = Some StatusInFlight"
  then show "\<exists>s'. local_ack now i s = (None, s') \<and> live s' \<and> queue (mgr s') = queue (mgr s) \<and>
      job_status (mgr s') = (job_status (mgr s))(i \<mapsto> StatusCompleted)" by (rule local_ack_live)
next
  fix s :: Controller
  assume "live s"
  then show "distinct (queue (mgr s))" using jm_ok_D(3) by (auto simp: live_def clean_queue_def)
qed

section \<open>The gRPC client as a source\<close>

definition remote_poll :: "GrpcJobSource \<Rightarrow> int \<Rightarrow> Server \<Rightarrow> Job list res \<times> Server" where
  "remote_poll src now s =
     (case grpc_Poll src RpcOk (\<lambda>_. FlushOk) now 10 s of
        None \<Rightarrow> (Inl ErrRpc, s)
      | Some r \<Rightarrow> r)"

definition remote_ack :: "int \<Rightarrow> JobID \<Rightarrow> Server \<Rightarrow> gerror option \<times> Server" where
  "remote_ack now i s =
     (case grpc_Acknowledge RpcOk (\<lambda>_. []) FlushOk now i StatusCompleted s of
        None \<Rightarrow> (Some ErrRpc, s)
      | Some r \<Rightarrow> r)"

definition standalone :: "Server \<Rightarrow> bool" where
  "standalone s \<longleftrightarrow> raftNode s = None \<and> live (controller s)"

lemma job_of_pb_simps: "ID (job_of_pb (pb_job w j)) = ID j"
  "Status j = StatusInFlight \<Longrightarrow> Status (job_of_pb (pb_job w j)) = StatusInFlight"
  by (simp_all add: job_of_pb_def pb_job_def mapPbStatusToType_def mapStatusToPb_def)

text \<open>The server's handlers are the controller's operations, so the laws carry over.\<close>

lemma remote_poll_local:
  assumes "local_poll now (controller s) = (Inr js, c)"
  shows "\<exists>ks. remote_poll src now s = (Inr ks, s\<lparr>controller := c\<rparr>) \<and> map ID ks = map ID js \<and>
    ((\<forall>j \<in> set js. Status j = StatusInFlight) \<longrightarrow> (\<forall>k \<in> set ks. Status k = StatusInFlight))"
proof -
  obtain as where as: "Poll (\<lambda>_. FlushOk) now 10 (controller s) = (Inr as, c)" "js = map (heap (mgr c)) as"
    using assms by (auto simp: local_poll_def split: prod.splits sum.splits)
  then have "remote_poll src now s = (Inr (map (\<lambda>a. job_of_pb (pb_job (workerID src) (heap (mgr c) a))) as), s\<lparr>controller := c\<rparr>)"
    by (simp add: remote_poll_def grpc_Poll_def PollJobs_def int32_def comp_def)
  then show ?thesis using as(2) by (simp add: job_of_pb_simps comp_def)
qed

lemma remote_ack_local:
  assumes "raftNode s = None" and "local_ack now i (controller s) = (None, c)"
  shows "remote_ack now i s = (None, s\<lparr>controller := c\<rparr>)"
  using assms by (simp add: remote_ack_def grpc_Acknowledge_def AcknowledgeJob_def local_ack_def mapPbStatusToType_def
      mapStatusToPb_def Let_def)

interpretation grpc_source: job_source standalone "\<lambda>s. job_status (mgr (controller s))" "\<lambda>s. queue (mgr (controller s))"
  "remote_poll src" remote_ack for src
proof unfold_locales
  fix s :: Server and now :: int
  assume s: "standalone s"
  then obtain js c where p: "local_poll now (controller s) = (Inr js, c)" "live c" "map ID js = take 10 (queue (mgr (controller s)))"
    "\<forall>j \<in> set js. Status j = StatusInFlight" "queue (mgr c) = drop 10 (queue (mgr (controller s)))"
    "\<forall>i. job_status (mgr c) i = (if i \<in> set (take 10 (queue (mgr (controller s)))) then Some StatusInFlight
        else job_status (mgr (controller s)) i)"
    using controller_source.poll_ok [of "controller s" now] by (auto simp: standalone_def)
  obtain ks where "remote_poll src now s = (Inr ks, s\<lparr>controller := c\<rparr>)" "map ID ks = map ID js" "\<forall>k \<in> set ks. Status k = StatusInFlight"
    using remote_poll_local [OF p(1), of src] p(4) by blast
  then show "\<exists>js s'. remote_poll src now s = (Inr js, s') \<and> standalone s' \<and> map ID js = take 10 (queue (mgr (controller s))) \<and>
      (\<forall>j \<in> set js. Status j = StatusInFlight) \<and> queue (mgr (controller s')) = drop 10 (queue (mgr (controller s))) \<and>
      (\<forall>i. job_status (mgr (controller s')) i = (if i \<in> set (take 10 (queue (mgr (controller s)))) then Some StatusInFlight
        else job_status (mgr (controller s)) i))"
    using s p(2,3,5,6) by (simp add: standalone_def)
next
  fix s :: Server and i now
  assume s: "standalone s" and "job_status (mgr (controller s)) i = Some StatusInFlight"
  then obtain c where c: "local_ack now i (controller s) = (None, c)" "live c" "queue (mgr c) = queue (mgr (controller s))"
    "job_status (mgr c) = (job_status (mgr (controller s)))(i \<mapsto> StatusCompleted)"
    using controller_source.ack_ok [of "controller s" i now] by (auto simp: standalone_def)
  then show "\<exists>s'. remote_ack now i s = (None, s') \<and> standalone s' \<and> queue (mgr (controller s')) = queue (mgr (controller s)) \<and>
      job_status (mgr (controller s')) = (job_status (mgr (controller s)))(i \<mapsto> StatusCompleted)"
    using remote_ack_local [OF _ c(1)] s by (simp add: standalone_def)
next
  fix s :: Server
  assume "standalone s"
  then show "distinct (queue (mgr (controller s)))" using controller_source.waiting_distinct by (simp add: standalone_def)
qed

section \<open>The queue is worked off\<close>

text \<open>C20. A queue is worked off. A worker on the network that polls a standalone master with a working log in
  batches of ten and acknowledges what it has run has, after enough rounds, completed every job that was
  queued, whatever the clock shows; the queue is then empty, and no other job has changed its status.\<close>

theorem queue_worked_off:
  assumes "standalone s" and "length (queue (mgr (controller s))) \<le> 10 * k"
  shows "queue (mgr (controller (work_off (remote_poll src) remote_ack clock k s))) = [] \<and>
    (\<forall>i. job_status (mgr (controller (work_off (remote_poll src) remote_ack clock k s))) i =
      (if i \<in> set (queue (mgr (controller s))) then Some StatusCompleted else job_status (mgr (controller s)) i))"
  using grpc_source.work_off_drains [OF assms, of src clock] by simp

lemma queue_worked_off_witness:
  "\<exists>s. queue (mgr (controller s)) = [''a''] \<and>
     job_status (mgr (controller (work_off (remote_poll \<lparr>workerID = ''w'', workerAddr = ''x''\<rparr>) remote_ack (\<lambda>_. 9) 1 s))) ''a'' =
       Some StatusCompleted"
proof -
  obtain c :: Controller where c: "recoverable c" "\<not> ctl_stopped c" "queue (mgr c) = [''a'']" using sample_ready by blast
  have "standalone (NewServer c None)" "length (queue (mgr (controller (NewServer c None)))) \<le> 10 * 1"
    using c recoverable_D [OF c(1)] by (simp_all add: standalone_def NewServer_def live_def)
  from queue_worked_off [OF this, of "\<lparr>workerID = ''w'', workerAddr = ''x''\<rparr>" "\<lambda>_. 9"] c(3)
  show ?thesis by (intro exI [of _ "NewServer c None"]) (simp add: NewServer_def)
qed

text \<open>The same worker inside the process of the controller.\<close>

lemma controller_worked_off:
  "live c \<Longrightarrow> length (queue (mgr c)) \<le> 10 * k \<Longrightarrow>
     queue (mgr (work_off local_poll local_ack clock k c)) = [] \<and>
     (\<forall>i \<in> set (queue (mgr c)). job_status (mgr (work_off local_poll local_ack clock k c)) i = Some StatusCompleted)"
  using controller_source.work_off_drains [of c k clock] by simp

end
