(* ===== verification/PullPool.thy ===== *)
theory PullPool
  imports Worker
begin

text \<open>
  The pool of a worker node (\<open>internal/worker/worker_pool.go\<close>): the pool of \<open>Worker\<close>, started with a job
  source, and the two goroutines that connect them, \<open>pollerLoop\<close> and \<open>ackLoop\<close>. A step is what one
  goroutine does between two points where it can be preempted. The answers of the source are
  arguments: the source may be any.
\<close>

section \<open>The state\<close>

text \<open>
  \<open>Polling ts\<close>: the poller has polled and still has to send \<open>ts\<close>; with none left it waits for the
  ticker. The last three fields record what has happened: the tasks polled, those the poller gave up
  when the pool was stopped, and the results acknowledged.
\<close>

datatype poller = Polling "Task list" | PollerDone

datatype acker = Receiving | Acking Result | AckerDone

record PullPool =
  pool :: Pool
  poller :: poller
  acker :: acker
  polled :: "Task list"
  abandoned :: "Task list"
  reported :: "Result list"

text \<open>\<open>NewPool\<close> and \<open>Start\<close> with a source; a negative number of workers starts none.\<close>

definition start_pull :: "int \<Rightarrow> int \<Rightarrow> PullPool option" where
  "start_pull bufferSize workerCount =
     (case NewPool bufferSize of
        None \<Rightarrow> None
      | Some p \<Rightarrow>
          (case Start (nat workerCount) p of
             Inl err \<Rightarrow> None
           | Inr p' \<Rightarrow> Some \<lparr>pool = p', poller = Polling [], acker = Receiving, polled = [], abandoned = [], reported = []\<rparr>))"

section \<open>The poller\<close>

definition batchSize :: int where
  "batchSize = 10"

text \<open>A tick of the poller: \<open>r\<close> is the source's answer. An error is ignored.\<close>

definition poll_tick :: "Job list res \<Rightarrow> PullPool \<Rightarrow> PullPool option" where
  "poll_tick r n =
     (if poller n \<noteq> Polling [] then None
      else case r of
             Inl err \<Rightarrow> Some n
           | Inr jobs \<Rightarrow> Some (n\<lparr>poller := Polling (map poll_task jobs), polled := map poll_task jobs @ polled n\<rparr>))"

datatype pull_outcome = PullNext PullPool | PullPanic

text \<open>
  The send of the poller is the send of \<open>Submit\<close> without the checks before it: on a closed channel it
  panics. The \<open>select\<close> may take the stop instead.
\<close>

definition poll_send :: "PullPool \<Rightarrow> pull_outcome option" where
  "poll_send n =
     (case poller n of
        Polling (task # ts) \<Rightarrow>
          (case submit_send task ((pool n)\<lparr>sending := task # sending (pool n)\<rparr>) of
             None \<Rightarrow> None
           | Some Panic \<Rightarrow> Some PullPanic
           | Some (Next p) \<Rightarrow> Some (PullNext (n\<lparr>pool := p, poller := Polling ts\<rparr>)))
      | _ \<Rightarrow> None)"

definition poll_stop :: "PullPool \<Rightarrow> PullPool option" where
  "poll_stop n =
     (case poller n of
        Polling ts \<Rightarrow>
          if stopCh_closed (pool n) then Some (n\<lparr>poller := PollerDone, abandoned := ts @ abandoned n\<rparr>) else None
      | PollerDone \<Rightarrow> None)"

section \<open>The acknowledger\<close>

definition ack_receive :: "PullPool \<Rightarrow> PullPool option" where
  "ack_receive n =
     (if acker n \<noteq> Receiving then None
      else case resultCh (pool n) of
             result # rest \<Rightarrow>
               Some (n\<lparr>pool := (pool n)\<lparr>resultCh := rest, delivered := result # delivered (pool n)\<rparr>, acker := Acking result\<rparr>)
           | [] \<Rightarrow> if resultCh_closed (pool n) then Some (n\<lparr>acker := AckerDone\<rparr>) else None)"

definition ack_stop :: "PullPool \<Rightarrow> PullPool option" where
  "ack_stop n = (if acker n = Receiving \<and> stopCh_closed (pool n) then Some (n\<lparr>acker := AckerDone\<rparr>) else None)"

text \<open>The call of \<open>Acknowledge\<close> returns; its error is dropped.\<close>

definition ack_return :: "PullPool \<Rightarrow> PullPool option" where
  "ack_return n =
     (case acker n of Acking result \<Rightarrow> Some (n\<lparr>acker := Receiving, reported := result # reported n\<rparr>) | _ \<Rightarrow> None)"

section \<open>Workers and stopping\<close>

definition on_pool :: "(Pool \<Rightarrow> Pool option) \<Rightarrow> PullPool \<Rightarrow> PullPool option" where
  "on_pool f n = map_option (\<lambda>p. n\<lparr>pool := p\<rparr>) (f (pool n))"

text \<open>A worker reports into the channel, or straight to the acknowledger blocked on it (\<open>waiting\<close>).\<close>

definition pull_report :: "bool \<Rightarrow> Task \<Rightarrow> Result \<Rightarrow> PullPool \<Rightarrow> PullPool option" where
  "pull_report waiting task result n =
     (if waiting \<and> acker n \<noteq> Receiving then None
      else map_option (\<lambda>p. n\<lparr>pool := p, acker := (if waiting \<and> resultCh (pool n) = [] then Acking result else acker n)\<rparr>)
             (worker_report waiting task result (pool n)))"

text \<open>\<open>Stop\<close> waits for the workers and for both loops before it closes the result channel.\<close>

definition pull_wait :: "PullPool \<Rightarrow> PullPool option" where
  "pull_wait n = (if poller n = PollerDone \<and> acker n = AckerDone then on_pool stop_wait n else None)"

datatype pull_step = PollTick "Job list res" | PollSend | PollStop | Take | Report bool Task bool int int
  | AckReceive | AckStop | AckReturn | StopFlag | StopSignal | StopClose | StopWait

definition goes :: "PullPool option \<Rightarrow> pull_outcome option" where
  "goes x = map_option PullNext x"

fun pull_next :: "pull_step \<Rightarrow> PullPool \<Rightarrow> pull_outcome option" where
  "pull_next (PollTick r) n = goes (poll_tick r n)"
| "pull_next PollSend n = poll_send n"
| "pull_next PollStop n = goes (poll_stop n)"
| "pull_next Take n = goes (on_pool worker_take n)"
| "pull_next (Report waiting task tie rnd elapsed) n = goes (pull_report waiting task (run_task tie rnd elapsed task) n)"
| "pull_next AckReceive n = goes (ack_receive n)"
| "pull_next AckStop n = goes (ack_stop n)"
| "pull_next AckReturn n = goes (ack_return n)"
| "pull_next StopFlag n = goes (on_pool stop_flag n)"
| "pull_next StopSignal n = goes (on_pool stop_signal n)"
| "pull_next StopClose n = goes (on_pool stop_close n)"
| "pull_next StopWait n = goes (pull_wait n)"

fun pull_run :: "pull_step list \<Rightarrow> PullPool \<Rightarrow> pull_outcome option" where
  "pull_run [] n = Some (PullNext n)"
| "pull_run (s # ss) n =
     (case pull_next s n of
        Some (PullNext n') \<Rightarrow> pull_run ss n'
      | Some PullPanic \<Rightarrow> (if ss = [] then Some PullPanic else None)
      | None \<Rightarrow> None)"

lemma goes_simps [simp]: "goes (Some n) = Some (PullNext n)" "goes None = None"
  "goes x = Some (PullNext n) \<longleftrightarrow> x = Some n" "goes x \<noteq> Some PullPanic"
  by (auto simp: goes_def)

lemma pull_run_append:
  "pull_run ss n = Some (PullNext n') \<Longrightarrow> pull_run (ss @ ts) n = pull_run ts n'"
  by (induction ss arbitrary: n) (auto split: option.splits pull_outcome.splits if_splits)

section \<open>The invariant\<close>

definition unsent :: "PullPool \<Rightarrow> Task list" where
  "unsent n = (case poller n of Polling ts \<Rightarrow> ts | PollerDone \<Rightarrow> [])"

definition acking :: "PullPool \<Rightarrow> Result list" where
  "acking n = (case acker n of Acking r \<Rightarrow> [r] | _ \<Rightarrow> [])"

definition pull_inv :: "PullPool \<Rightarrow> bool" where
  "pull_inv n \<longleftrightarrow> pool_inv (pool n) \<and> started (pool n) \<and>
     task_ids (polled n) = task_ids (unsent n) + task_ids (abandoned n) + task_ids (accepted (pool n)) \<and>
     result_ids (delivered (pool n)) = result_ids (acking n) + result_ids (reported n)"

lemma start_pull_inv: "start_pull b k = Some n \<Longrightarrow> pull_inv n"
  using NewPool_inv Start_inv
  by (fastforce simp: start_pull_def pull_inv_def unsent_def acking_def Start_def NewPool_def split: option.splits sum.splits if_splits)

lemma submit_send_frame:
  assumes "submit_send t p = Some (Next p')"
  shows "accepted p' = t # accepted p" "delivered p' = delivered p" "started p' = started p"
    "stopCh_closed p' = stopCh_closed p" "taskCh_closed p' = taskCh_closed p" "resultCh p' = resultCh p"
    "sending p' = remove1 t (sending p)" "capacity p' = capacity p" "workers p' = workers p"
  using assms by (auto simp: submit_send_def split: if_splits)

lemma pool_inv_sending [simp]: "pool_inv (p\<lparr>sending := x\<rparr>) = pool_inv p"
  by (simp add: pool_inv_def)

lemma poll_send_cases:
  assumes "poll_send n = Some (PullNext n')"
  obtains t ts p where "poller n = Polling (t # ts)" "n' = n\<lparr>pool := p, poller := Polling ts\<rparr>"
    "submit_send t ((pool n)\<lparr>sending := t # sending (pool n)\<rparr>) = Some (Next p)"
  using assms by (auto simp: poll_send_def split: poller.splits list.splits option.splits pool_outcome.splits)

lemma poll_send_inv:
  assumes "pull_inv n" and "poll_send n = Some (PullNext n')"
  shows "pull_inv n'"
proof -
  obtain t ts p where p: "poller n = Polling (t # ts)" "n' = n\<lparr>pool := p, poller := Polling ts\<rparr>"
    "submit_send t ((pool n)\<lparr>sending := t # sending (pool n)\<rparr>) = Some (Next p)"
    using assms(2) by (rule poll_send_cases)
  have "pool_inv p" using submit_send_inv [OF _ p(3)] assms(1) by (simp add: pull_inv_def)
  then show ?thesis using assms(1) submit_send_frame [OF p(3)] p(1,2)
    by (simp add: pull_inv_def unsent_def acking_def)
qed

lemma ack_receive_inv: "pull_inv n \<Longrightarrow> ack_receive n = Some n' \<Longrightarrow> pull_inv n'"
  by (auto simp: ack_receive_def pull_inv_def pool_inv_def unsent_def acking_def split: if_splits list.splits)

lemma pull_report_inv:
  assumes inv: "pull_inv n" and "pull_report wt t r n = Some n'" and r: "ResultID r = TaskID t"
  shows "pull_inv n'"
proof -
  obtain p where p: "worker_report wt t r (pool n) = Some p" "wt \<longrightarrow> acker n = Receiving"
    "n' = n\<lparr>pool := p, acker := (if wt \<and> resultCh (pool n) = [] then Acking r else acker n)\<rparr>"
    using assms(2) by (auto simp: pull_report_def split: if_splits)
  have "pool_inv p" using worker_report_inv [OF _ p(1) r] inv by (simp add: pull_inv_def)
  moreover have "accepted p = accepted (pool n)" "started p = started (pool n)" "stopCh_closed p = stopCh_closed (pool n)"
    "taskCh_closed p = taskCh_closed (pool n)"
    "delivered p = (if wt \<and> resultCh (pool n) = [] then r # delivered (pool n) else delivered (pool n))"
    using p(1) by (auto simp: worker_report_def Let_def split: if_splits)
  ultimately show ?thesis using inv p(2) by (auto simp: p(3) pull_inv_def unsent_def acking_def)
qed

lemma worker_take_frame: "worker_take p = Some p' \<Longrightarrow> accepted p' = accepted p \<and> delivered p' = delivered p \<and>
    started p' = started p \<and> stopCh_closed p' = stopCh_closed p \<and> taskCh_closed p' = taskCh_closed p"
  by (auto simp: worker_take_def split: list.splits if_splits)

lemma on_pool_inv:
  assumes "pull_inv n" and "f (pool n) = Some p" and "pool_inv p"
    and "accepted p = accepted (pool n) \<and> delivered p = delivered (pool n) \<and> started p = started (pool n)"
  shows "pull_inv (n\<lparr>pool := p\<rparr>)"
  using assms by (simp add: pull_inv_def unsent_def acking_def)

lemma stop_frames:
  "stop_flag p = Some p' \<Longrightarrow> accepted p' = accepted p \<and> delivered p' = delivered p \<and> started p' = started p"
  "stop_signal p = Some p' \<Longrightarrow> accepted p' = accepted p \<and> delivered p' = delivered p \<and> started p' = started p"
  "stop_close p = Some p' \<Longrightarrow> accepted p' = accepted p \<and> delivered p' = delivered p \<and> started p' = started p"
  "stop_wait p = Some p' \<Longrightarrow> accepted p' = accepted p \<and> delivered p' = delivered p \<and> started p' = started p"
  by (auto simp: stop_flag_def stop_signal_def stop_close_def stop_wait_def split: if_splits)

lemma pull_next_inv:
  assumes inv: "pull_inv n" and s: "pull_next s n = Some (PullNext n')"
  shows "pull_inv n'"
proof -
  have D: "pool_inv (pool n)" using inv by (simp add: pull_inv_def)
  show ?thesis
  proof (cases s)
    case (PollTick r)
    then show ?thesis using inv s
      by (auto simp: poll_tick_def pull_inv_def unsent_def acking_def split: if_splits sum.splits)
  next
    case PollSend
    then show ?thesis using poll_send_inv [OF inv] s by simp
  next
    case PollStop
    then show ?thesis using inv s
      by (auto simp: poll_stop_def pull_inv_def unsent_def acking_def split: if_splits poller.splits)
  next
    case Take
    then obtain p where "worker_take (pool n) = Some p" "n' = n\<lparr>pool := p\<rparr>" using s by (auto simp: on_pool_def)
    then show ?thesis using on_pool_inv [OF inv, of worker_take p] worker_take_inv [OF D] worker_take_frame by blast
  next
    case (Report wt t tie rnd el)
    then show ?thesis using pull_report_inv [OF inv _ ResultID_run_task] s by simp
  next
    case AckReceive
    then show ?thesis using ack_receive_inv [OF inv] s by simp
  next
    case AckStop
    then show ?thesis using inv s by (auto simp: ack_stop_def pull_inv_def unsent_def acking_def split: if_splits)
  next
    case AckReturn
    then show ?thesis using inv s by (auto simp: ack_return_def pull_inv_def unsent_def acking_def split: acker.splits)
  next
    case StopFlag
    then obtain p where "stop_flag (pool n) = Some p" "n' = n\<lparr>pool := p\<rparr>" using s by (auto simp: on_pool_def)
    then show ?thesis using on_pool_inv [OF inv, of stop_flag p] stop_flag_inv [OF D] stop_frames(1) by blast
  next
    case StopSignal
    then obtain p where "stop_signal (pool n) = Some p" "n' = n\<lparr>pool := p\<rparr>" using s by (auto simp: on_pool_def)
    then show ?thesis using on_pool_inv [OF inv, of stop_signal p] stop_signal_inv [OF D] stop_frames(2) by blast
  next
    case StopClose
    then obtain p where "stop_close (pool n) = Some p" "n' = n\<lparr>pool := p\<rparr>" using s by (auto simp: on_pool_def)
    then show ?thesis using on_pool_inv [OF inv, of stop_close p] stop_close_inv [OF D] stop_frames(3) by blast
  next
    case StopWait
    then obtain p where "stop_wait (pool n) = Some p" "n' = n\<lparr>pool := p\<rparr>"
      using s by (auto simp: pull_wait_def on_pool_def split: if_splits)
    then show ?thesis using on_pool_inv [OF inv, of stop_wait p] stop_wait_inv [OF D] stop_frames(4) by blast
  qed
qed

lemma pull_run_inv: "pull_inv n \<Longrightarrow> pull_run ss n = Some (PullNext n') \<Longrightarrow> pull_inv n'"
  by (induction ss arbitrary: n) (auto dest: pull_next_inv split: option.splits pull_outcome.splits if_splits)

end
