(* ===== verification/WorkerNode.thy ===== *)
theory WorkerNode
  imports PullPool ServerProps
begin

text \<open>
  A worker node: the pool of \<open>PullPool\<close> with the server of \<open>Server\<close> as its job source. What the pool
  keeps of the jobs it polls, the life of a job on a remote worker, and what stopping a node does.
\<close>

section \<open>The node and its server\<close>

text \<open>A tick of \<open>pollerLoop\<close> and a call of \<open>ackLoop\<close>, with the call to the server that each makes.\<close>

definition node_poll ::
  "GrpcJobSource \<Rightarrow> rpc \<Rightarrow> (nat \<Rightarrow> flush_io) \<Rightarrow> int \<Rightarrow> Server \<times> PullPool \<Rightarrow> (Server \<times> PullPool) option" where
  "node_poll src r io now sn =
     (case sn of (s, n) \<Rightarrow>
        case grpc_Poll src r io now batchSize s of
          None \<Rightarrow> None
        | Some (answer, s') \<Rightarrow> map_option (Pair s') (poll_tick answer n))"

definition node_ack ::
  "rpc \<Rightarrow> (raft_command \<Rightarrow> command) \<Rightarrow> flush_io \<Rightarrow> int \<Rightarrow> Server \<times> PullPool \<Rightarrow> (Server \<times> PullPool) option" where
  "node_ack r enc io now sn =
     (case sn of (s, n) \<Rightarrow>
        case acker n of
          Acking result \<Rightarrow>
            (case grpc_Acknowledge r enc io now (ResultID result) (ack_status result) s of
               None \<Rightarrow> None
             | Some (err, s') \<Rightarrow> map_option (Pair s') (ack_return n))
        | _ \<Rightarrow> None)"

section \<open>No job is lost by the pool itself\<close>

text \<open>C14. A worker node keeps track of its jobs. However its goroutines interleave and whatever the source
  answers, every job it has polled is in exactly one place: still to be sent, given up by the poller
  at a stop, in the task channel, with a worker, in the result channel, thrown away because that was
  full, being acknowledged, or acknowledged. So it never acknowledges a job more often than it
  polled it.\<close>

theorem node_keeps_jobs:
  assumes "start_pull b k = Some n0" and "pull_run ss n0 = Some (PullNext n)"
  shows "task_ids (polled n) = task_ids (unsent n) + task_ids (abandoned n) + task_ids (taskCh (pool n)) +
      task_ids (running (pool n)) + result_ids (resultCh (pool n)) + result_ids (dropped (pool n)) +
      result_ids (acking n) + result_ids (reported n) \<and>
    result_ids (reported n) \<subseteq># task_ids (polled n)"
proof -
  have "pull_inv n" by (rule pull_run_inv [OF start_pull_inv [OF assms(1)] assms(2)])
  then have "task_ids (polled n) = task_ids (unsent n) + task_ids (abandoned n) + task_ids (taskCh (pool n)) +
      task_ids (running (pool n)) + result_ids (resultCh (pool n)) + result_ids (dropped (pool n)) +
      result_ids (acking n) + result_ids (reported n)"
    by (simp add: pull_inv_def pool_inv_def ac_simps)
  then show ?thesis by simp
qed

lemma started_node: "0 \<le> b \<Longrightarrow> \<exists>n0. start_pull b k = Some n0 \<and> poller n0 = Polling [] \<and> acker n0 = Receiving \<and>
    polled n0 = [] \<and> abandoned n0 = [] \<and> reported n0 = [] \<and>
    pool n0 = \<lparr>capacity = nat b, workers = nat k, started = True, stopped = False,
        stopCh_closed = False, taskCh = [], taskCh_closed = False, resultCh = [],
        resultCh_closed = False, sending = [], running = [], accepted = [], delivered = [],
        dropped = []\<rparr>"
  by (simp add: start_pull_def NewPool_def Worker.Start_def)

lemma node_keeps_jobs_witness:
  "\<exists>n0 n. start_pull 100 1 = Some n0 \<and> pull_run [PollTick (Inr [zero_job\<lparr>ID := ''a''\<rparr>]), PollSend] n0 = Some (PullNext n) \<and>
     task_ids (running (pool n)) = {#''a''#} \<and> result_ids (reported n) \<subseteq># task_ids (polled n)"
proof -
  obtain n0 where n0: "start_pull 100 1 = Some n0" "poller n0 = Polling []"
    "pool n0 = \<lparr>capacity = 100, workers = 1, started = True, stopped = False,
        stopCh_closed = False, taskCh = [], taskCh_closed = False, resultCh = [],
        resultCh_closed = False, sending = [], running = [], accepted = [], delivered = [], dropped = []\<rparr>"
    using started_node [of 100 1] by auto
  obtain n where n: "pull_run [PollTick (Inr [zero_job\<lparr>ID := ''a''\<rparr>]), PollSend] n0 = Some (PullNext n)"
    "task_ids (running (pool n)) = {#''a''#}"
    using n0 by (auto simp: poll_tick_def poll_send_def submit_send_def idle_worker_def poll_task_def zero_job_def)
  from node_keeps_jobs [OF n0(1) n(1)] n n0(1) show ?thesis by blast
qed

section \<open>Stopping\<close>

lemma poller_exits:
  assumes "stopCh_closed (pool n)"
  shows "\<exists>ts n'. pull_run ts n = Some (PullNext n') \<and> poller n' = PollerDone \<and> acker n' = acker n \<and> pool n' = pool n"
proof (cases "poller n")
  case (Polling us)
  then show ?thesis using assms by (intro exI [of _ "[PollStop]"]) (simp add: poll_stop_def)
next
  case PollerDone
  then show ?thesis by (intro exI [of _ "[]"]) simp
qed

lemma acker_exits:
  assumes "stopCh_closed (pool n)"
  shows "\<exists>ts n'. pull_run ts n = Some (PullNext n') \<and> acker n' = AckerDone \<and> poller n' = poller n \<and> pool n' = pool n"
proof (cases "acker n")
  case Receiving
  then show ?thesis using assms by (intro exI [of _ "[AckStop]"]) (simp add: ack_stop_def)
next
  case (Acking r)
  then show ?thesis using assms by (intro exI [of _ "[AckReturn, AckStop]"]) (simp add: ack_stop_def ack_return_def)
next
  case AckerDone
  then show ?thesis by (intro exI [of _ "[]"]) simp
qed

lemma workers_drain:
  "\<exists>ts n'. pull_run ts n = Some (PullNext n') \<and> acker n' = acker n \<and> poller n' = poller n \<and> running (pool n') = [] \<and>
     (taskCh (pool n') = [] \<or> workers (pool n') = 0) \<and> taskCh_closed (pool n') = taskCh_closed (pool n) \<and>
     resultCh_closed (pool n') = resultCh_closed (pool n)"
proof (induction "2 * length (taskCh (pool n)) + length (running (pool n))" arbitrary: n rule: less_induct)
  case less
  show ?case
  proof (cases "running (pool n)")
    case (Cons t rest)
    obtain p where p: "worker_report False t (run_task True 0 0 t) (pool n) = Some p" "running p = rest"
      "taskCh p = taskCh (pool n)" "workers p = workers (pool n)" "taskCh_closed p = taskCh_closed (pool n)"
      "resultCh_closed p = resultCh_closed (pool n)"
      using Cons by (cases "length (resultCh (pool n)) < capacity (pool n)") (simp_all add: worker_report_def Let_def)
    let ?n = "n\<lparr>pool := p\<rparr>"
    have s: "pull_run [Report False t True 0 0] n = Some (PullNext ?n)" using p(1) by (simp add: pull_report_def)
    have "2 * length (taskCh (pool ?n)) + length (running (pool ?n)) < 2 * length (taskCh (pool n)) + length (running (pool n))"
      using p(2,3) Cons by simp
    from less [OF this] obtain ts n' where "pull_run ts ?n = Some (PullNext n')" "acker n' = acker n" "poller n' = poller n"
      "running (pool n') = []" "taskCh (pool n') = [] \<or> workers (pool n') = 0"
      "taskCh_closed (pool n') = taskCh_closed (pool n)" "resultCh_closed (pool n') = resultCh_closed (pool n)"
      using p(5,6) by auto
    then show ?thesis using pull_run_append [OF s, of ts] by (intro exI [of _ "[Report False t True 0 0] @ ts"] exI [of _ n']) simp
  next
    case Nil
    show ?thesis
    proof (cases "taskCh (pool n) = [] \<or> workers (pool n) = 0")
      case True
      then show ?thesis using Nil by (intro exI [of _ "[]"]) simp
    next
      case False
      then obtain t rest where t: "taskCh (pool n) = t # rest" "0 < workers (pool n)" by (auto simp: neq_Nil_conv)
      let ?n = "n\<lparr>pool := (pool n)\<lparr>taskCh := rest, running := [t]\<rparr>\<rparr>"
      have s: "pull_run [Take] n = Some (PullNext ?n)" using t Nil by (simp add: on_pool_def worker_take_def)
      have "2 * length (taskCh (pool ?n)) + length (running (pool ?n)) < 2 * length (taskCh (pool n)) + length (running (pool n))"
        using t(1) Nil by simp
      from less [OF this] obtain ts n' where "pull_run ts ?n = Some (PullNext n')" "acker n' = acker n" "poller n' = poller n"
        "running (pool n') = []" "taskCh (pool n') = [] \<or> workers (pool n') = 0"
        "taskCh_closed (pool n') = taskCh_closed (pool n)" "resultCh_closed (pool n') = resultCh_closed (pool n)"
        by auto
      then show ?thesis using pull_run_append [OF s, of ts] by (intro exI [of _ "[Take] @ ts"] exI [of _ n']) simp
    qed
  qed
qed

text \<open>C27. \<open>Stop\<close> of a worker node cannot deadlock. From every state a run can reach after \<open>Stop\<close> has
  closed the channels, whatever the poller, the workers and the acknowledger are doing, the goroutines
  can all finish without a panic, and \<open>Stop\<close> then closes the result channel and returns.\<close>

theorem node_stop_completes:
  assumes "start_pull b k = Some n0" and "pull_run ss n0 = Some (PullNext n)" and "taskCh_closed (pool n)"
  shows "\<exists>ts n'. pull_run ts n = Some (PullNext n') \<and> resultCh_closed (pool n') \<and> running (pool n') = []"
proof (cases "resultCh_closed (pool n)")
  case True
  have "pull_inv n" by (rule pull_run_inv [OF start_pull_inv [OF assms(1)] assms(2)])
  then show ?thesis using True by (intro exI [of _ "[]"]) (simp add: pull_inv_def pool_inv_def)
next
  case False
  have inv: "pull_inv n" by (rule pull_run_inv [OF start_pull_inv [OF assms(1)] assms(2)])
  then have stop: "stopCh_closed (pool n)" using assms(3) by (simp add: pull_inv_def pool_inv_def)
  obtain t1 n1 where n1: "pull_run t1 n = Some (PullNext n1)" "poller n1 = PollerDone" "pool n1 = pool n"
    using poller_exits [OF stop] by blast
  obtain t2 n2 where n2: "pull_run t2 n1 = Some (PullNext n2)" "acker n2 = AckerDone" "poller n2 = PollerDone" "pool n2 = pool n"
    using acker_exits [of n1] n1 stop by auto
  obtain t3 n3 where n3: "pull_run t3 n2 = Some (PullNext n3)" "acker n3 = AckerDone" "poller n3 = PollerDone"
    "running (pool n3) = []" "taskCh (pool n3) = [] \<or> workers (pool n3) = 0" "taskCh_closed (pool n3)" "\<not> resultCh_closed (pool n3)"
    using workers_drain [of n2] n2(2-4) assms(3) False by auto
  have "pull_run [StopWait] n3 = Some (PullNext (n3\<lparr>pool := (pool n3)\<lparr>resultCh_closed := True\<rparr>\<rparr>))"
    using n3 by (simp add: pull_wait_def on_pool_def stop_wait_def)
  then have "pull_run (t1 @ t2 @ t3 @ [StopWait]) n = Some (PullNext (n3\<lparr>pool := (pool n3)\<lparr>resultCh_closed := True\<rparr>\<rparr>))"
    by (simp add: pull_run_append [OF n1(1)] pull_run_append [OF n2(1)] pull_run_append [OF n3(1)])
  then show ?thesis using n3(4) by (intro exI conjI) (assumption | simp)+
qed

lemma node_stop_completes_witness:
  "\<exists>n0 n ts n'. start_pull 100 2 = Some n0 \<and>
     pull_run [PollTick (Inr [zero_job\<lparr>ID := ''a''\<rparr>]), PollSend, StopFlag, StopSignal, StopClose] n0 = Some (PullNext n) \<and>
     pull_run ts n = Some (PullNext n') \<and> resultCh_closed (pool n')"
proof -
  obtain n0 where n0: "start_pull 100 2 = Some n0" "poller n0 = Polling []"
    "pool n0 = \<lparr>capacity = 100, workers = 2, started = True, stopped = False,
        stopCh_closed = False, taskCh = [], taskCh_closed = False, resultCh = [],
        resultCh_closed = False, sending = [], running = [], accepted = [], delivered = [], dropped = []\<rparr>"
    using started_node [of 100 2] by auto
  obtain n where n: "pull_run [PollTick (Inr [zero_job\<lparr>ID := ''a''\<rparr>]), PollSend, StopFlag, StopSignal, StopClose] n0 = Some (PullNext n)"
    "taskCh_closed (pool n)"
    using n0 by (auto simp: poll_tick_def poll_send_def submit_send_def idle_worker_def poll_task_def zero_job_def
        on_pool_def stop_flag_def stop_signal_def stop_close_def)
  from node_stop_completes [OF n0(1) n] n(1) n0(1) show ?thesis by blast
qed

text \<open>But it can crash. The poller sends polled jobs on the task channel without a check, and \<open>Stop\<close> closes
  that channel while the poller runs; with both cases of the \<open>select\<close> ready the runtime may take the
  send. So a node of any size that is stopped while it has a polled job to send may panic.\<close>

theorem poller_can_panic_on_stop:
  assumes "0 \<le> b"
  shows "\<exists>n0 n. start_pull b k = Some n0 \<and>
    pull_run [PollTick (Inr [j]), StopFlag, StopSignal, StopClose] n0 = Some (PullNext n) \<and> pull_run [PollSend] n = Some PullPanic \<and>
    (\<exists>n'. pull_run [PollStop] n = Some (PullNext n'))"
proof -
  obtain n0 where n0: "start_pull b k = Some n0" "poller n0 = Polling []"
    "started (pool n0)" "\<not> stopped (pool n0)" "\<not> taskCh_closed (pool n0)" "\<not> stopCh_closed (pool n0)"
    using started_node [OF assms, of k] by auto
  let ?n = "n0\<lparr>poller := Polling [poll_task j], polled := poll_task j # polled n0,
      pool := (pool n0)\<lparr>stopped := True, stopCh_closed := True, taskCh_closed := True\<rparr>\<rparr>"
  have "pull_run [PollTick (Inr [j]), StopFlag, StopSignal, StopClose] n0 = Some (PullNext ?n)"
    using n0 by (simp add: poll_tick_def on_pool_def stop_flag_def stop_signal_def stop_close_def)
  moreover have "pull_run [PollSend] ?n = Some PullPanic" by (simp add: poll_send_def submit_send_def)
  moreover have "pull_run [PollStop] ?n = Some (PullNext (?n\<lparr>poller := PollerDone, abandoned := poll_task j # abandoned n0\<rparr>))"
    by (simp add: poll_stop_def)
  ultimately show ?thesis using n0(1) by blast
qed

lemma poller_can_panic_on_stop_witness:
  "\<exists>n0 n. start_pull 100 8 = Some n0 \<and>
    pull_run [PollTick (Inr [zero_job]), StopFlag, StopSignal, StopClose] n0 = Some (PullNext n) \<and> pull_run [PollSend] n = Some PullPanic"
  using poller_can_panic_on_stop [of 100 8 zero_job] by fastforce

section \<open>A job on a remote worker\<close>

lemma fresh_node_polls:
  assumes "start_pull b k = Some n0" and "0 < k"
    and "raftNode s = None" and "jm_ok (mgr (controller s))" and "wal_live (wal (controller s))"
    and "\<not> ctl_stopped (controller s)" and "queue (mgr (controller s)) = [i]" and "job_view (mgr (controller s)) i = Some j"
    and "Timeout j = 1000000 * ms" and "0 \<le> Timeout j" and "Timeout j < 2 ^ 63"
  shows "\<exists>c n1 n2 t. node_poll src RpcOk (\<lambda>_. FlushOk) now (s, n0) = Some (s\<lparr>controller := c\<rparr>, n1) \<and>
    jm_ok (mgr c) \<and> wal_live (wal c) \<and> job_status (mgr c) i = Some StatusInFlight \<and>
    pull_run [PollSend] n1 = Some (PullNext n2) \<and> poller n2 = Polling [] \<and> acker n2 = Receiving \<and> reported n2 = [] \<and>
    t = \<lparr>TaskID = i, TaskPayload = json_payload (Payload j), TaskLimit = Timeout j\<rparr> \<and>
    pool n2 = \<lparr>capacity = nat b, workers = nat k, started = True, stopped = False,
        stopCh_closed = False, taskCh = [], taskCh_closed = False, resultCh = [],
        resultCh_closed = False, sending = [], running = [t], accepted = [t], delivered = [], dropped = []\<rparr>"
proof -
  let ?t = "\<lparr>TaskID = i, TaskPayload = json_payload (Payload j), TaskLimit = Timeout j\<rparr>"
  have b: "0 \<le> b" using assms(1) by (simp add: start_pull_def NewPool_def split: if_splits)
  have n0: "poller n0 = Polling []" "acker n0 = Receiving" "reported n0 = []"
    "pool n0 = \<lparr>capacity = nat b, workers = nat k, started = True, stopped = False,
        stopCh_closed = False, taskCh = [], taskCh_closed = False, resultCh = [],
        resultCh_closed = False, sending = [], running = [], accepted = [], delivered = [], dropped = []\<rparr>"
    using started_node [OF b, of k] assms(1) by auto
  let ?k = "j\<lparr>Status := StatusInFlight, Deadline := Some (now + TaskTimeout (config (controller s))), UpdatedAt := now\<rparr>"
  obtain c where c: "grpc_Poll src RpcOk (\<lambda>_. FlushOk) now batchSize s =
      Some (Inr [job_of_pb (pb_job (workerID src) ?k)], s\<lparr>controller := c\<rparr>)"
    "jm_ok (mgr c)" "wal_live (wal c)" "job_status (mgr c) i = Some StatusInFlight"
    using poll_one [OF assms(3-8), of batchSize src now] by (auto simp: batchSize_def)
  have "ID j = i"
    using assms(4,8) named_ID [OF jm_ok_D(2) [OF assms(4)]] by (auto simp: job_view_def)
  moreover have "wrap64 (Milliseconds (Timeout j) * 1000000) = Timeout j"
    using assms(9-11) by (simp add: Milliseconds_def wrap64_id)
  ultimately have t: "poll_task (job_of_pb (pb_job (workerID src) ?k)) = ?t"
    by (simp add: poll_task_def job_of_pb_def pb_job_def payload_wire)
  let ?n1 = "n0\<lparr>poller := Polling [?t], polled := ?t # polled n0\<rparr>"
  let ?n2 = "?n1\<lparr>pool := (pool n0)\<lparr>running := [?t], accepted := [?t]\<rparr>, poller := Polling []\<rparr>"
  have "node_poll src RpcOk (\<lambda>_. FlushOk) now (s, n0) = Some (s\<lparr>controller := c\<rparr>, ?n1)"
    using c(1) n0(1) t by (simp add: node_poll_def poll_tick_def)
  moreover have "pull_run [PollSend] ?n1 = Some (PullNext ?n2)"
    using n0(4) assms(2) by (simp add: poll_send_def submit_send_def idle_worker_def)
  ultimately show ?thesis using c(2-4) n0
    by (intro exI [of _ c] exI [of _ ?n1] exI [of _ ?n2] exI [of _ ?t]) simp
qed

text \<open>C21. A remote worker does the job. On a running standalone server with a working log and a well-formed job
  manager, whose queue holds one job, a fresh worker node polls it, one of its workers runs it, and if the attempt ends within the job's timeout (whole
  milliseconds), its acknowledgement makes the job complete on the server.\<close>

theorem remote_worker_completes_job:
  assumes "start_pull b k = Some n0" and "0 < k"
    and "raftNode s = None" and "jm_ok (mgr (controller s))" and "wal_live (wal (controller s))"
    and "\<not> ctl_stopped (controller s)" and "queue (mgr (controller s)) = [i]" and "job_view (mgr (controller s)) i = Some j"
    and "Timeout j = 1000000 * ms" and "0 \<le> Timeout j" and "Timeout j < 2 ^ 63"
    and "execute tie rnd (Timeout j) (json_payload (Payload j))"
  shows "\<exists>s1 n1 t n2 s2 n3. node_poll src RpcOk (\<lambda>_. FlushOk) t1 (s, n0) = Some (s1, n1) \<and>
    pull_run [PollSend, Report True t tie rnd elapsed] n1 = Some (PullNext n2) \<and>
    node_ack RpcOk enc FlushOk t2 (s1, n2) = Some (s2, n3) \<and>
    job_status (mgr (controller s2)) i = Some StatusCompleted \<and> map ResultID (reported n3) = [i]"
proof -
  obtain c n1 n2 t where p: "node_poll src RpcOk (\<lambda>_. FlushOk) t1 (s, n0) = Some (s\<lparr>controller := c\<rparr>, n1)"
    "jm_ok (mgr c)" "wal_live (wal c)" "job_status (mgr c) i = Some StatusInFlight" "pull_run [PollSend] n1 = Some (PullNext n2)"
    "acker n2 = Receiving" "reported n2 = []" "t = \<lparr>TaskID = i, TaskPayload = json_payload (Payload j), TaskLimit = Timeout j\<rparr>"
    "running (pool n2) = [t]" "resultCh (pool n2) = []"
    using fresh_node_polls [OF assms(1-11), of src t1] by (elim exE conjE) (rule that, assumption+, simp_all)
  let ?r = "run_task tie rnd elapsed t"
  have r: "ResultID ?r = i" "Success ?r" using assms(12) by (simp_all add: p(8) run_task_def)
  let ?n3 = "n2\<lparr>pool := (pool n2)\<lparr>running := [], delivered := ?r # delivered (pool n2)\<rparr>, acker := Acking ?r\<rparr>"
  have "pull_run [Report True t tie rnd elapsed] n2 = Some (PullNext ?n3)"
    using p(6,9,10) by (simp add: pull_report_def worker_report_def)
  then have run: "pull_run [PollSend, Report True t tie rnd elapsed] n1 = Some (PullNext ?n3)"
    using pull_run_append [OF p(5), of "[Report True t tie rnd elapsed]"] by simp
  obtain c2 where "grpc_Acknowledge RpcOk enc FlushOk t2 i StatusCompleted (s\<lparr>controller := c\<rparr>) = Some (None, s\<lparr>controller := c2\<rparr>)"
    "job_status (mgr c2) i = Some StatusCompleted"
    using acknowledge_standalone [of "s\<lparr>controller := c\<rparr>" i enc t2] assms(3) p(2-4) by auto
  then have "node_ack RpcOk enc FlushOk t2 (s\<lparr>controller := c\<rparr>, ?n3) =
      Some (s\<lparr>controller := c2\<rparr>, ?n3\<lparr>acker := Receiving, reported := [?r]\<rparr>)"
    "job_status (mgr (controller (s\<lparr>controller := c2\<rparr>))) i = Some StatusCompleted"
    using r p(7) by (simp_all add: node_ack_def ack_return_def ack_status_def)
  then show ?thesis using p(1) run r(1)
    by (intro exI [of _ "s\<lparr>controller := c\<rparr>"] exI [of _ n1] exI [of _ t] exI [of _ ?n3] exI [of _ "s\<lparr>controller := c2\<rparr>"]
        exI [of _ "?n3\<lparr>acker := Receiving, reported := [?r]\<rparr>"]) simp
qed

text \<open>A sample server with one submitted job, of five milliseconds.\<close>

lemma sample_server:
  "\<exists>(s :: Server) (j :: Job). raftNode s = None \<and> jm_ok (mgr (controller s)) \<and> wal_live (wal (controller s)) \<and> \<not> ctl_stopped (controller s) \<and>
    queue (mgr (controller s)) = [''a''] \<and> job_view (mgr (controller s)) ''a'' = Some j \<and> Timeout j = 1000000 * 5 \<and>
    execute True 1 (Timeout j) (json_payload (Payload j))"
proof -
  obtain b :: Controller where b: "mgr b = NewJobManager" "wal_live (wal b)" "\<not> ctl_stopped b" using sample_boot by blast
  let ?s = "NewServer b None" and ?j = "submitted_job 1 2 Map.empty sample_request"
  have h: "raftNode ?s = None" "jm_ok (mgr (controller ?s))" "wal_live (wal (controller ?s))"
    "unmarshal (reqPayload sample_request) = Some Map.empty" "jobs (mgr (controller ?s)) (ID ?j) = None"
    using b NewJobManager_ok by (simp_all add: NewServer_def NewJobManager_def sample_request_def unmarshal_def)
  obtain c :: Controller where "jm_ok (mgr c)" "wal_live (wal c)" "ctl_stopped c = ctl_stopped b" "queue (mgr c) = [''a'']"
    "job_view (mgr c) ''a'' = Some ?j"
    using submit_standalone [OF h, where enc = "\<lambda>_. []"] b by (auto simp: NewServer_def NewJobManager_def submitted_job_def sample_request_def)
  moreover have "Timeout ?j = 1000000 * 5" "execute True 1 (Timeout ?j) (json_payload (Payload ?j))"
    by (simp_all add: submitted_job_def sample_request_def wrap64_def execute_def work_duration_def json_payload_def Let_def)
  ultimately show ?thesis using b(3)
    by (intro exI [of _ "NewServer c None"] exI [of _ ?j]) (simp add: NewServer_def)
qed

lemma remote_worker_completes_job_witness:
  "\<exists>s n0 s1 n1 t n2 s2 n3. start_pull 100 1 = Some n0 \<and>
    node_poll \<lparr>workerID = ''w'', workerAddr = ''x''\<rparr> RpcOk (\<lambda>_. FlushOk) 3 (s, n0) = Some (s1, n1) \<and>
    pull_run [PollSend, Report True t True 1 7] n1 = Some (PullNext n2) \<and>
    node_ack RpcOk (\<lambda>_. []) FlushOk 4 (s1, n2) = Some (s2, n3) \<and> job_status (mgr (controller s2)) ''a'' = Some StatusCompleted"
proof -
  obtain s :: Server and j :: Job where s: "raftNode s = None" "jm_ok (mgr (controller s))" "wal_live (wal (controller s))" "\<not> ctl_stopped (controller s)"
    "queue (mgr (controller s)) = [''a'']" "job_view (mgr (controller s)) ''a'' = Some j" "Timeout j = 1000000 * 5"
    "execute True 1 (Timeout j) (json_payload (Payload j))" using sample_server by blast
  have t: "0 \<le> Timeout j" "Timeout j < 2 ^ 63" using s(7) by simp_all
  obtain n0 where n0: "start_pull 100 1 = Some n0" using started_node [of 100 1] by auto
  from remote_worker_completes_job [OF n0 zero_less_one s(1-7) t s(8), of "\<lparr>workerID = ''w'', workerAddr = ''x''\<rparr>" 3 7 "\<lambda>_. []" 4] n0
  show ?thesis by blast
qed

text \<open>A stop may throw the result away. The same job is run to its successful end, the result is in the
  result channel, then the node is stopped: the acknowledger may see the stop first and exits, \<open>Stop\<close>
  closes the channel and returns, and the server, never told, has the job in flight.\<close>

theorem stopped_node_loses_result:
  assumes "start_pull b k = Some n0" and "0 < k"
    and "raftNode s = None" and "jm_ok (mgr (controller s))" and "wal_live (wal (controller s))"
    and "\<not> ctl_stopped (controller s)" and "queue (mgr (controller s)) = [i]" and "job_view (mgr (controller s)) i = Some j"
    and "Timeout j = 1000000 * ms" and "0 \<le> Timeout j" and "Timeout j < 2 ^ 63"
    and "execute tie rnd (Timeout j) (json_payload (Payload j))" and "0 < b"
  shows "\<exists>s1 n1 t n2. node_poll src RpcOk (\<lambda>_. FlushOk) t1 (s, n0) = Some (s1, n1) \<and>
    pull_run [PollSend, Report False t tie rnd elapsed, StopFlag, StopSignal, StopClose, PollStop, AckStop, StopWait] n1 = Some (PullNext n2) \<and>
    map (\<lambda>r. (ResultID r, Success r)) (resultCh (pool n2)) = [(i, True)] \<and> resultCh_closed (pool n2) \<and> reported n2 = [] \<and>
    job_status (mgr (controller s1)) i = Some StatusInFlight"
proof -
  obtain c n1 n2 t where p: "node_poll src RpcOk (\<lambda>_. FlushOk) t1 (s, n0) = Some (s\<lparr>controller := c\<rparr>, n1)"
    "job_status (mgr c) i = Some StatusInFlight" "pull_run [PollSend] n1 = Some (PullNext n2)" "poller n2 = Polling []"
    "acker n2 = Receiving" "reported n2 = []" "t = \<lparr>TaskID = i, TaskPayload = json_payload (Payload j), TaskLimit = Timeout j\<rparr>"
    "pool n2 = \<lparr>capacity = nat b, workers = nat k, started = True, stopped = False,
        stopCh_closed = False, taskCh = [], taskCh_closed = False, resultCh = [],
        resultCh_closed = False, sending = [], running = [t], accepted = [t], delivered = [], dropped = []\<rparr>"
    using fresh_node_polls [OF assms(1-11), of src t1] by (elim exE conjE) (rule that, assumption+)
  let ?r = "run_task tie rnd elapsed t"
  have r: "ResultID ?r = i" "Success ?r" using assms(12) by (simp_all add: p(7) run_task_def)
  let ?n3 = "n2\<lparr>pool := (pool n2)\<lparr>running := [], resultCh := [?r], stopped := True, stopCh_closed := True, taskCh_closed := True,
      resultCh_closed := True\<rparr>, poller := PollerDone, acker := AckerDone\<rparr>"
  have "pull_run [Report False t tie rnd elapsed, StopFlag, StopSignal, StopClose, PollStop, AckStop, StopWait] n2 = Some (PullNext ?n3)"
    using p(4,5,8) assms(13) by (simp add: pull_report_def worker_report_def on_pool_def stop_flag_def stop_signal_def stop_close_def stop_wait_def
        poll_stop_def ack_stop_def pull_wait_def)
  then have "pull_run [PollSend, Report False t tie rnd elapsed, StopFlag, StopSignal, StopClose, PollStop, AckStop, StopWait] n1 = Some (PullNext ?n3)"
    using pull_run_append [OF p(3), of "[Report False t tie rnd elapsed, StopFlag, StopSignal, StopClose, PollStop, AckStop, StopWait]"] by simp
  then show ?thesis using p(1,2,6) r
    by (intro exI [of _ "s\<lparr>controller := c\<rparr>"] exI [of _ n1] exI [of _ t] exI [of _ ?n3]) simp
qed

lemma stopped_node_loses_result_witness:
  "\<exists>s n0 s1 n1 t n2. start_pull 100 1 = Some n0 \<and>
    node_poll \<lparr>workerID = ''w'', workerAddr = ''x''\<rparr> RpcOk (\<lambda>_. FlushOk) 3 (s, n0) = Some (s1, n1) \<and>
    pull_run [PollSend, Report False t True 1 7, StopFlag, StopSignal, StopClose, PollStop, AckStop, StopWait] n1 = Some (PullNext n2) \<and>
    reported n2 = [] \<and> job_status (mgr (controller s1)) ''a'' = Some StatusInFlight"
proof -
  obtain s :: Server and j :: Job where s: "raftNode s = None" "jm_ok (mgr (controller s))" "wal_live (wal (controller s))" "\<not> ctl_stopped (controller s)"
    "queue (mgr (controller s)) = [''a'']" "job_view (mgr (controller s)) ''a'' = Some j" "Timeout j = 1000000 * 5"
    "execute True 1 (Timeout j) (json_payload (Payload j))" using sample_server by blast
  have t: "0 \<le> Timeout j" "Timeout j < 2 ^ 63" "(0::int) < 100" using s(7) by simp_all
  obtain n0 where n0: "start_pull 100 1 = Some n0" using started_node [of 100 1] by auto
  from stopped_node_loses_result [OF n0 zero_less_one s(1-7) t(1,2) s(8) t(3), of "\<lparr>workerID = ''w'', workerAddr = ''x''\<rparr>" 3 7] n0
  show ?thesis by blast
qed

end
