(* ===== verification/Cli.thy ===== *)
theory Cli
  imports WorkerNode
begin

text \<open>
  The command line of \<open>internal/cli/cli.go\<close>: the configuration and what the controller gets of it, the
  commands \<open>run\<close> in its three modes, \<open>enqueue\<close> in its two, and \<open>status\<close>. The files, the YAML decoder and the
  network's answers are arguments; printing, the metrics endpoint and the wait for a signal are left
  out.
\<close>

section \<open>Configuration\<close>

text \<open>The fields of the file, 0 where it has no such key. \<open>cfgTaskTimeout\<close> is in milliseconds.\<close>

record CliConfig =
  cfgWorkerCount :: int
  cfgTaskTimeout :: int
  cfgWalDir :: string
  cfgMaxSegmentSize :: int
  cfgSyncInterval :: int
  cfgRetentionSeconds :: int
  cfgBufferSize :: int
  cfgFlushIntervalMs :: int
  cfgSnapDir :: string
  cfgIntervalSeconds :: int
  cfgRetentionCount :: int
  cfgMetricsEnabled :: bool
  cfgMetricsPort :: int

datatype cli_error = ConfigUnreadable | ConfigUnparsable | NoMasterAddress | ConnectFailed | JobFileUnreadable
  | JobFileUnparsable | StartFailed gerror | ListenFailed | LocalEnqueueFailed gerror

definition loadConfig :: "(string \<Rightarrow> string option) \<Rightarrow> (string \<Rightarrow> CliConfig option) \<Rightarrow> string \<Rightarrow> cli_error + CliConfig" where
  "loadConfig readFile yaml path =
     (case readFile path of
        None \<Rightarrow> Inl ConfigUnreadable
      | Some text \<Rightarrow> (case yaml text of None \<Rightarrow> Inl ConfigUnparsable | Some cfg \<Rightarrow> Inr cfg))"

definition controller_config :: "CliConfig \<Rightarrow> bool \<Rightarrow> Config" where
  "controller_config cfg disableDispatch =
     \<lparr>WorkerCount = nat (cfgWorkerCount cfg), TaskTimeout = cfgTaskTimeout cfg, MaxRetry = 3,
      WALBufferSize = cfgBufferSize cfg, WALFlushInterval = wrap64 (cfgFlushIntervalMs cfg * 1000000),
      SnapshotInterval = wrap64 (cfgIntervalSeconds cfg * 1000000000), DisableDispatchLoop = disableDispatch\<rparr>"

section \<open>run\<close>

text \<open>What the configured paths hold.\<close>

record Disk =
  disk_wal :: "wal_line list option"
  disk_snap :: SnapFS

datatype outcome = Panics | Fails cli_error | ControllerRuns Controller "Server option" | WorkerRuns GrpcJobSource PullPool

text \<open>
  \<open>NewController\<close> panics on a negative buffer size, and the snapshot loop, which \<open>Start\<close> has started as a
  goroutine, panics in \<open>time.NewTicker\<close> on an interval that is not positive. The master's server gets no
  Raft node. \<open>unreadable\<close>, \<open>ord\<close>, \<open>ord'\<close> and \<open>now\<close> are those of \<open>Start\<close>.
\<close>

definition runControllerNode ::
  "CliConfig \<Rightarrow> string \<Rightarrow> bool \<Rightarrow> bool \<Rightarrow> JobID list \<Rightarrow> JobID list \<Rightarrow> int \<Rightarrow> Disk \<Rightarrow> outcome" where
  "runControllerNode cfg mode listens unreadable ord ord' now disk =
     (case NewController (disk_wal disk) (disk_snap disk) (controller_config cfg (mode = ''master'')) of
        None \<Rightarrow> Panics
      | Some ctrl \<Rightarrow>
          (case Controller.Start unreadable ord ord' now ctrl of
             Inl err \<Rightarrow> Fails (StartFailed err)
           | Inr c \<Rightarrow>
               if SnapshotInterval (config c) \<le> 0 then Panics
               else if mode = ''master''
                 then (if listens then ControllerRuns c (Some (NewServer c None)) else Fails ListenFailed)
               else ControllerRuns c None))"

definition runWorkerNode :: "CliConfig \<Rightarrow> string \<Rightarrow> bool \<Rightarrow> int \<Rightarrow> outcome" where
  "runWorkerNode cfg masterAddr connects nanos =
     (if masterAddr = [] then Fails NoMasterAddress
      else if \<not> connects then Fails ConnectFailed
      else case start_pull 100 (cfgWorkerCount cfg) of
             None \<Rightarrow> Panics
           | Some n \<Rightarrow> WorkerRuns \<lparr>workerID = ''worker-'' @ digits (nat nanos), workerAddr = []\<rparr> n)"

definition runSystem ::
  "cli_error + CliConfig \<Rightarrow> string \<Rightarrow> string \<Rightarrow> bool \<Rightarrow> bool \<Rightarrow> int \<Rightarrow> bool \<Rightarrow> JobID list \<Rightarrow> JobID list \<Rightarrow> int \<Rightarrow> Disk \<Rightarrow> outcome" where
  "runSystem loaded mode masterAddr connects listens nanos unreadable ord ord' now disk =
     (case loaded of
        Inl err \<Rightarrow> Fails err
      | Inr cfg \<Rightarrow>
          if mode = ''worker'' then runWorkerNode cfg masterAddr connects nanos
          else runControllerNode cfg mode listens unreadable ord ord' now disk)"

section \<open>enqueue\<close>

text \<open>An object of the job file; a payload that is missing or \<open>null\<close> is a nil map.\<close>

record JobInput =
  inID :: string
  inPayload :: "payload option"
  inTimeout :: int

definition cli_request :: "JobInput \<Rightarrow> SubmitJobRequest" where
  "cli_request j =
     \<lparr>reqJobId = inID j, reqPayload = (case inPayload j of None \<Rightarrow> JsonNull | Some p \<Rightarrow> marshal p), reqTimeoutMs = inTimeout j\<rparr>"

text \<open>
  The remote mode: one call per job, in the order of the file; a call that fails or is refused is
  logged and the loop goes on. \<open>calls k\<close> is what call \<open>k\<close> meets: the network, the server's log, its clock.
  The loop returns the number of successes. A server without a Raft node does not panic; \<^term>\<open>None\<close> is a
  panic of its Raft node.
\<close>

type_synonym call_io = "rpc \<times> (nat \<Rightarrow> flush_io) \<times> int \<times> int"

fun submit_all ::
  "(raft_command \<Rightarrow> command) \<Rightarrow> (nat \<Rightarrow> call_io) \<Rightarrow> nat \<Rightarrow> JobInput list \<Rightarrow> nat \<Rightarrow> Server \<Rightarrow> (nat \<times> Server) option" where
  "submit_all enc calls k [] successCount s = Some (successCount, s)"
| "submit_all enc calls k (j # js) successCount s =
     (case calls k of (r, io, now, nanos) \<Rightarrow>
        if r = RpcLost then submit_all enc calls (Suc k) js successCount s
        else case SubmitJob enc io now nanos (cli_request j) s of
               None \<Rightarrow> None
             | Some (answer, s') \<Rightarrow>
                 submit_all enc calls (Suc k) js
                   (if r = RpcOk \<and> \<not> isl answer then Suc successCount else successCount) s')"

definition enqueueRemote ::
  "bool \<Rightarrow> (raft_command \<Rightarrow> command) \<Rightarrow> (nat \<Rightarrow> call_io) \<Rightarrow> JobInput list \<Rightarrow> Server \<Rightarrow> (cli_error option \<times> nat \<times> Server) option" where
  "enqueueRemote connects enc calls js s =
     (if \<not> connects then Some (Some ConnectFailed, 0, s)
      else map_option (Pair None) (submit_all enc calls 0 js 0 s))"

definition local_job :: "JobInput \<Rightarrow> Job" where
  "local_job j =
     zero_job\<lparr>ID := inID j, Payload := (case inPayload j of None \<Rightarrow> Map.empty | Some p \<Rightarrow> p),
       Timeout := wrap64 (inTimeout j * 1000000)\<rparr>"

text \<open>
  The local mode: a controller of this process, created when there is none (\<open>global\<close> is the variable
  \<open>globalCtrl\<close>). \<^term>\<open>None\<close> is a panic. The new controller is stored before it is started.
\<close>

definition local_controller ::
  "cli_error + CliConfig \<Rightarrow> bool \<Rightarrow> JobID list \<Rightarrow> JobID list \<Rightarrow> int \<Rightarrow> Disk \<Rightarrow> Controller option \<Rightarrow>
     (cli_error option \<times> Controller option) option" where
  "local_controller loaded unreadable ord ord' now disk global =
     (case global of
        Some c \<Rightarrow> Some (None, Some c)
      | None \<Rightarrow>
          (case loaded of
             Inl err \<Rightarrow> Some (Some err, None)
           | Inr cfg \<Rightarrow>
               (case NewController (disk_wal disk) (disk_snap disk) (controller_config cfg False) of
                  None \<Rightarrow> None
                | Some ctrl \<Rightarrow>
                    (case Controller.Start unreadable ord ord' now ctrl of
                       Inl err \<Rightarrow> Some (Some (StartFailed err), Some ctrl)
                     | Inr c \<Rightarrow> Some (None, Some c)))))"

definition enqueueLocal ::
  "(nat \<Rightarrow> flush_io) \<Rightarrow> int \<Rightarrow> JobInput list \<Rightarrow> (cli_error option \<times> Controller option) option \<Rightarrow>
     (cli_error option \<times> Controller option) option" where
  "enqueueLocal io now js booted =
     (case booted of
        None \<Rightarrow> None
      | Some (Some err, g) \<Rightarrow> Some (Some err, g)
      | Some (None, None) \<Rightarrow> None
      | Some (None, Some c) \<Rightarrow>
          (case EnqueueJobs io now (map local_job js) c of
             (Some err, c') \<Rightarrow> Some (Some (LocalEnqueueFailed err), Some c')
           | (None, c') \<Rightarrow> Some (None, Some c')))"

section \<open>status\<close>

text \<open>The numbers \<open>showStatus\<close> prints, when this process has a controller: the statistics and their sum.\<close>

definition showStatus :: "cli_error + CliConfig \<Rightarrow> Controller option \<Rightarrow> cli_error + (CliConfig \<times> (JobStats \<times> nat) option)" where
  "showStatus loaded global =
     (case loaded of
        Inl err \<Rightarrow> Inl err
      | Inr cfg \<Rightarrow>
          Inr (cfg, map_option (\<lambda>c. let stats = GetStats c
                 in (stats, pending_count stats + in_flight_count stats + completed_count stats + dead_count stats)) global))"

end
