(* ===== verification/CliProps.thy ===== *)
theory CliProps
  imports Cli
begin

text \<open>
  The commands end to end: what a remote submission does to the server's queue, what becomes of jobs
  enqueued by a local command, and which configurations cannot run.
\<close>

section \<open>Configurations\<close>

text \<open>A configuration the process survives with: a buffer size that is not negative, and a number of seconds
  between snapshots whose nanoseconds are positive as a 64-bit integer.\<close>

definition runnable :: "CliConfig \<Rightarrow> bool" where
  "runnable cfg \<longleftrightarrow> 0 \<le> cfgBufferSize cfg \<and> 0 < wrap64 (cfgIntervalSeconds cfg * 1000000000)"

lemma NewController_cases:
  "NewController f fs cc = (if WALBufferSize cc < 0 then None
     else Some \<lparr>mgr = NewJobManager, wal = NewWAL f (if WALBufferSize cc = 0 then 100 else WALBufferSize cc)
         (if WALFlushInterval cc \<le> 0 then 10000000 else WALFlushInterval cc),
       snap = fs, config = cc, ctl_stopped = False, raftEnabled = False, ctl_running = False, submitted = []\<rparr>)"
  by (simp add: NewController_def NewPool_def Let_def)

lemma Start_config: "Controller.Start u ord ord' now c = Inr c' \<Longrightarrow> config c' = config c \<and> ctl_stopped c' = ctl_stopped c \<and> wal c' = wal c"
  by (auto simp: Controller.Start_def recover_def loadSnapshot_def replayWAL_def res_bind_def split: sum.splits prod.splits option.splits)

text \<open>The configuration file decides whether a controller process lives. In every mode but the worker's, with
  any files on the disk, the process runs on only with a runnable configuration; in particular a file
  that leaves out \<open>interval_seconds\<close>, sets it to 0 or below, or to 9223372037 crashes it right after its start.\<close>

theorem unrunnable_config_crashes:
  assumes "mode \<noteq> ''worker''" and "\<not> runnable cfg"
  shows "\<exists>err. runSystem (Inr cfg) mode addr connects listens nanos u ord ord' now disk \<in> {Panics, Fails (StartFailed err)}"
proof (cases "cfgBufferSize cfg < 0")
  case True
  then show ?thesis using assms(1)
    by (simp add: runSystem_def runControllerNode_def NewController_cases controller_config_def)
next
  case False
  let ?cc = "controller_config cfg (mode = ''master'')"
  obtain ctrl where ctrl: "NewController (disk_wal disk) (disk_snap disk) ?cc = Some ctrl" "config ctrl = ?cc"
    using False by (simp add: NewController_cases controller_config_def)
  have iv: "SnapshotInterval ?cc \<le> 0" using assms(2) False by (simp add: runnable_def controller_config_def)
  show ?thesis
  proof (cases "Controller.Start u ord ord' now ctrl")
    case (Inl err)
    then show ?thesis using assms(1) ctrl(1) by (simp add: runSystem_def runControllerNode_def)
  next
    case (Inr c)
    then show ?thesis using Start_config [OF Inr] assms(1) ctrl iv by (simp add: runSystem_def runControllerNode_def)
  qed
qed

definition sample_cli :: CliConfig where
  "sample_cli = \<lparr>cfgWorkerCount = 2, cfgTaskTimeout = 10000, cfgWalDir = ''w'', cfgMaxSegmentSize = 0, cfgSyncInterval = 0,
     cfgRetentionSeconds = 0, cfgBufferSize = 100, cfgFlushIntervalMs = 10, cfgSnapDir = ''s'', cfgIntervalSeconds = 10,
     cfgRetentionCount = 5, cfgMetricsEnabled = False, cfgMetricsPort = 0\<rparr>"

lemma unrunnable_config_crashes_witness:
  "(\<exists>err. runSystem (Inr (sample_cli\<lparr>cfgIntervalSeconds := 0\<rparr>)) ''standalone'' [] True True 0 False [] [] 1
     \<lparr>disk_wal = None, disk_snap = sample_fs\<rparr> \<in> {Panics, Fails (StartFailed err)}) \<and>
   \<not> runnable (sample_cli\<lparr>cfgIntervalSeconds := 9223372037\<rparr>) \<and> runnable sample_cli"
proof -
  have r: "\<not> runnable (sample_cli\<lparr>cfgIntervalSeconds := 0\<rparr>)" "\<not> runnable (sample_cli\<lparr>cfgIntervalSeconds := 9223372037\<rparr>)"
    "runnable sample_cli"
    by (simp_all add: runnable_def sample_cli_def wrap64_def)
  then show ?thesis using unrunnable_config_crashes [OF _ r(1), of "''standalone''"] by simp
qed

section \<open>Submitting to a master\<close>

lemma cli_request_payload: "\<exists>p. unmarshal (reqPayload (cli_request j)) = Some p"
proof (cases "inPayload j")
  case None
  then show ?thesis by (simp add: cli_request_def unmarshal_def)
next
  case (Some p)
  then show ?thesis by (simp add: cli_request_def payload_wire)
qed

lemma submit_all_bound:
  "submit_all enc calls k js n s = Some (m, s') \<Longrightarrow> n \<le> m \<and> m \<le> n + length js"
  by (induction js arbitrary: k n s) (fastforce split: prod.splits if_splits option.splits)+

lemma submit_all_standalone:
  assumes "raftNode s = None" and "jm_ok (mgr (controller s))" and "wal_live (wal (controller s))"
    and "\<And>i. fst (calls i) = RpcOk \<and> fst (snd (calls i)) = (\<lambda>_. FlushOk)"
    and "distinct (map inID js)" and "[] \<notin> set (map inID js)" and "\<And>j. j \<in> set js \<Longrightarrow> jobs (mgr (controller s)) (inID j) = None"
  shows "\<exists>s'. submit_all enc calls k js n s = Some (n + length js, s') \<and>
    queue (mgr (controller s')) = queue (mgr (controller s)) @ map inID js \<and>
    (\<forall>j \<in> set js. job_status (mgr (controller s')) (inID j) = Some StatusPending) \<and>
    (\<forall>i. i \<notin> set (map inID js) \<longrightarrow> job_status (mgr (controller s')) i = job_status (mgr (controller s)) i)"
  using assms
proof (induction js arbitrary: s k n)
  case Nil
  then show ?case by simp
next
  case (Cons j js)
  obtain now nanos where call: "calls k = (RpcOk, (\<lambda>_. FlushOk), now, nanos)"
    using Cons.prems(4) [of k] by (cases "calls k") auto
  obtain p where p: "unmarshal (reqPayload (cli_request j)) = Some p" using cli_request_payload by blast
  let ?j = "submitted_job now nanos p (cli_request j)"
  have id: "ID ?j = inID j" using Cons.prems(6) by (auto simp: submitted_job_def cli_request_def)
  have "jobs (mgr (controller s)) (ID ?j) = None" using Cons.prems(7) id by simp
  from submit_standalone [OF Cons.prems(1-3) p this]
  obtain c where c: "SubmitJob enc (\<lambda>_. FlushOk) now nanos (cli_request j) s = Some (Inr (ID ?j), s\<lparr>controller := c\<rparr>)"
    "jm_ok (mgr c)" "wal_live (wal c)" "queue (mgr c) = queue (mgr (controller s)) @ [inID j]"
    "job_status (mgr c) = (job_status (mgr (controller s)))(inID j \<mapsto> StatusPending)"
    unfolding id by blast
  let ?s = "s\<lparr>controller := c\<rparr>"
  have new: "jobs (mgr (controller ?s)) (inID i) = None" if "i \<in> set js" for i
  proof -
    have "inID i \<in> inID ` set js" using that by (rule imageI)
    then have "inID i \<noteq> inID j" using Cons.prems(5) by auto
    then have "job_status (mgr c) (inID i) = job_status (mgr (controller s)) (inID i)" by (simp add: c(5))
    then show ?thesis using Cons.prems(7) [of i] that by (simp add: job_status_def job_view_def)
  qed
  obtain s' where s': "submit_all enc calls (Suc k) js (Suc n) ?s = Some (Suc n + length js, s')"
    "queue (mgr (controller s')) = queue (mgr (controller ?s)) @ map inID js"
    "\<forall>j \<in> set js. job_status (mgr (controller s')) (inID j) = Some StatusPending"
    "\<forall>i. i \<notin> set (map inID js) \<longrightarrow> job_status (mgr (controller s')) i = job_status (mgr (controller ?s)) i"
    using Cons.IH [of ?s "Suc k" "Suc n"] Cons.prems(1,4-6) c(2,3) new by auto
  have "inID j \<notin> set (map inID js)" using Cons.prems(5) by simp
  then have "job_status (mgr (controller s')) (inID j) = Some StatusPending" using s'(4) c(5) by simp
  moreover have "submit_all enc calls k (j # js) n s = Some (n + length (j # js), s')" using call c(1) s'(1) by simp
  ultimately show ?case using s'(2-4) c(4,5) by (intro exI [of _ s']) simp
qed

text \<open>Submitting a file to a master. When every call gets through to a standalone server with a working
  log, and the IDs are distinct, not empty and unknown to it, the command reports every job as
  submitted, and the server has queued exactly these jobs, in the order of the file, behind what was
  queued before. In general the reported number is between 0 and the number of jobs, and the command
  itself never fails once it is connected.\<close>

theorem remote_enqueue:
  assumes "raftNode s = None" and "jm_ok (mgr (controller s))" and "wal_live (wal (controller s))"
    and "\<And>i. fst (calls i) = RpcOk \<and> fst (snd (calls i)) = (\<lambda>_. FlushOk)"
    and "distinct (map inID js)" and "[] \<notin> set (map inID js)" and "\<And>j. j \<in> set js \<Longrightarrow> jobs (mgr (controller s)) (inID j) = None"
  shows "(\<exists>s'. enqueueRemote True enc calls js s = Some (None, length js, s') \<and>
    queue (mgr (controller s')) = queue (mgr (controller s)) @ map inID js \<and>
    (\<forall>j \<in> set js. job_status (mgr (controller s')) (inID j) = Some StatusPending)) \<and>
    (\<forall>calls' err n s'. enqueueRemote True enc calls' js s = Some (err, n, s') \<longrightarrow> err = None \<and> n \<le> length js)"
proof
  obtain s' where "submit_all enc calls 0 js 0 s = Some (length js, s')"
    "queue (mgr (controller s')) = queue (mgr (controller s)) @ map inID js"
    "\<forall>j \<in> set js. job_status (mgr (controller s')) (inID j) = Some StatusPending"
    using submit_all_standalone [where enc = enc and k = 0 and n = 0 and calls = calls, OF assms] by auto
  then show "\<exists>s'. enqueueRemote True enc calls js s = Some (None, length js, s') \<and>
    queue (mgr (controller s')) = queue (mgr (controller s)) @ map inID js \<and>
    (\<forall>j \<in> set js. job_status (mgr (controller s')) (inID j) = Some StatusPending)"
    by (simp add: enqueueRemote_def)
  show "\<forall>calls' err n s'. enqueueRemote True enc calls' js s = Some (err, n, s') \<longrightarrow> err = None \<and> n \<le> length js"
    using submit_all_bound by (fastforce simp: enqueueRemote_def)
qed


lemma remote_enqueue_witness:
  "\<exists>s s'. enqueueRemote True (\<lambda>_. []) (\<lambda>_. (RpcOk, (\<lambda>_. FlushOk), 1, 2))
      [\<lparr>inID = ''a'', inPayload = None, inTimeout = 5\<rparr>, \<lparr>inID = ''b'', inPayload = Some Map.empty, inTimeout = 0\<rparr>] s = Some (None, 2, s') \<and>
    queue (mgr (controller s')) = [''a'', ''b'']"
proof -
  obtain b :: Controller where b: "mgr b = NewJobManager" "wal_live (wal b)" using sample_boot by blast
  let ?js = "[\<lparr>inID = ''a'', inPayload = None, inTimeout = 5\<rparr>, \<lparr>inID = ''b'', inPayload = Some Map.empty, inTimeout = 0\<rparr>]"
  let ?calls = "\<lambda>_::nat. (RpcOk, (\<lambda>_::nat. FlushOk), 1::int, 2::int)"
  have "raftNode (NewServer b None) = None" "jm_ok (mgr (controller (NewServer b None)))"
    "wal_live (wal (controller (NewServer b None)))" "distinct (map inID ?js)" "[] \<notin> set (map inID ?js)"
    "\<And>j. jobs (mgr (controller (NewServer b None))) (inID j) = None"
    using b NewJobManager_ok by (simp_all add: NewServer_def NewJobManager_def)
  from remote_enqueue [where calls = ?calls and enc = "\<lambda>_. []", OF this(1-3) _ this(4-6)]
  obtain s' where "enqueueRemote True (\<lambda>_. []) ?calls ?js (NewServer b None) = Some (None, 2, s')"
    "queue (mgr (controller s')) = queue (mgr (controller (NewServer b None))) @ [''a'', ''b'']" by auto
  moreover have "queue (mgr (controller (NewServer b None))) = []" using b(1) by (simp add: NewServer_def NewJobManager_def)
  ultimately show ?thesis by (intro exI [of _ "NewServer b None"] exI [of _ s']) simp
qed

section \<open>Enqueueing in a process of its own\<close>

lemma append_enqueue_events:
  "wal_live w \<Longrightarrow> \<exists>w' es. append_enqueue (\<lambda>_. FlushOk) n now js w = (None, w') \<and> wal_live w' \<and>
     wal_events w' = wal_events w @ es \<and> (\<forall>e \<in> set es. EvType e = EventEnqueue)"
proof (induction js arbitrary: w n)
  case Nil
  then show ?case by (intro exI [of _ w] exI [of _ "[]"]) simp
next
  case (Cons j js)
  obtain w1 where w1: "Append FlushOk now EventEnqueue j w = (None, w1)" "wal_live w1"
    "wal_events w1 = wal_events w @ [new_event now EventEnqueue j (w_seq w + 1)]"
    using Append_live [OF Cons.prems] by blast
  obtain w' es where "append_enqueue (\<lambda>_. FlushOk) (Suc n) now js w1 = (None, w')" "wal_live w'"
    "wal_events w' = wal_events w1 @ es" "\<forall>e \<in> set es. EvType e = EventEnqueue"
    using Cons.IH [OF w1(2)] by blast
  then show ?case using w1
    by (intro exI [of _ w'] exI [of _ "new_event now EventEnqueue j (w_seq w + 1) # es"]) simp
qed

lemma enqueue_loop_new:
  assumes "jm_ok jm" and "distinct (map ID js)" and "\<And>j. j \<in> set js \<Longrightarrow> jobs jm (ID j) = None"
  shows "\<exists>jm'. enqueue_loop now js jm = (None, jm') \<and> (\<forall>j \<in> set js. job_status jm' (ID j) = Some StatusPending) \<and>
    (\<forall>i. i \<notin> set (map ID js) \<longrightarrow> job_status jm' i = job_status jm i)"
  using assms
proof (induction js arbitrary: jm)
  case Nil
  then show ?case by simp
next
  case (Cons j js)
  have "jobs jm (ID j) = None" using Cons.prems(3) by simp
  from Enqueue_new_ok [OF this Cons.prems(1)] obtain jm1 where jm1: "Enqueue now j jm = Inr jm1" "jm_ok jm1"
    "job_status jm1 = (job_status jm)(ID j \<mapsto> StatusPending)" "jobs jm1 = (jobs jm)(ID j \<mapsto> nxt jm)" by blast
  have "jobs jm1 (ID i) = None" if "i \<in> set js" for i
  proof -
    have "ID i \<in> ID ` set js" using that by (rule imageI)
    then have "ID i \<noteq> ID j" using Cons.prems(2) by auto
    then show ?thesis using Cons.prems(3) [of i] that jm1(4) by simp
  qed
  then obtain jm' where jm': "enqueue_loop now js jm1 = (None, jm')" "\<forall>j \<in> set js. job_status jm' (ID j) = Some StatusPending"
    "\<forall>i. i \<notin> set (map ID js) \<longrightarrow> job_status jm' i = job_status jm1 i"
    using Cons.IH [OF jm1(2)] Cons.prems(2) by auto
  have "job_status jm' (ID j) = Some StatusPending" using jm'(3) jm1(3) Cons.prems(2) by simp
  then show ?case using jm' jm1(1,3) by (intro exI [of _ jm']) simp
qed

lemma replay_enqueues:
  "\<forall>e \<in> set es. EvType e = EventEnqueue \<Longrightarrow> handle_all (replay_handler now T) es jm = (None, jm)"
  by (induction es) (simp_all add: replay_handler_def Let_def)

lemma Restore_empty: "Restore [] empty_snapshot NewJobManager = NewJobManager"
  by (simp add: Restore_def cleared_def empty_snapshot_def NewJobManager_def)

text \<open>What a process finds on a disk without a snapshot and with a log of ENQUEUE events: nothing.\<close>

lemma Start_enqueues:
  assumes "wal_good (wal c)" and "\<forall>e \<in> set (wal_events (wal c)). EvType e = EventEnqueue" and "path_file (snap c) = None"
    and "mgr c = NewJobManager"
  shows "Controller.Start u [] [] now c = Inr (c\<lparr>ctl_running := True\<rparr>)"
proof -
  have "Replay (replay_handler now T) (wal c) NewJobManager = (None, NewJobManager)" for T
    using assms(1,2) by (simp add: Replay_good replay_enqueues)
  then show ?thesis using assms(3,4)
    by (simp add: Controller.Start_def recover_def loadSnapshot_def Load_def replayWAL_def Restore_empty GetAllInFlightJobs_def)
qed


text \<open>A local \<open>enqueue\<close> does nothing lasting. On an empty disk, with a runnable configuration, the command
  reports success, and in its own process every job of the file is pending. The process then ends;
  it has written the jobs' ENQUEUE events to the log, and the next \<open>run\<close> on these files starts
  without a single job.\<close>

theorem local_enqueue_is_lost:
  assumes "runnable cfg" and "disk = \<lparr>disk_wal = None, disk_snap = fs\<rparr>" and "path_file fs = None"
    and "distinct (map inID js)"
  shows "\<exists>c. enqueueLocal (\<lambda>_. FlushOk) now js (local_controller (Inr cfg) u [] [] now0 disk None) = Some (None, Some c) \<and>
    (\<forall>j \<in> set js. job_status (mgr c) (inID j) = Some StatusPending) \<and>
    (\<exists>c'. runControllerNode cfg ''standalone'' listens u' [] [] now' \<lparr>disk_wal = w_file (wal c), disk_snap = snap c\<rparr> =
        ControllerRuns c' None \<and> (\<forall>i. job_status (mgr c') i = None))"
proof -
  let ?cc = "controller_config cfg False"
  have run: "\<not> WALBufferSize ?cc < 0" "\<not> SnapshotInterval ?cc \<le> 0" using assms(1) by (simp_all add: runnable_def controller_config_def)
  obtain b where b: "NewController None fs ?cc = Some b" "mgr b = NewJobManager" "wal_live (wal b)" "wal_events (wal b) = []"
    "snap b = fs" "config b = ?cc"
    using run(1) by (simp add: NewController_cases wal_live_def NewWAL_def wal_events_def wal_good_def GetLastEvent_def Let_def)
  have "Controller.Start u [] [] now0 b = Inr (b\<lparr>ctl_running := True\<rparr>)"
    using b assms(3) by (intro Start_enqueues) (simp_all add: wal_live_def)
  then have boot: "local_controller (Inr cfg) u [] [] now0 disk None = Some (None, Some (b\<lparr>ctl_running := True\<rparr>))"
    using b(1) assms(2) by (simp add: local_controller_def)
  obtain w es where w: "append_enqueue (\<lambda>_. FlushOk) 0 now (map local_job js) (wal b) = (None, w)" "wal_live w"
    "wal_events w = es" "\<forall>e \<in> set es. EvType e = EventEnqueue"
    using append_enqueue_events [OF b(3)] b(4) by fastforce
  have "map ID (map local_job js) = map inID js" by (simp add: local_job_def)
  then have ids: "distinct (map ID (map local_job js))" using assms(4) by argo
  have "jobs NewJobManager i = None" for i by (simp add: NewJobManager_def)
  then obtain jm where jm: "enqueue_loop now (map local_job js) (mgr b) = (None, jm)"
    "\<forall>j \<in> set (map local_job js). job_status jm (ID j) = Some StatusPending"
    using enqueue_loop_new [OF NewJobManager_ok ids, of now] unfolding b(2) by blast
  let ?c = "b\<lparr>ctl_running := True, wal := w, mgr := jm\<rparr>"
  have enq: "enqueueLocal (\<lambda>_. FlushOk) now js (local_controller (Inr cfg) u [] [] now0 disk None) = Some (None, Some ?c)"
    using w(1) jm(1) by (simp add: enqueueLocal_def boot EnqueueJobs_def)
  have pend: "\<forall>j \<in> set js. job_status (mgr ?c) (inID j) = Some StatusPending" using jm(2) by (simp add: local_job_def)
  obtain d where d: "NewController (w_file w) fs ?cc = Some d" "mgr d = NewJobManager" "wal_good (wal d)" "wal_events (wal d) = es"
    "snap d = fs" "config d = ?cc"
    using run(1) w(2,3) by (auto simp: NewController_cases wal_live_def NewWAL_def wal_events_def wal_good_def Let_def split: option.splits)
  have "Controller.Start u' [] [] now' d = Inr (d\<lparr>ctl_running := True\<rparr>)"
    using d w(4) assms(3) by (intro Start_enqueues) simp_all
  then have "runControllerNode cfg ''standalone'' listens u' [] [] now' \<lparr>disk_wal = w_file (wal ?c), disk_snap = snap ?c\<rparr> =
      ControllerRuns (d\<lparr>ctl_running := True\<rparr>) None"
    using d(1,6) run(2) b(5) by (simp add: runControllerNode_def)
  moreover have "job_status (mgr (d\<lparr>ctl_running := True\<rparr>)) i = None" for i
    using d(2) by (simp add: job_status_def job_view_def NewJobManager_def)
  ultimately show ?thesis using enq pend by blast
qed

lemma local_enqueue_is_lost_witness:
  "\<exists>c c'. enqueueLocal (\<lambda>_. FlushOk) 5 [\<lparr>inID = ''a'', inPayload = None, inTimeout = 5\<rparr>]
       (local_controller (Inr sample_cli) False [] [] 1 \<lparr>disk_wal = None, disk_snap = sample_fs\<rparr> None) = Some (None, Some c) \<and>
     job_status (mgr c) ''a'' = Some StatusPending \<and>
     runControllerNode sample_cli ''standalone'' True False [] [] 9 \<lparr>disk_wal = w_file (wal c), disk_snap = snap c\<rparr> = ControllerRuns c' None \<and>
     job_status (mgr c') ''a'' = None"
proof -
  have r: "runnable sample_cli" by (simp add: runnable_def sample_cli_def wrap64_def)
  have "path_file sample_fs = None" "distinct (map inID [\<lparr>inID = ''a'', inPayload = None, inTimeout = 5\<rparr>])"
    by (simp_all add: sample_fs_def)
  from local_enqueue_is_lost [OF r refl this, of 5 False 1 True False 9] show ?thesis by force
qed

end
