(* ===== verification/Races.thy ===== *)
theory Races
  imports CrashLimits
begin

text \<open>
  Checkpoints that overlap with other handlers, and the checkpoint of a graceful stop. A checkpoint
  copies the jobs under the controller's mutex; the write of the copy and the rotation of the log run
  without it (\<open>snapshot_copy\<close>, \<open>snapshot_save\<close>).
\<close>

section \<open>The window of a checkpoint\<close>

text \<open>C30. A checkpoint of a standalone controller forgets what happens while it is written. The copy is taken in one state, the save ends in
  any other, the log being rotated whatever it holds by then: a restart finds the statuses of the copy.
  So an acknowledgement, a death or a retry that was logged, synced and applied in between is undone by a
  crash after the checkpoint, although every write has succeeded.\<close>

theorem checkpoint_forgets_window:
  assumes "jm_ok (mgr c0)" and "\<not> raftEnabled c0"
    and "snapshot_save None RotateOk stamp (snapshot_copy c0) c1 = (None, c2)"
    and "reboot c2 = Some cr" and "snapshot_order ord c2"
  shows "mgr c2 = mgr c1 \<and> (\<exists>c3. recover False ord now cr = Inr c3 \<and> job_status (mgr c3) = job_status (mgr c0))"
proof -
  have "replays_to c2 (job_status (mgr c0))" "wal_good (wal c2)"
    using save_replays [OF assms(1-3)] by (simp_all add: wal_live_def)
  from recover_to [OF this assms(4,5), of now] show ?thesis using save_files(4) [OF assms(2,3)] by blast
qed

lemma save_live:
  assumes "wal_live (wal c1)"
  shows "\<exists>c2. snapshot_save None RotateOk stamp d c1 = (None, c2)"
  using assms by (auto simp: snapshot_save_def Write_ok Rotate_def wal_live_def wal_good_def Let_def split: option.splits)

text \<open>An acknowledgement in the window: the job is completed, and in flight again after the crash.\<close>

lemma checkpoint_forgets_window_witness:
  "\<exists>c0 c2 cr ord c3. snapshot_save None RotateOk 9 (snapshot_copy c0)
      (handleResult FlushOk 8 \<lparr>ResultID = ''a'', Success = True, Duration = 1\<rparr> c0) = (None, c2) \<and>
    job_status (mgr c2) ''a'' = Some StatusCompleted \<and> reboot c2 = Some cr \<and> recover False ord 99 cr = Inr c3 \<and>
    job_status (mgr c3) ''a'' = Some StatusInFlight"
proof -
  let ?r = "\<lparr>ResultID = ''a'', Success = True, Duration = 1\<rparr>"
  obtain c0 where c0: "recoverable c0" "\<not> raftEnabled c0" "config c0 = sample_cfg" "job_status (mgr c0) = [''a'' \<mapsto> StatusInFlight]"
    using sample_in_flight by blast
  note ok = recoverable_D(1) [OF c0(1)] and live = recoverable_D(2) [OF c0(1)]
  let ?c1 = "handleResult FlushOk 8 ?r c0"
  have fl: "job_status (mgr c0) (ResultID ?r) = Some StatusInFlight" using c0(4) by simp
  have rec1: "recoverable ?c1" by (rule handleResult_recoverable [OF c0(1) fl])
  obtain c2 where c2: "snapshot_save None RotateOk 9 (snapshot_copy c0) ?c1 = (None, c2)"
    using save_live [OF recoverable_D(2) [OF rec1]] by blast
  note F = save_files [OF c0(2) c2]
  obtain cr where cr: "reboot c2 = Some cr"
    using sample_reboot [of c2] F(5) handler_frame(1) [of FlushOk 8 ?r c0] c0(3) by auto
  obtain ord where ord: "snapshot_order ord c2"
    using save_replays [OF ok c0(2) c2] snapshot_order_exists by (auto simp: replays_to_def)
  obtain a where a: "jobs (mgr c0) ''a'' = Some a" using fl by (auto simp: job_status_iff)
  obtain w where w: "Append FlushOk 8 EventAck (heap (mgr c0) a) (wal c0) = (None, w)" using Append_live [OF live] by blast
  obtain jm where jm: "MarkCompleted 8 ''a'' (mgr c0) = Inr jm" "job_status jm = (job_status (mgr c0))(''a'' \<mapsto> StatusCompleted)"
    using completed_step [OF ok, of "''a''"] fl by auto
  have "mgr ?c1 = jm" using a w jm(1) by (simp add: handleResult_def GetJob_def Let_def logged_def)
  then have "job_status (mgr c2) ''a'' = Some StatusCompleted" using F(4) jm(2) by simp
  moreover obtain c3 where "recover False ord 99 cr = Inr c3" "job_status (mgr c3) ''a'' = Some StatusInFlight"
    using checkpoint_forgets_window [OF ok c0(2) c2 cr ord, of 99] c0(4) by auto
  ultimately show ?thesis using c2 cr by blast
qed


text \<open>C31. A job dispatched while a checkpoint of a standalone controller is written makes the files unusable. It is pending in the copy, the
  rotation takes the record of its dispatch away, and its acknowledgement is then the first that the new
  log has of it: the job is completed in memory, but if the process dies before the next checkpoint,
  replay refuses the ACK and no start succeeds any more, in whatever order the maps are walked.\<close>

theorem checkpoint_during_dispatch_blocks_restart:
  assumes "jm_ok (mgr c0)" and "\<not> raftEnabled c0" and "job_status (mgr c0) (ResultID r) = Some StatusPending"
    and "jm_ok (mgr c1)" and "job_status (mgr c1) (ResultID r) = Some StatusInFlight"
    and "snapshot_save None RotateOk stamp (snapshot_copy c0) c1 = (None, c2)"
    and "Success r" and "c3 = handleResult FlushOk now r c2" and "reboot c3 = Some cr" and "snapshot_order ord c3"
  shows "job_status (mgr c3) (ResultID r) = Some StatusCompleted \<and> Start False ord ord' now' cr = Inl ErrNotInFlight"
proof -
  note S = save_replays [OF assms(1,2,6)] and F = save_files [OF assms(2,6)]
  let ?i = "ResultID r"
  have ok: "jm_ok (mgr c2)" and fl: "job_status (mgr c2) ?i = Some StatusInFlight" using F(4) assms(4,5) by simp_all
  obtain a where a: "jobs (mgr c2) ?i = Some a" "ID (heap (mgr c2) a) = ?i" using status_address [OF ok fl] by blast
  obtain jm where jm: "MarkCompleted now ?i (mgr c2) = Inr jm" "job_status jm = (job_status (mgr c2))(?i \<mapsto> StatusCompleted)"
    using completed_step [OF ok fl] by blast
  have live: "wal_live (wal c2)" using S by simp
  obtain w where w: "Append FlushOk now EventAck (heap (mgr c2) a) (wal c2) = (None, w)"
    using Append_live [OF live] by blast
  have c3: "c3 = c2\<lparr>wal := w, mgr := jm\<rparr>"
    using assms(7,8) a(1) jm(1) w by (simp add: handleResult_def GetJob_def Let_def logged_def)
  have "replays_to c2 (job_status (mgr c0))" using S by simp
  note unreplayable_ack [OF this live assms(3) a(2) w c3 assms(9,10), of ord' now']
  then show ?thesis using c3 jm(2) by simp
qed

lemma checkpoint_during_dispatch_blocks_restart_witness:
  "\<exists>c0 c1 c2 c3 cr ord. Poll (\<lambda>_. FlushOk) 7 1 c0 = (Inr [the (jobs (mgr c0) ''a'')], c1) \<and>
     snapshot_save None RotateOk 9 (snapshot_copy c0) c1 = (None, c2) \<and>
     c3 = handleResult FlushOk 8 \<lparr>ResultID = ''a'', Success = True, Duration = 1\<rparr> c2 \<and>
     job_status (mgr c3) ''a'' = Some StatusCompleted \<and> reboot c3 = Some cr \<and> Start False ord [] 99 cr = Inl ErrNotInFlight"
proof -
  let ?r = "\<lparr>ResultID = ''a'', Success = True, Duration = 1\<rparr>"
  obtain b where b: "recoverable b" "config b = sample_cfg" "\<not> ctl_stopped b" "queue (mgr b) = [''a'']"
    "job_status (mgr b) = [''a'' \<mapsto> StatusPending]" using sample_ready by blast
  let ?c0 = "b\<lparr>raftEnabled := False\<rparr>"
  have c0: "recoverable ?c0" "\<not> ctl_stopped ?c0" "\<not> raftEnabled ?c0" using b(1,3) by (simp_all add: recoverable_def replays_defs)
  obtain res c1 where p: "Poll (\<lambda>_. FlushOk) 7 1 ?c0 = (res, c1)" by fastforce
  have c1: "recoverable c1" "res = Inr [the (jobs (mgr ?c0) ''a'')]" "job_status (mgr c1) ''a'' = Some StatusInFlight"
    using Poll_recoverable [OF c0(1,2) p] b(4) by (simp_all add: addrs_def)
  have cfg: "config c1 = sample_cfg" using p b(2) by (auto simp: Poll_def poll_loop_phases split: if_splits prod.splits)
  obtain c2 where c2: "snapshot_save None RotateOk 9 (snapshot_copy ?c0) c1 = (None, c2)"
    using save_live [OF recoverable_D(2) [OF c1(1)]] by blast
  let ?c3 = "handleResult FlushOk 8 ?r c2"
  obtain cr where cr: "reboot ?c3 = Some cr"
    using sample_reboot [of ?c3] save_files(5) [OF c0(3) c2] cfg handler_frame(1) [of FlushOk 8 ?r c2] by auto
  obtain ord where "snapshot_order ord c2"
    using save_replays [OF recoverable_D(1) [OF c0(1)] c0(3) c2] snapshot_order_exists by (auto simp: replays_to_def)
  then have ord: "snapshot_order ord ?c3" by (simp add: snapshot_order_def handler_frame)
  have st: "job_status (mgr ?c0) (ResultID ?r) = Some StatusPending" "job_status (mgr c1) (ResultID ?r) = Some StatusInFlight"
    "Success ?r" using b(5) c1(3) by simp_all
  show ?thesis
    using checkpoint_during_dispatch_blocks_restart [OF recoverable_D(1) [OF c0(1)] c0(3) st(1) recoverable_D(1) [OF c1(1)] st(2) c2 st(3) refl cr ord,
        of "[]" 99] p c1(2) c2 cr
    by (intro exI [of _ ?c0] exI [of _ c1] exI [of _ c2] exI [of _ ?c3] exI [of _ cr] exI [of _ ord]) simp
qed

section \<open>A graceful stop\<close>

lemma json_view: "job_status jm' = job_status jm" if "job_view jm' = map_option json_job \<circ> job_view jm"
  using that by (simp add: job_status_def fun_eq_iff option.map_comp o_def)

text \<open>C19. A graceful stop loses nothing, not even what a crash would. From any well-formed state of a standalone
  controller with an open log, also with jobs that are in no checkpoint, \<open>Stop\<close> leaves files from which
  a new process gets back every job with all its data (the payload's numbers as doubles), and starts
  with the same statuses, the jobs in flight being pending again.\<close>

theorem graceful_stop_keeps_jobs:
  assumes "jm_ok (mgr c)" and "\<not> raftEnabled c" and "wal_live (wal c)" and "\<not> ctl_stopped c"
    and "reboot (Stop None RotateOk fails stamp c) = Some cr" and "snapshot_order ord (Stop None RotateOk fails stamp c)"
  shows "\<exists>c3. recover False ord now cr = Inr c3 \<and> job_view (mgr c3) = map_option json_job \<circ> job_view (mgr c) \<and>
    (\<forall>ord'. enumerates ord' (inFlight (mgr c3)) \<longrightarrow>
      (\<exists>c4. Start False ord ord' now cr = Inr c4 \<and> job_status (mgr c4) = requeued (job_status (mgr c))))"
proof -
  let ?c1 = "c\<lparr>ctl_stopped := True, ctl_running := False\<rparr>"
  obtain c2 where c2: "snapshot_save None RotateOk stamp (snapshot_copy ?c1) ?c1 = (None, c2)" using save_live [of ?c1] assms(3) by auto
  have nr: "\<not> raftEnabled ?c1" using assms(2) by simp
  note F = save_files [OF nr c2]
  let ?d = "json_data (Snapshot (mgr c)\<lparr>LastSeq := unat (w_seq (wal c)), SchemaVer := 1\<rparr>)"
  let ?c' = "Stop None RotateOk fails stamp c"
  have c': "w_file (wal ?c') = Some []" "snap ?c' = snap c2" "config ?c' = config c"
    using assms(4) F c2 by (simp_all add: Stop_def takeSnapshot_def Let_def Close_def)
  have good: "wal_good (wal ?c')" using c'(1) by (simp add: wal_good_def)
  note R = reboot_simps [OF assms(5) good]
  have Jd: "Jobs ?d = map_option json_job \<circ> job_view (mgr c)" by (simp add: json_data_def Snapshot_def)
  have load: "Load False (snap cr) = Inr ?d" using R(2) c'(2) F(1) by simp
  have ord: "enumerates ord (Jobs ?d)" using assms(6) c'(2) F(1) by (simp add: snapshot_order_def)
  let ?c3 = "cr\<lparr>mgr := Restore ord ?d (mgr cr)\<rparr>"
  have rec: "recover False ord now cr = Inr ?c3"
    using load R(1) c'(1) by (simp add: recover_def loadSnapshot_def replayWAL_def Replay_def)
  have view: "job_view (mgr ?c3) = map_option json_job \<circ> job_view (mgr c)" using Restore_view [OF ord] Jd by simp
  have inv: "jm_inv (mgr ?c3)" using Restore_inv [OF enumerates_distinct [OF ord]] by simp
  show ?thesis using rec view Start_requeues [OF rec inv] json_view [OF view] by auto
qed

lemma graceful_stop_keeps_jobs_witness:
  "\<exists>c cr ord c3. job_status (mgr c) ''b'' = Some StatusPending \<and> reboot (Stop None RotateOk False 50 c) = Some cr \<and>
     recover False ord 99 cr = Inr c3 \<and> job_status (mgr c3) ''b'' = Some StatusPending"
proof -
  obtain b c where b: "recoverable b" "jobs (mgr b) ''b'' = None" "\<not> ctl_stopped b"
    "EnqueueJobs (\<lambda>_. FlushOk) 8 [job_named ''b''] b = (None, c)" "config c = sample_cfg" using sample_enqueued by blast
  have E: "wal_live (wal c)" "jm_ok (mgr c)" "job_status (mgr c) ''b'' = Some StatusPending" "ctl_stopped c = ctl_stopped b"
    using enqueue_replays [OF b(1) _ b(4)] b(2) by simp_all
  let ?c = "c\<lparr>raftEnabled := False\<rparr>"
  have h: "jm_ok (mgr ?c)" "\<not> raftEnabled ?c" "wal_live (wal ?c)" "\<not> ctl_stopped ?c" using E b(3) by simp_all
  let ?s = "Stop None RotateOk False 50 ?c"
  let ?c1 = "?c\<lparr>ctl_stopped := True, ctl_running := False\<rparr>"
  obtain c2 where c2: "snapshot_save None RotateOk 50 (snapshot_copy ?c1) ?c1 = (None, c2)" using save_live [of ?c1] E(1) by auto
  have nr: "\<not> raftEnabled ?c1" by simp
  note F = save_files [OF nr c2]
  have s: "snap ?s = snap c2" "config ?s = sample_cfg" using h(4) F(5) c2 b(5) by (simp_all add: Stop_def takeSnapshot_def Let_def Close_def)
  obtain cr where cr: "reboot ?s = Some cr" using sample_reboot [OF s(2)] by blast
  have ok1: "jm_ok (mgr ?c1)" using E(2) by simp
  obtain ord where "snapshot_order ord c2"
    using save_replays [OF ok1 nr c2] snapshot_order_exists by (auto simp: replays_to_def)
  then have ord: "snapshot_order ord ?s" using s(1) by (simp add: snapshot_order_def)
  obtain c3 where c3: "recover False ord 99 cr = Inr c3" "job_view (mgr c3) = map_option json_job \<circ> job_view (mgr ?c)"
    using graceful_stop_keeps_jobs [OF h cr ord, of 99] by blast
  show ?thesis using E(3) cr c3(1) json_view [OF c3(2)] by (intro exI [of _ ?c] exI [of _ cr] exI [of _ ord] exI [of _ c3]) simp
qed

end
