(* ===== verification/Concurrent.thy ===== *)
theory Concurrent
  imports ControllerProps "HOL-Library.Multiset"
begin

text \<open>
  The running controller as the interleaving of its goroutines and callers. \<open>controller.go\<close> starts four
  dispatch loops, the result, timeout, snapshot and apply loops; \<open>EnqueueJobs\<close>, \<open>Poll\<close> and \<open>Acknowledge\<close>
  are called from the server's goroutines. Each releases the mutex where the steps below end: what runs
  under the mutex is one step, and an append, a write or a rotation outside it is a step of its own.
  The theory gives the steps and the two invariants that every one of them keeps.
\<close>

section \<open>State\<close>

text \<open>
  A dispatch loop is at the head of its loop, or has popped a batch and logs it (what is left to log, the
  whole batch), or submits it (what is left), or has returned. The snapshot loop is idle, has copied the
  jobs, or has written them and not yet rotated the log.
\<close>

datatype dispatcher = DIdle | DLogging "addr list" "addr list" | DSubmitting "addr list" | DExited

datatype checkpointer = CkIdle | CkWriting SnapshotData | CkRotating

text \<open>
  \<open>calls\<close> are the calls of \<open>EnqueueJobs\<close> under way: the jobs still to be logged and all jobs of the call.
  \<open>handed\<close> is a history: the IDs given to the pool or returned by \<open>Poll\<close>, latest first.
\<close>

record Sys =
  ctl :: Controller
  dispatchers :: "dispatcher list"
  checkpointer :: checkpointer
  calls :: "nat \<Rightarrow> (Job list \<times> Job list) option"
  handed :: "JobID list"

text \<open>What \<open>Start\<close> leaves running: no dispatch loop in master mode, four of them otherwise.\<close>

definition start_loops :: "Controller \<Rightarrow> Sys" where
  "start_loops c = \<lparr>ctl = c, dispatchers = replicate (if DisableDispatchLoop (config c) then 0 else 4) DIdle,
     checkpointer = CkIdle, calls = Map.empty, handed = []\<rparr>"

definition names :: "JobManager \<Rightarrow> addr list \<Rightarrow> JobID list" where
  "names jm as = map (\<lambda>a. ID (heap jm a)) as"

section \<open>The dispatch loops\<close>

text \<open>
  A step of loop \<open>k\<close> is \<^term>\<open>None\<close> when the loop is not at this point. A loop sees the stop signal only at
  its head, and may have passed it just before.
\<close>

definition nth_dispatcher :: "nat \<Rightarrow> Sys \<Rightarrow> dispatcher" where
  "nth_dispatcher k s = (if k < length (dispatchers s) then dispatchers s ! k else DExited)"

definition sys_pop :: "nat \<Rightarrow> Sys \<Rightarrow> Sys option" where
  "sys_pop k s =
     (case nth_dispatcher k s of
        DIdle \<Rightarrow> (case dispatch_pop (ctl s) of (as, c) \<Rightarrow>
          Some (s\<lparr>ctl := c, dispatchers := (dispatchers s)[k := if as = [] then DIdle else DLogging as as]\<rparr>))
      | _ \<Rightarrow> None)"

definition sys_exit :: "nat \<Rightarrow> Sys \<Rightarrow> Sys option" where
  "sys_exit k s =
     (case nth_dispatcher k s of
        DIdle \<Rightarrow> if ctl_stopped (ctl s) then Some (s\<lparr>dispatchers := (dispatchers s)[k := DExited]\<rparr>) else None
      | _ \<Rightarrow> None)"

definition sys_log :: "nat \<Rightarrow> flush_io \<Rightarrow> int \<Rightarrow> Sys \<Rightarrow> Sys option" where
  "sys_log k io now s =
     (case nth_dispatcher k s of
        DLogging (a # todo) as \<Rightarrow>
          Some (s\<lparr>ctl := (ctl s)\<lparr>wal := snd (Append io now EventDispatch (heap (mgr (ctl s)) a) (wal (ctl s)))\<rparr>,
                  dispatchers := (dispatchers s)[k := DLogging todo as]\<rparr>)
      | _ \<Rightarrow> None)"

definition sys_mark :: "nat \<Rightarrow> int \<Rightarrow> Sys \<Rightarrow> Sys option" where
  "sys_mark k now s =
     (case nth_dispatcher k s of
        DLogging [] as \<Rightarrow>
          Some (s\<lparr>ctl := dispatch_mark now as (ctl s), dispatchers := (dispatchers s)[k := DSubmitting as]\<rparr>)
      | _ \<Rightarrow> None)"

definition sys_submit :: "nat \<Rightarrow> Sys \<Rightarrow> Sys option" where
  "sys_submit k s =
     (case nth_dispatcher k s of
        DSubmitting (a # as) \<Rightarrow>
          Some (s\<lparr>ctl := dispatch_submit [a] (ctl s), handed := ID (heap (mgr (ctl s)) a) # handed s,
                  dispatchers := (dispatchers s)[k := if as = [] then DIdle else DSubmitting as]\<rparr>)
      | _ \<Rightarrow> None)"

section \<open>Callers\<close>

definition sys_call :: "nat \<Rightarrow> Job list \<Rightarrow> Sys \<Rightarrow> Sys option" where
  "sys_call n js s = (if calls s n = None then Some (s\<lparr>calls := (calls s)(n \<mapsto> (js, js))\<rparr>) else None)"

text \<open>The log phase of \<open>EnqueueJobs\<close>, one append; an error ends the call.\<close>

definition sys_call_log :: "nat \<Rightarrow> flush_io \<Rightarrow> int \<Rightarrow> Sys \<Rightarrow> Sys option" where
  "sys_call_log n io now s =
     (case calls s n of
        Some (job # todo, js) \<Rightarrow>
          (case Append io now EventEnqueue job (wal (ctl s)) of
             (err, w) \<Rightarrow> Some (s\<lparr>ctl := (ctl s)\<lparr>wal := w\<rparr>,
               calls := (calls s)(n := if err = None then Some (todo, js) else None)\<rparr>))
      | _ \<Rightarrow> None)"

definition sys_call_add :: "nat \<Rightarrow> int \<Rightarrow> Sys \<Rightarrow> Sys option" where
  "sys_call_add n now s =
     (case calls s n of
        Some ([], js) \<Rightarrow> Some (s\<lparr>ctl := (ctl s)\<lparr>mgr := snd (enqueue_loop now js (mgr (ctl s)))\<rparr>,
                               calls := (calls s)(n := None)\<rparr>)
      | _ \<Rightarrow> None)"

definition sys_poll :: "(nat \<Rightarrow> flush_io) \<Rightarrow> int \<Rightarrow> nat \<Rightarrow> Sys \<Rightarrow> Sys" where
  "sys_poll io now n s =
     (case Poll io now n (ctl s) of
        (Inl err, c) \<Rightarrow> s\<lparr>ctl := c\<rparr>
      | (Inr as, c) \<Rightarrow> s\<lparr>ctl := c, handed := names (mgr c) as @ handed s\<rparr>)"

section \<open>Checkpoints and the end\<close>

definition sys_copy :: "Sys \<Rightarrow> Sys option" where
  "sys_copy s =
     (case checkpointer s of
        CkIdle \<Rightarrow> Some (s\<lparr>checkpointer := CkWriting (snapshot_copy (ctl s))\<rparr>) | _ \<Rightarrow> None)"

definition sys_write :: "snap_step option \<Rightarrow> Sys \<Rightarrow> Sys option" where
  "sys_write fault s =
     (case checkpointer s of
        CkWriting data \<Rightarrow>
          (case Write fault data (snap (ctl s)) of
             (err, fs) \<Rightarrow> Some (s\<lparr>ctl := (ctl s)\<lparr>snap := fs\<rparr>,
               checkpointer := if err = None then CkRotating else CkIdle\<rparr>))
      | _ \<Rightarrow> None)"

definition sys_rotate :: "rotate_io \<Rightarrow> int \<Rightarrow> Sys \<Rightarrow> Sys option" where
  "sys_rotate rot stamp s =
     (case checkpointer s of
        CkRotating \<Rightarrow> Some (s\<lparr>ctl := (ctl s)\<lparr>wal := snd (Rotate rot stamp (wal (ctl s)))\<rparr>, checkpointer := CkIdle\<rparr>)
      | _ \<Rightarrow> None)"

text \<open>
  \<open>Stop\<close> sets the flag, waits for the loops, takes a last snapshot (the steps above, once more) and closes
  the log.
\<close>

definition sys_stop :: "Sys \<Rightarrow> Sys option" where
  "sys_stop s =
     (if ctl_stopped (ctl s) then None else Some (s\<lparr>ctl := (ctl s)\<lparr>ctl_stopped := True, ctl_running := False\<rparr>\<rparr>))"

definition sys_close :: "bool \<Rightarrow> Sys \<Rightarrow> Sys option" where
  "sys_close fails s =
     (if ctl_stopped (ctl s) \<and> list_all (\<lambda>d. d = DExited) (dispatchers s) \<and> checkpointer s = CkIdle
      then Some (s\<lparr>ctl := (ctl s)\<lparr>wal := snd (Close fails (wal (ctl s)))\<rparr>\<rparr>) else None)"

section \<open>Runs\<close>

datatype sys_event =
    SPop nat | SExit nat | SLog nat flush_io int | SMark nat int | SSubmit nat
  | SCall nat "Job list" | SCallLog nat flush_io int | SCallAdd nat int
  | SPoll "nat \<Rightarrow> flush_io" int nat | SResult flush_io int Result
  | STimeout "JobID list" "nat \<Rightarrow> flush_io" int | SApply int raft_command int
  | SCopy | SWrite "snap_step option" | SRotate rotate_io int | SStop | SClose bool

fun sys_step :: "sys_event \<Rightarrow> Sys \<Rightarrow> Sys option" where
  "sys_step (SPop k) s = sys_pop k s"
| "sys_step (SExit k) s = sys_exit k s"
| "sys_step (SLog k io now) s = sys_log k io now s"
| "sys_step (SMark k now) s = sys_mark k now s"
| "sys_step (SSubmit k) s = sys_submit k s"
| "sys_step (SCall n js) s = sys_call n js s"
| "sys_step (SCallLog n io now) s = sys_call_log n io now s"
| "sys_step (SCallAdd n now) s = sys_call_add n now s"
| "sys_step (SPoll io now n) s = Some (sys_poll io now n s)"
| "sys_step (SResult io now r) s = Some (s\<lparr>ctl := handleResult io now r (ctl s)\<rparr>)"
| "sys_step (STimeout ord io now) s = Some (s\<lparr>ctl := timeout_tick ord io now (ctl s)\<rparr>)"
| "sys_step (SApply now cmd index) s = Some (s\<lparr>ctl := apply_msg now cmd index (ctl s)\<rparr>)"
| "sys_step SCopy s = sys_copy s"
| "sys_step (SWrite fault) s = sys_write fault s"
| "sys_step (SRotate rot stamp) s = sys_rotate rot stamp s"
| "sys_step SStop s = sys_stop s"
| "sys_step (SClose fails) s = sys_close fails s"

fun sys_run :: "sys_event list \<Rightarrow> Sys \<Rightarrow> Sys option" where
  "sys_run [] s = Some s"
| "sys_run (e # es) s = (case sys_step e s of None \<Rightarrow> None | Some s' \<Rightarrow> sys_run es s')"

text \<open>New jobs start with an attempt counter that is not negative.\<close>

definition fresh_jobs :: "Job list \<Rightarrow> bool" where
  "fresh_jobs js \<longleftrightarrow> list_all (\<lambda>j. 0 \<le> Attempt j) js"

fun fresh_event :: "sys_event \<Rightarrow> bool" where
  "fresh_event (SCall n js) = fresh_jobs js"
| "fresh_event (SApply now (CmdEnqueue js) index) = fresh_jobs js"
| "fresh_event e = True"

end
