(* ===== verification/Handouts.thy ===== *)
theory Handouts
  imports Concurrent
begin

text \<open>
  How the handlers of the running controller (\<open>Concurrent\<close>) move the job manager on. One relation between
  managers, \<open>keeps\<close>, is proved of every handler once: no job is lost or revived, a pending job stays where a
  dispatcher finds it, and every time a job is queued again is paid for by its attempt counter.
\<close>

section \<open>How a manager may move on\<close>

definition jm_sound :: "JobManager \<Rightarrow> bool" where
  "jm_sound jm \<longleftrightarrow> jm_inv jm \<and> jobs_typed (job_view jm)"

text \<open>No job changes its address, and each evolves; a final one stays final.\<close>

definition advance :: "JobManager \<Rightarrow> JobManager \<Rightarrow> bool" where
  "advance jm jm' \<longleftrightarrow> jm_sound jm' \<and>
     (\<forall>i a. jobs jm i = Some a \<longrightarrow> jobs jm' i = Some a \<and> evolves_to_final (heap jm a) (heap jm' a))"

lemma evolves_to_final_trans: "evolves_to_final j k \<Longrightarrow> evolves_to_final k l \<Longrightarrow> evolves_to_final j l"
  unfolding evolves_to_final_def by auto

lemma job_evolves_final: "job_evolves j j' \<Longrightarrow> evolves_to_final j j'"
  unfolding evolves_to_final_def job_evolves_def by (auto simp: allowed_from_dead allowed_from_completed)

lemma advance_refl: "jm_sound jm \<Longrightarrow> advance jm jm"
  by (simp add: advance_def evolves_to_final_def)

lemma advance_trans: "advance jm jm' \<Longrightarrow> advance jm' jm'' \<Longrightarrow> advance jm jm''"
  unfolding advance_def by (blast intro: evolves_to_final_trans)

lemma sound_ID:
  assumes "jm_sound jm" and "jobs jm i = Some a"
  shows "ID (heap jm a) = i"
proof -
  have "job_view jm i = Some (heap jm a)" using assms(2) by (simp add: job_view_def)
  then have "job_typed i (heap jm a)" using assms(1) unfolding jm_sound_def jobs_typed_def by blast
  then show ?thesis by (simp add: job_typed_def)
qed

lemma advance_ID: "advance jm jm' \<Longrightarrow> jobs jm i = Some a \<Longrightarrow> ID (heap jm' a) = i"
  using sound_ID unfolding advance_def by blast

lemma run_op_advance:
  assumes "jm_sound jm" and "\<not> is_restore op" and "run_op op jm = Inr jm'"
  shows "advance jm jm'"
proof -
  have inv: "jm_inv jm" using assms(1) by (simp add: jm_sound_def)
  note ok = not_restore_ok [OF assms(2)]
  have "op_typed op" using assms(2) by (cases op) simp_all
  then have "jobs_typed (spec_jobs (jm_abs jm'))"
    by (rule spec_run_typed [OF _ _ run_op_abs [OF inv ok assms(3)]]) (use assms(1) in \<open>simp add: jm_sound_def\<close>)
  then have "jm_sound jm'" using run_op_inv [OF inv ok assms(3)] by (simp add: jm_sound_def)
  moreover have "jobs jm' i = Some a" if "jobs jm i = Some a" for i a
    using assms(2,3) that
    by (cases op) (auto simp: jm_defs Let_def GetJob_def split: option.splits if_splits list.splits)
  moreover have "evolves_to_final (heap jm a) (heap jm' a)" if "jobs jm i = Some a" "jobs jm' i = Some a" for i a
    using run_op_evolves [OF inv ok assms(2,3), of i] job_evolves_final that by (auto simp: job_view_def)
  ultimately show ?thesis by (simp add: advance_def)
qed

section \<open>Two accounts of the jobs\<close>

text \<open>
  \<open>covered L\<close>: a pending job is in the queue or in \<open>L\<close>. \<open>accounted B M T\<close>: a job \<open>i\<close> that occurs \<open>n\<close> times in \<open>T\<close>
  (the queue, the batches and the history together) has gone through at least \<open>n - 1 - B i\<close> requeues, each
  of which raised its counter by two and left it at \<open>M\<close> or below; \<open>B\<close> is what the first queue repeats.
\<close>

definition covered :: "JobID set \<Rightarrow> JobManager \<Rightarrow> bool" where
  "covered L jm \<longleftrightarrow> (\<forall>i. job_status jm i = Some StatusPending \<longrightarrow> i \<in> set (queue jm) \<union> L)"

definition accounted :: "(JobID \<Rightarrow> nat) \<Rightarrow> int \<Rightarrow> JobID multiset \<Rightarrow> JobManager \<Rightarrow> bool" where
  "accounted B M T jm \<longleftrightarrow> set_mset T \<subseteq> dom (jobs jm) \<and>
     (\<forall>i a. jobs jm i = Some a \<longrightarrow> 2 * int (count T i) \<le> 2 + 2 * int (B i) + min (Attempt (heap jm a)) M)"

definition keeps :: "int \<Rightarrow> JobManager \<Rightarrow> JobManager \<Rightarrow> bool" where
  "keeps M jm jm' \<longleftrightarrow> (jm_sound jm \<longrightarrow> advance jm jm' \<and>
     (\<forall>L. covered L jm \<longrightarrow> covered L jm') \<and>
     (\<forall>B H. accounted B M (mset (queue jm) + H) jm \<longrightarrow> accounted B M (mset (queue jm') + H) jm'))"

lemma keeps_refl [simp]: "keeps M jm jm"
  by (simp add: keeps_def advance_refl)

lemma keeps_trans: "keeps M jm jm' \<Longrightarrow> keeps M jm' jm'' \<Longrightarrow> keeps M jm jm''"
  unfolding keeps_def by (meson advance_def advance_trans)

lemma advance_attempt:
  "advance jm jm' \<Longrightarrow> jobs jm i = Some a \<Longrightarrow> jobs jm' i = Some a \<and> Attempt (heap jm a) \<le> Attempt (heap jm' a)"
  unfolding advance_def evolves_to_final_def by blast

lemma accounted_advance:
  assumes "advance jm jm'" and "jobs jm' = jobs jm" and "accounted B M T jm"
  shows "accounted B M T jm'"
  unfolding accounted_def
proof (intro conjI allI impI)
  show "set_mset T \<subseteq> dom (jobs jm')" using assms(2,3) by (simp add: accounted_def)
  fix i a assume "jobs jm' i = Some a"
  then have a: "jobs jm i = Some a" using assms(2) by simp
  have "2 * int (count T i) \<le> 2 + 2 * int (B i) + min (Attempt (heap jm a)) M" using assms(3) a by (simp add: accounted_def)
  then show "2 * int (count T i) \<le> 2 + 2 * int (B i) + min (Attempt (heap jm' a)) M"
    using advance_attempt [OF assms(1) a] by auto
qed

text \<open>An operation that queues nothing and makes no job pending.\<close>

fun quiet :: "jm_op \<Rightarrow> bool" where
  "quiet (OpInFlight now i d) = True"
| "quiet (OpCompleted now i) = True"
| "quiet (OpDead now i) = True"
| "quiet (OpBumpAttempt i) = True"
| "quiet (OpApplied n) = True"
| "quiet _ = False"

lemma quiet_status:
  assumes "jm_inv jm" and "quiet op" and "run_op op jm = Inr jm'" and "job_status jm' i = Some StatusPending"
  shows "job_status jm i = Some StatusPending"
proof (cases op)
  case (OpInFlight now k d)
  then show ?thesis using assms(3,4) jm_store.in_flight_Inr [OF assms(1), of now k d jm'] by (auto split: if_splits)
next
  case (OpCompleted now k)
  then show ?thesis using assms(3,4) jm_store.completed_Inr [OF assms(1), of now k jm'] by (auto split: if_splits)
next
  case (OpDead now k)
  then show ?thesis using assms(3,4) jm_store.dead_Inr [OF assms(1), of now k jm'] by (auto split: if_splits)
next
  case (OpBumpAttempt k)
  then show ?thesis using assms(3,4) by (auto simp: GetJob_def split: option.splits)
next
  case (OpApplied n)
  then have "jm' = jm\<lparr>lastAppliedIndex := n\<rparr>" using assms(3) by (simp add: SetLastAppliedIndex_def)
  then show ?thesis using assms(4) by (simp add: job_status_def job_view_def)
qed (use assms(2) in simp_all)

lemma quiet_keeps:
  assumes "quiet op" and "run_op op jm = Inr jm'"
  shows "keeps M jm jm'"
proof -
  have q: "queue jm' = queue jm \<and> jobs jm' = jobs jm"
    using assms by (cases op) (auto simp: jm_defs GetJob_def split: option.splits if_splits)
  have adv: "advance jm jm'" if "jm_sound jm"
    using run_op_advance [OF that _ assms(2)] assms(1) by (cases op) simp_all
  show ?thesis
    unfolding keeps_def
  proof (intro impI conjI allI)
    fix L B H assume snd: "jm_sound jm"
    show adv': "advance jm jm'" by (rule adv [OF snd])
    have "job_status jm' i = Some StatusPending \<Longrightarrow> job_status jm i = Some StatusPending" for i
      using quiet_status [OF _ assms] snd by (simp add: jm_sound_def)
    then show "covered L jm'" if "covered L jm" using that q unfolding covered_def by metis
    show "accounted B M (mset (queue jm') + H) jm'" if "accounted B M (mset (queue jm) + H) jm"
      using accounted_advance [OF adv' _ that] q by simp
  qed
qed

lemma logged_keeps: "(\<And>jm'. r = Inr jm' \<Longrightarrow> keeps M jm jm') \<Longrightarrow> keeps M jm (logged r jm)"
  by (simp add: logged_def split: sum.split)

lemma quiet_logged: "quiet op \<Longrightarrow> keeps M jm (logged (run_op op jm) jm)"
  by (rule logged_keeps) (rule quiet_keeps)

lemma mark_keeps: "keeps M jm (logged (MarkInFlight now i d jm) jm)"
  "keeps M jm (logged (MarkCompleted now i jm) jm)" "keeps M jm (logged (MarkDead now i jm) jm)"
  using quiet_logged [of "OpInFlight now i d"] quiet_logged [of "OpCompleted now i"] quiet_logged [of "OpDead now i"]
  by simp_all

lemma bump_keeps: "jobs jm i = Some a \<Longrightarrow> keeps M jm (bump_attempt a jm)"
  using quiet_keeps [of "OpBumpAttempt i" jm] by (simp add: GetJob_def)

section \<open>Jobs that enter the queue\<close>

lemma accounted_add:
  assumes adv: "advance jm jm'" and acc: "accounted B M T jm" and a: "jobs jm' i = Some a"
    and dom: "dom (jobs jm') \<subseteq> insert i (dom (jobs jm))"
    and old: "\<And>b. jobs jm i = Some b \<Longrightarrow> Attempt (heap jm b) + 2 \<le> min (Attempt (heap jm' a)) M"
    and new: "jobs jm i = None \<Longrightarrow> 0 \<le> min (Attempt (heap jm' a)) M"
  shows "accounted B M (add_mset i T) jm'"
  unfolding accounted_def
proof (intro conjI allI impI)
  have "set_mset T \<subseteq> dom (jobs jm')"
    using acc advance_attempt [OF adv] by (fastforce simp: accounted_def)
  then show "set_mset (add_mset i T) \<subseteq> dom (jobs jm')" using a by auto
  fix k b assume b: "jobs jm' k = Some b"
  show "2 * int (count (add_mset i T) k) \<le> 2 + 2 * int (B k) + min (Attempt (heap jm' b)) M"
  proof (cases "jobs jm k")
    case None
    then have "k = i" "k \<notin># T" using b dom acc by (auto simp: accounted_def)
    then have "count (add_mset i T) k = 1" by (simp add: count_eq_zero_iff)
    then show ?thesis using new None \<open>k = i\<close> a b by simp
  next
    case (Some c)
    then have c: "c = b" "Attempt (heap jm b) \<le> Attempt (heap jm' b)" using advance_attempt [OF adv Some] b by auto
    have "2 * int (count T k) \<le> 2 + 2 * int (B k) + min (Attempt (heap jm b)) M" using acc Some c(1) by (simp add: accounted_def)
    then show ?thesis using c old [of b] Some a b by (cases "k = i") auto
  qed
qed

lemma enqueue_keeps:
  assumes e: "Enqueue now job jm = Inr jm'" and "0 \<le> Attempt job" and "0 \<le> M"
  shows "keeps M jm jm'"
  unfolding keeps_def
proof (intro impI conjI allI)
  fix L B H assume snd: "jm_sound jm"
  show adv: "advance jm jm'" using run_op_advance [OF snd, of "OpEnqueue now job"] e by simp
  have j: "jobs jm (ID job) = None" "queue jm' = queue jm @ [ID job]" "jobs jm' = (jobs jm)(ID job \<mapsto> nxt jm)"
    "Attempt (heap jm' (nxt jm)) = Attempt job" using e by (auto simp: Enqueue_def Let_def split: if_splits)
  have "job_status jm' = (job_status jm)(ID job \<mapsto> StatusPending)"
  proof -
    obtain jm1 where "Enqueue now job jm = Inr jm1" "job_status jm1 = (job_status jm)(ID job \<mapsto> StatusPending)"
      using Enqueue_named [of jm job now] snd j(1) by (auto simp: jm_named_def named_def sound_ID jm_sound_def)
    then show ?thesis using e by simp
  qed
  then show "covered L jm'" if "covered L jm" using that j(2) by (auto simp: covered_def)
  show "accounted B M (mset (queue jm') + H) jm'" if "accounted B M (mset (queue jm) + H) jm"
    using accounted_add [OF adv that, of "ID job" "nxt jm"] j assms(2,3) by simp
qed

text \<open>A failed or timed-out attempt that is queued again: the counter has been raised before.\<close>

lemma requeue_keeps:
  assumes a: "jobs jm i = Some a" and less: "Attempt (heap (bump_attempt a jm) a) < M"
    and r: "Requeue now i (bump_attempt a jm) = Inr jm'"
  shows "keeps M jm jm'"
  unfolding keeps_def
proof (intro impI conjI allI)
  fix L B H assume snd: "jm_sound jm"
  have adv1: "advance jm (bump_attempt a jm)" using bump_keeps [OF a, of M] snd by (simp add: keeps_def)
  then have snd1: "jm_sound (bump_attempt a jm)" by (simp add: advance_def)
  then show adv: "advance jm jm'"
    using advance_trans [OF adv1 run_op_advance [OF snd1, of "OpRequeue now i"]] r by simp
  have j: "queue jm' = queue jm @ [i]" "jobs jm' = jobs jm" "Attempt (heap jm' a) = Attempt (heap jm a) + 2"
    using r a by (auto simp: Requeue_def bump_attempt_def split: option.splits if_splits)
  have "job_status jm' = (job_status jm)(i \<mapsto> StatusPending)"
    using jm_store.requeue_Inr [OF _ r] snd1 by (simp add: jm_sound_def)
  then show "covered L jm'" if "covered L jm" using that j(1) by (auto simp: covered_def)
  show "accounted B M (mset (queue jm') + H) jm'" if "accounted B M (mset (queue jm) + H) jm"
    using accounted_add [OF adv that, of i a] j a less by (simp add: bump_attempt_def subset_insertI)
qed

section \<open>The handlers\<close>

lemma dead_keeps: "jobs jm i = Some a \<Longrightarrow> keeps M jm (logged (MarkDead now i (bump_attempt a jm)) (bump_attempt a jm))"
  by (rule keeps_trans [OF bump_keeps mark_keeps(3)])

lemma retry_keeps:
  assumes "jobs jm i = Some a" and "Attempt (heap (bump_attempt a jm) a) < M"
  shows "keeps M jm (logged (Requeue now i (bump_attempt a jm)) (bump_attempt a jm))"
  using requeue_keeps [OF assms] bump_keeps [OF assms(1)] by (simp add: logged_def split: sum.split)

lemma handleResult_keeps: "keeps (MaxRetry (config c)) (mgr c) (mgr (handleResult io now r c))"
  by (auto simp: handleResult_def Let_def GetJob_def mark_keeps dead_keeps retry_keeps bump_keeps
      split: option.splits prod.splits)

lemma timeout_job_keeps: "keeps (MaxRetry (config c)) (mgr c) (mgr (timeout_job io now i c))"
  by (auto simp: timeout_job_def Let_def GetJob_def dead_keeps retry_keeps split: option.splits prod.splits)

lemma handler_config:
  "config (handleResult io now r c) = config c" "config (timeout_job io now i c) = config c"
  "config (timeout_loop f n now ids c) = config c"
proof -
  show "config (handleResult io now r c) = config c"
    by (simp add: handleResult_def Let_def split: option.split prod.split)
  show t: "config (timeout_job io now i c) = config c" for io i c
    by (simp add: timeout_job_def Let_def split: option.split prod.split)
  show "config (timeout_loop f n now ids c) = config c"
    by (induction ids arbitrary: n c) (simp_all add: t)
qed

lemma timeout_loop_keeps: "keeps (MaxRetry (config c)) (mgr c) (mgr (timeout_loop io n now ids c))"
proof (induction ids arbitrary: n c)
  case Nil
  then show ?case by simp
next
  case (Cons i ids)
  show ?case
    using keeps_trans [OF timeout_job_keeps [of c "io n" now i]] Cons.IH [of "timeout_job (io n) now i c" "Suc n"]
    by (simp add: handler_config)
qed

lemma enqueue_loop_keeps:
  "fresh_jobs js \<Longrightarrow> 0 \<le> M \<Longrightarrow> keeps M jm (snd (enqueue_loop now js jm))"
proof (induction js arbitrary: jm)
  case Nil
  then show ?case by simp
next
  case (Cons j js)
  then show ?case
    using keeps_trans [OF enqueue_keeps [of now j jm]] by (auto simp: fresh_jobs_def split: sum.split)
qed

lemma apply_enqueue_keeps:
  "fresh_jobs js \<Longrightarrow> 0 \<le> M \<Longrightarrow> keeps M jm (apply_enqueue now js jm)"
proof (induction js arbitrary: jm)
  case Nil
  then show ?case by simp
next
  case (Cons j js)
  have "keeps M jm (logged (Enqueue now j jm) jm)"
    using Cons.prems enqueue_keeps [of now j jm] by (auto simp: fresh_jobs_def intro!: logged_keeps)
  then show ?case
    using keeps_trans Cons.IH Cons.prems by (auto simp: fresh_jobs_def)
qed

lemma command_keeps:
  assumes "fresh_event (SApply now cmd index)" and "0 \<le> M"
  shows "keeps M jm (handleRaftCommand now cmd jm)"
proof (cases cmd)
  case (CmdEnqueue js)
  then show ?thesis using assms by (simp add: handleRaftCommand_def apply_enqueue_keeps)
next
  case (CmdAck i st)
  then show ?thesis by (simp add: handleRaftCommand_def mark_keeps split: option.split)
qed (simp_all add: handleRaftCommand_def)

lemma apply_msg_keeps:
  assumes "fresh_event (SApply now cmd index)" and "0 \<le> M"
  shows "keeps M (mgr c) (mgr (apply_msg now cmd index c))"
  unfolding apply_msg_def
  using keeps_trans [OF command_keeps [OF assms], of "mgr c" "SetLastAppliedIndex index (handleRaftCommand now cmd (mgr c))"]
    quiet_keeps [of "OpApplied index" "handleRaftCommand now cmd (mgr c)"] by simp

lemma mark_loop_keeps: "keeps M jm (mark_loop now d as jm)"
proof (induction as arbitrary: jm)
  case Nil
  then show ?case by simp
next
  case (Cons a as)
  show ?case unfolding mark_loop.simps by (rule keeps_trans [OF mark_keeps(1) Cons.IH])
qed

text \<open>After the mark phase of a batch none of its jobs is pending.\<close>

lemma mark_status:
  assumes "jm_sound jm" and "job_status (logged (MarkInFlight now i d jm) jm) k = Some StatusPending"
  shows "k \<noteq> i \<and> job_status jm k = Some StatusPending"
proof (cases "MarkInFlight now i d jm")
  case (Inl e)
  then have "job_status jm i \<noteq> Some StatusPending"
    using jm_in_flight_ok [of jm i now d] assms(1) by (auto simp: jm_sound_def)
  then show ?thesis using assms(2) Inl by (auto simp: logged_def)
next
  case (Inr jm')
  then show ?thesis
    using jm_store.in_flight_Inr [of jm now i d jm'] assms by (auto simp: logged_def jm_sound_def split: if_splits)
qed

lemma mark_loop_status:
  assumes "jm_sound jm" and "job_status (mark_loop now d as jm) k = Some StatusPending"
  shows "k \<notin> set (names jm as) \<and> job_status jm k = Some StatusPending"
  using assms
proof (induction as arbitrary: jm)
  case Nil
  then show ?case by (simp add: names_def)
next
  case (Cons a as)
  let ?jm = "logged (MarkInFlight now (ID (heap jm a)) d jm) jm"
  have snd: "jm_sound ?jm" using mark_keeps(1) [of 0 jm now "ID (heap jm a)" d] Cons.prems(1) by (simp add: keeps_def advance_def)
  have "k \<notin> set (names ?jm as) \<and> job_status ?jm k = Some StatusPending"
    using Cons.IH [OF snd] Cons.prems(2) by simp
  moreover have "names ?jm as = names jm as" by (simp add: names_def mark_ID)
  ultimately have "k \<notin> set (names jm as)" "k \<noteq> ID (heap jm a) \<and> job_status jm k = Some StatusPending"
    using mark_status [OF Cons.prems(1), of now "ID (heap jm a)" d k] by simp_all
  then show ?case by (simp add: names_def)
qed

end
