(* ===== verification/ConcurrentProps.thy ===== *)
theory ConcurrentProps
  imports Handouts
begin

text \<open>
  What holds in every interleaving of the running controller: no job is lost or stranded, and no job is
  handed out more often than its retries allow.
\<close>

section \<open>The invariant of the running controller\<close>

fun batch_of :: "dispatcher \<Rightarrow> addr list" where
  "batch_of (DLogging todo as) = as"
| "batch_of (DSubmitting as) = as"
| "batch_of _ = []"

fun unmarked_of :: "dispatcher \<Rightarrow> addr list" where
  "unmarked_of (DLogging todo as) = as"
| "unmarked_of _ = []"

text \<open>The IDs in the hands of the dispatch loops, and those of them that are not yet marked in flight.\<close>

definition held :: "JobManager \<Rightarrow> dispatcher list \<Rightarrow> JobID multiset" where
  "held jm ds = (\<Sum>d\<leftarrow>ds. mset (names jm (batch_of d)))"

definition unmarked :: "JobManager \<Rightarrow> dispatcher list \<Rightarrow> JobID set" where
  "unmarked jm ds = (\<Union>d\<in>set ds. set (names jm (unmarked_of d)))"

definition known_addrs :: "JobManager \<Rightarrow> addr list \<Rightarrow> bool" where
  "known_addrs jm as \<longleftrightarrow> (\<forall>a \<in> set as. \<exists>i. jobs jm i = Some a)"

definition sys_inv :: "(JobID \<Rightarrow> nat) \<Rightarrow> Sys \<Rightarrow> bool" where
  "sys_inv B s \<longleftrightarrow>
     (let jm = mgr (ctl s); M = MaxRetry (config (ctl s)) in
      jm_sound jm \<and> 0 \<le> M \<and> (\<forall>d \<in> set (dispatchers s). known_addrs jm (batch_of d)) \<and>
      covered (unmarked jm (dispatchers s)) jm \<and>
      accounted B M (mset (queue jm) + (held jm (dispatchers s) + mset (handed s))) jm \<and>
      (\<forall>n todo js. calls s n = Some (todo, js) \<longrightarrow> fresh_jobs js))"

lemma names_advance:
  assumes "jm_sound jm" and "advance jm jm'" and "known_addrs jm as"
  shows "names jm' as = names jm as \<and> known_addrs jm' as"
proof -
  have "ID (heap jm' a) = ID (heap jm a) \<and> (\<exists>i. jobs jm' i = Some a)" if a: "a \<in> set as" for a
  proof -
    obtain i where i: "jobs jm i = Some a" using assms(3) a by (auto simp: known_addrs_def)
    then show ?thesis using sound_ID [OF assms(1) i] advance_ID [OF assms(2) i] advance_attempt [OF assms(2) i] by auto
  qed
  then show ?thesis by (simp add: names_def known_addrs_def)
qed

lemma unmarked_batch: "set (unmarked_of d) \<subseteq> set (batch_of d)"
  by (cases d) auto

lemma names_subset: "known_addrs jm as \<Longrightarrow> set bs \<subseteq> set as \<Longrightarrow> known_addrs jm bs"
  by (auto simp: known_addrs_def)

lemma held_advance:
  assumes "jm_sound jm" and "advance jm jm'" and "\<forall>d \<in> set ds. known_addrs jm (batch_of d)"
  shows "held jm' ds = held jm ds" "unmarked jm' ds = unmarked jm ds" "\<forall>d \<in> set ds. known_addrs jm' (batch_of d)"
proof -
  note N = names_advance [OF assms(1,2)]
  show "held jm' ds = held jm ds"
    unfolding held_def using N assms(3) by (intro arg_cong [where f = sum_list] map_cong) auto
  show "unmarked jm' ds = unmarked jm ds"
    unfolding unmarked_def using N assms(3) names_subset [OF _ unmarked_batch] by (intro SUP_cong) auto
  show "\<forall>d \<in> set ds. known_addrs jm' (batch_of d)" using N assms(3) by blast
qed

lemma held_update:
  "k < length ds \<Longrightarrow> held jm (ds[k := d]) + mset (names jm (batch_of (ds ! k))) = held jm ds + mset (names jm (batch_of d))"
proof (induction ds arbitrary: k)
  case Nil
  then show ?case by simp
next
  case (Cons e ds)
  then show ?case by (cases k) (simp_all add: held_def union_assoc union_commute union_lcomm)
qed

lemma unmarked_update:
  assumes "k < length ds"
  shows "unmarked jm ds \<subseteq> unmarked jm (ds[k := d]) \<union> set (names jm (unmarked_of (ds ! k)))"
    and "set (names jm (unmarked_of d)) \<subseteq> unmarked jm (ds[k := d])"
proof -
  show "set (names jm (unmarked_of d)) \<subseteq> unmarked jm (ds[k := d])"
    unfolding unmarked_def using set_update_memI [OF assms] by blast
  have "e \<in> set (ds[k := d])" if "e \<in> set ds" "e \<noteq> ds ! k" for e
    using that by (metis in_set_conv_nth length_list_update nth_list_update_neq)
  then show "unmarked jm ds \<subseteq> unmarked jm (ds[k := d]) \<union> set (names jm (unmarked_of (ds ! k)))"
    unfolding unmarked_def by blast
qed

lemma pop_names:
  assumes "jm_sound jm" and "pop_batch n jm = (as, jm')"
  shows "jm' = jm\<lparr>queue := drop n (queue jm)\<rparr> \<and> names jm as = take n (queue jm) \<and> known_addrs jm as"
proof -
  have inv: "jm_inv jm" using assms(1) by (simp add: jm_sound_def)
  then have q: "set (queue jm) \<subseteq> dom (jobs jm)" by (simp add: jm_inv_def)
  have p: "as = map (\<lambda>i. the (jobs jm i)) (take n (queue jm))" "jm' = jm\<lparr>queue := drop n (queue jm)\<rparr>"
    using pop_batch_char [OF q, of n] assms(2) by simp_all
  have "\<exists>a. jobs jm i = Some a \<and> ID (heap jm a) = i" if "i \<in> set (take n (queue jm))" for i
    using jm_inv_queue [OF inv in_set_takeD [OF that]] sound_ID [OF assms(1)] by blast
  then have "ID (heap jm (the (jobs jm i))) = i" "\<exists>k. jobs jm k = Some (the (jobs jm i))" if "i \<in> set (take n (queue jm))" for i
    using that by force+
  then have "names jm as = take n (queue jm)" "known_addrs jm as"
    by (auto simp: names_def known_addrs_def p(1) map_idI)
  then show ?thesis using p(2) by simp
qed

section \<open>Every step keeps it\<close>

lemma sys_inv_D:
  assumes "sys_inv B s"
  shows "jm_sound (mgr (ctl s))" "0 \<le> MaxRetry (config (ctl s))"
    "\<forall>d \<in> set (dispatchers s). known_addrs (mgr (ctl s)) (batch_of d)"
    "covered (unmarked (mgr (ctl s)) (dispatchers s)) (mgr (ctl s))"
    "accounted B (MaxRetry (config (ctl s))) (mset (queue (mgr (ctl s))) + (held (mgr (ctl s)) (dispatchers s) + mset (handed s))) (mgr (ctl s))"
    "\<And>n todo js. calls s n = Some (todo, js) \<Longrightarrow> fresh_jobs js"
  using assms unfolding sys_inv_def Let_def by blast+

text \<open>A step in which the dispatch loops do not move: the manager is \<open>kept\<close>.\<close>

lemma sys_inv_keeps:
  assumes inv: "sys_inv B s" and k: "keeps (MaxRetry (config (ctl s))) (mgr (ctl s)) (mgr (ctl s'))"
    and same: "config (ctl s') = config (ctl s)" "dispatchers s' = dispatchers s" "handed s' = handed s"
    and fresh: "\<And>n todo js. calls s' n = Some (todo, js) \<Longrightarrow> fresh_jobs js"
  shows "sys_inv B s'"
proof -
  note D = sys_inv_D [OF inv]
  have adv: "advance (mgr (ctl s)) (mgr (ctl s'))" using k D(1) by (simp add: keeps_def)
  note H = held_advance [OF D(1) adv D(3)]
  have "jm_sound (mgr (ctl s'))" using adv by (simp add: advance_def)
  moreover have "covered (unmarked (mgr (ctl s)) (dispatchers s)) (mgr (ctl s'))" using k D(1,4) by (simp add: keeps_def)
  moreover have "accounted B (MaxRetry (config (ctl s)))
      (mset (queue (mgr (ctl s'))) + (held (mgr (ctl s)) (dispatchers s) + mset (handed s))) (mgr (ctl s'))"
    using k D(1,5) by (simp add: keeps_def)
  ultimately show ?thesis using H D(2) same fresh by (simp add: sys_inv_def Let_def)
qed

text \<open>A step of one dispatch loop: the manager keeps its jobs and what the loop holds changes.\<close>

lemma sys_inv_loop:
  assumes inv: "sys_inv B s" and k: "k < length (dispatchers s)" "dispatchers s' = (dispatchers s)[k := d]"
    and adv: "advance (mgr (ctl s)) (mgr (ctl s'))" and jobs: "jobs (mgr (ctl s')) = jobs (mgr (ctl s))"
    and cfg: "config (ctl s') = config (ctl s)" "calls s' = calls s"
    and d: "known_addrs (mgr (ctl s)) (batch_of d)"
    and bal: "mset (queue (mgr (ctl s'))) + mset (names (mgr (ctl s)) (batch_of d)) + mset (handed s') =
      mset (queue (mgr (ctl s))) + mset (names (mgr (ctl s)) (batch_of (dispatchers s ! k))) + mset (handed s)"
    and pend: "\<And>i. job_status (mgr (ctl s')) i = Some StatusPending \<Longrightarrow> job_status (mgr (ctl s)) i = Some StatusPending \<and>
      (i \<in> set (queue (mgr (ctl s))) \<longrightarrow> i \<in> set (queue (mgr (ctl s'))) \<union> set (names (mgr (ctl s)) (unmarked_of d))) \<and>
      (i \<in> set (names (mgr (ctl s)) (unmarked_of (dispatchers s ! k))) \<longrightarrow> i \<in> set (names (mgr (ctl s)) (unmarked_of d)))"
  shows "sys_inv B s'"
proof -
  let ?jm = "mgr (ctl s)" and ?jm' = "mgr (ctl s')" and ?ds = "dispatchers s" and ?ds' = "(dispatchers s)[k := d]"
  let ?M = "MaxRetry (config (ctl s))"
  note D = sys_inv_D [OF inv]
  have kn: "\<forall>e \<in> set ?ds'. known_addrs ?jm (batch_of e)" using D(3) d set_update_subset_insert [of ?ds k d] by blast
  note H = held_advance [OF D(1) adv kn]
  have "mset (queue ?jm') + (held ?jm ?ds' + mset (handed s')) + mset (names ?jm (batch_of (?ds ! k))) =
      mset (queue ?jm) + (held ?jm ?ds + mset (handed s)) + mset (names ?jm (batch_of (?ds ! k)))"
    using held_update [OF k(1), of ?jm d] bal by (simp add: ac_simps)
  then have eq: "mset (queue ?jm') + (held ?jm ?ds' + mset (handed s')) = mset (queue ?jm) + (held ?jm ?ds + mset (handed s))"
    by simp
  have acc: "accounted B ?M (mset (queue ?jm') + (held ?jm' ?ds' + mset (handed s'))) ?jm'"
    using accounted_advance [OF adv jobs D(5)] by (simp only: H eq)
  have "covered (unmarked ?jm ?ds') ?jm'"
    unfolding covered_def
  proof (intro allI impI)
    fix i assume "job_status ?jm' i = Some StatusPending"
    note p = pend [OF this]
    then have "i \<in> set (queue ?jm) \<union> unmarked ?jm ?ds" using D(4) by (simp add: covered_def)
    then show "i \<in> set (queue ?jm') \<union> unmarked ?jm ?ds'"
      using p unmarked_update [OF k(1), where jm = ?jm and d = d] by blast
  qed
  then show ?thesis
    using acc H(2,3) adv D(2,6) cfg k(2) by (simp add: sys_inv_def Let_def advance_def)
qed

lemma mark_loop_frame: "jobs (mark_loop now d as jm) = jobs jm \<and> queue (mark_loop now d as jm) = queue jm"
proof (induction as arbitrary: jm)
  case Nil
  then show ?case by simp
next
  case (Cons a as)
  have "jobs (logged (MarkInFlight now i d jm) jm) = jobs jm \<and> queue (logged (MarkInFlight now i d jm) jm) = queue jm" for i
    by (simp add: logged_def MarkInFlight_def split: option.split)
  then show ?case using Cons.IH by simp
qed

lemma drop_advance:
  assumes "jm_sound jm"
  shows "advance jm (jm\<lparr>queue := drop n (queue jm)\<rparr>)"
proof -
  have "jm_inv (jm\<lparr>queue := drop n (queue jm)\<rparr>)"
    by (rule jm_inv_frame [of jm]) (use assms in \<open>simp_all add: jm_sound_def set_drop_subset\<close>)
  moreover have "job_view (jm\<lparr>queue := drop n (queue jm)\<rparr>) = job_view jm" by (simp add: job_view_def fun_eq_iff)
  ultimately show ?thesis using assms by (simp add: advance_def jm_sound_def evolves_to_final_def)
qed

lemma nth_dispatcher_D: "nth_dispatcher k s = d \<Longrightarrow> d \<noteq> DExited \<Longrightarrow> k < length (dispatchers s) \<and> dispatchers s ! k = d"
  by (simp add: nth_dispatcher_def split: if_splits)

lemma sys_pop_inv:
  assumes inv: "sys_inv B s" and e: "sys_pop k s = Some s'"
  shows "sys_inv B s'"
proof -
  note D = sys_inv_D [OF inv]
  let ?jm = "mgr (ctl s)"
  have n: "nth_dispatcher k s = DIdle" using e by (auto simp: sys_pop_def split: dispatcher.splits)
  then have k: "k < length (dispatchers s)" "dispatchers s ! k = DIdle" using nth_dispatcher_D by auto
  obtain as jm where p: "pop_batch 10 ?jm = (as, jm)" by fastforce
  note P = pop_names [OF D(1) p]
  let ?d = "if as = [] then DIdle else DLogging as as"
  have s': "s' = s\<lparr>ctl := (ctl s)\<lparr>mgr := jm\<rparr>, dispatchers := (dispatchers s)[k := ?d]\<rparr>"
    using e n p by (simp add: sys_pop_def dispatch_pop_def)
  have jm: "jobs jm = jobs ?jm" "heap jm = heap ?jm" "queue jm = drop 10 (queue ?jm)" "job_view jm = job_view ?jm"
    using P by (simp_all add: job_view_def)
  have adv: "advance ?jm jm" using drop_advance [OF D(1), of 10] P by simp
  have b: "batch_of ?d = as" "unmarked_of ?d = as" by simp_all
  have q: "queue ?jm = names ?jm as @ drop 10 (queue ?jm)" using P by simp
  show ?thesis
  proof (rule sys_inv_loop [OF inv k(1)])
    show "mset (queue (mgr (ctl s'))) + mset (names ?jm (batch_of ?d)) + mset (handed s') =
        mset (queue ?jm) + mset (names ?jm (batch_of (dispatchers s ! k))) + mset (handed s)"
      using s' jm(3) b(1) k(2) by (subst q) (simp add: names_def ac_simps)
    fix i assume "job_status (mgr (ctl s')) i = Some StatusPending"
    moreover have "job_status (mgr (ctl s')) = job_status ?jm" using s' jm(4) by (simp add: job_status_def)
    moreover have "i \<in> set (queue ?jm) \<longrightarrow> i \<in> set (queue (mgr (ctl s'))) \<union> set (names ?jm (unmarked_of ?d))"
      unfolding b(2) by (subst q) (use s' jm(3) in auto)
    ultimately show "job_status ?jm i = Some StatusPending \<and>
        (i \<in> set (queue ?jm) \<longrightarrow> i \<in> set (queue (mgr (ctl s'))) \<union> set (names ?jm (unmarked_of ?d))) \<and>
        (i \<in> set (names ?jm (unmarked_of (dispatchers s ! k))) \<longrightarrow> i \<in> set (names ?jm (unmarked_of ?d)))"
      using k(2) by (simp add: names_def)
  qed (use s' jm adv P b in simp_all)
qed

text \<open>The steps of a loop that only change the log, or nothing the accounts see.\<close>

lemma sys_quiet_inv:
  assumes inv: "sys_inv B s"
  shows "sys_exit k s = Some s' \<Longrightarrow> sys_inv B s'" "sys_log k io now s = Some s' \<Longrightarrow> sys_inv B s'"
    "sys_submit k s = Some s' \<Longrightarrow> sys_inv B s'"
proof -
  note D = sys_inv_D [OF inv]
  have adv: "advance (mgr (ctl s)) (mgr (ctl s))" by (rule advance_refl [OF D(1)])
  have kn: "known_addrs (mgr (ctl s)) (batch_of (dispatchers s ! k))" if "k < length (dispatchers s)" using D(3) that by simp
  {
    assume e: "sys_exit k s = Some s'"
    have n: "nth_dispatcher k s = DIdle" using e by (auto simp: sys_exit_def split: dispatcher.splits)
    then have k: "k < length (dispatchers s)" "dispatchers s ! k = DIdle" using nth_dispatcher_D by auto
    show "sys_inv B s'"
      by (rule sys_inv_loop [OF inv k(1), of _ DExited])
        (use e n k adv in \<open>auto simp: sys_exit_def known_addrs_def names_def split: if_splits\<close>)
  }
  {
    assume e: "sys_log k io now s = Some s'"
    obtain a todo as where n: "nth_dispatcher k s = DLogging (a # todo) as"
      using e by (auto simp: sys_log_def split: dispatcher.splits list.splits)
    then have k: "k < length (dispatchers s)" "dispatchers s ! k = DLogging (a # todo) as" using nth_dispatcher_D by auto
    show "sys_inv B s'"
      by (rule sys_inv_loop [OF inv k(1), of _ "DLogging todo as"])
        (use e n k adv kn [OF k(1)] in \<open>auto simp: sys_log_def\<close>)
  }
  {
    assume e: "sys_submit k s = Some s'"
    obtain a as where n: "nth_dispatcher k s = DSubmitting (a # as)"
      using e by (auto simp: sys_submit_def split: dispatcher.splits list.splits)
    then have k: "k < length (dispatchers s)" "dispatchers s ! k = DSubmitting (a # as)" using nth_dispatcher_D by auto
    have b: "batch_of (if as = [] then DIdle else DSubmitting as) = as" "unmarked_of (if as = [] then DIdle else DSubmitting as) = []"
      by simp_all
    let ?d = "if as = [] then DIdle else DSubmitting as"
    have s': "s' = s\<lparr>ctl := dispatch_submit [a] (ctl s), handed := ID (heap (mgr (ctl s)) a) # handed s,
        dispatchers := (dispatchers s)[k := ?d]\<rparr>" using e n by (simp add: sys_submit_def)
    have kn': "known_addrs (mgr (ctl s)) as" using kn [OF k(1)] k(2) by (simp add: known_addrs_def)
    show "sys_inv B s'"
      by (rule sys_inv_loop [OF inv k(1), of _ "if as = [] then DIdle else DSubmitting as"])
        (unfold s' b, use k adv kn' in \<open>simp_all add: dispatch_submit_def names_def\<close>)
  }
qed

lemma sys_mark_inv:
  assumes inv: "sys_inv B s" and e: "sys_mark k now s = Some s'"
  shows "sys_inv B s'"
proof -
  note D = sys_inv_D [OF inv]
  obtain as where n: "nth_dispatcher k s = DLogging [] as"
    using e by (auto simp: sys_mark_def split: dispatcher.splits list.splits)
  then have k: "k < length (dispatchers s)" "dispatchers s ! k = DLogging [] as" using nth_dispatcher_D by auto
  let ?d = "now + TaskTimeout (config (ctl s))"
  let ?jm = "mgr (ctl s)" and ?jm' = "mark_loop now ?d as (mgr (ctl s))"
  have s': "s' = s\<lparr>ctl := (ctl s)\<lparr>mgr := ?jm'\<rparr>, dispatchers := (dispatchers s)[k := DSubmitting as]\<rparr>"
    using e n by (simp add: sys_mark_def dispatch_mark_def)
  have adv: "advance ?jm ?jm'" using mark_loop_keeps [of 0 ?jm now ?d as] D(1) by (simp add: keeps_def)
  have jq: "jobs ?jm' = jobs ?jm \<and> queue ?jm' = queue ?jm" by (rule mark_loop_frame)
  have kn: "known_addrs ?jm as" using D(3) k nth_mem [OF k(1)] by force
  show ?thesis
    by (rule sys_inv_loop [OF inv k(1), of _ "DSubmitting as"])
      (use s' jq adv kn k(2) mark_loop_status [OF D(1), of now ?d as] in \<open>auto simp: names_def\<close>)
qed

lemma sys_poll_inv:
  assumes inv: "sys_inv B s"
  shows "sys_inv B (sys_poll io now n s)"
proof (cases "ctl_stopped (ctl s)")
  case True
  then have "sys_poll io now n s = s\<lparr>ctl := ctl s\<rparr>" by (simp add: sys_poll_def Poll_def)
  then show ?thesis using inv by simp
next
  case False
  note D = sys_inv_D [OF inv]
  let ?jm = "mgr (ctl s)" and ?d = "now + TaskTimeout (config (ctl s))"
  obtain as jm where p: "pop_batch n ?jm = (as, jm)" by fastforce
  note P = pop_names [OF D(1) p]
  let ?jm' = "mark_loop now ?d as jm"
  obtain w where s': "sys_poll io now n s = s\<lparr>ctl := (ctl s)\<lparr>wal := w, mgr := ?jm'\<rparr>, handed := names ?jm' as @ handed s\<rparr>"
  proof (cases "as = []")
    case True
    then have "sys_poll io now n s = s\<lparr>ctl := (ctl s)\<lparr>wal := wal (ctl s), mgr := ?jm'\<rparr>, handed := names ?jm' as @ handed s\<rparr>"
      using False p by (simp add: sys_poll_def Poll_def names_def)
    then show ?thesis by (rule that)
  next
    case False': False
    then show ?thesis using False p by (intro that) (simp add: sys_poll_def Poll_def poll_loop_phases)
  qed
  have jm: "jobs jm = jobs ?jm" "heap jm = heap ?jm" "queue jm = drop n (queue ?jm)" "job_view jm = job_view ?jm"
    using P by (simp_all add: job_view_def)
  have adv1: "advance ?jm jm" using drop_advance [OF D(1), of n] P by simp
  then have snd: "jm_sound jm" by (simp add: advance_def)
  have adv: "advance ?jm ?jm'"
    using advance_trans [OF adv1] mark_loop_keeps [of 0 jm now ?d as] snd by (simp add: keeps_def)
  have jq: "jobs ?jm' = jobs ?jm \<and> queue ?jm' = drop n (queue ?jm)" using mark_loop_frame [of now ?d as jm] jm by simp
  have nm: "names ?jm' as = take n (queue ?jm)" using names_advance [OF D(1) adv] P by simp
  note H = held_advance [OF D(1) adv D(3)]
  have "mset (queue ?jm) = mset (drop n (queue ?jm)) + mset (take n (queue ?jm))"
    by (metis append_take_drop_id mset_append union_commute)
  then have acc: "accounted B (MaxRetry (config (ctl s)))
      (mset (queue ?jm') + (held ?jm' (dispatchers s) + mset (names ?jm' as @ handed s))) ?jm'"
    using accounted_advance [OF adv _ D(5)] jq nm H(1) by (simp add: ac_simps)
  have "covered (unmarked ?jm (dispatchers s)) ?jm'"
    unfolding covered_def
  proof (intro allI impI)
    fix i assume "job_status ?jm' i = Some StatusPending"
    note st = mark_loop_status [OF snd this]
    have "names jm as = take n (queue ?jm)" using P jm(2) by (simp add: names_def)
    moreover have "job_status jm = job_status ?jm" using jm(4) by (simp add: job_status_def)
    ultimately have i: "i \<notin> set (take n (queue ?jm))" "job_status ?jm i = Some StatusPending" using st by simp_all
    then have "i \<in> set (take n (queue ?jm) @ drop n (queue ?jm)) \<union> unmarked ?jm (dispatchers s)" using D(4) by (simp add: covered_def)
    then show "i \<in> set (queue ?jm') \<union> unmarked ?jm (dispatchers s)" using i(1) jq unfolding set_append by auto
  qed
  then show ?thesis
    using acc H D(2,6) adv by (simp add: s' sys_inv_def Let_def advance_def)
qed

lemma sys_call_inv:
  assumes inv: "sys_inv B s"
  shows "fresh_jobs js \<Longrightarrow> sys_call n js s = Some s' \<Longrightarrow> sys_inv B s'"
    and "sys_call_log n io now s = Some s' \<Longrightarrow> sys_inv B s'" and "sys_call_add n now s = Some s' \<Longrightarrow> sys_inv B s'"
proof -
  note D = sys_inv_D [OF inv]
  show "sys_inv B s'" if "fresh_jobs js" "sys_call n js s = Some s'"
    by (rule sys_inv_keeps [OF inv]) (use that D(6) in \<open>auto simp: sys_call_def split: if_splits\<close>)
  show "sys_inv B s'" if "sys_call_log n io now s = Some s'"
    by (rule sys_inv_keeps [OF inv])
      (use that D(6) in \<open>auto simp: sys_call_log_def split: option.splits list.splits prod.splits if_splits\<close>)
  show "sys_inv B s'" if e: "sys_call_add n now s = Some s'"
  proof -
    obtain js where c: "calls s n = Some ([], js)"
      and s': "s' = s\<lparr>ctl := (ctl s)\<lparr>mgr := snd (enqueue_loop now js (mgr (ctl s)))\<rparr>, calls := (calls s)(n := None)\<rparr>"
      using e by (auto simp: sys_call_add_def split: option.splits list.splits)
    show ?thesis
      by (rule sys_inv_keeps [OF inv])
        (use s' D(6) enqueue_loop_keeps [OF D(6) [OF c] D(2)] in \<open>auto split: if_splits\<close>)
  qed
qed

lemma sys_handler_inv:
  assumes inv: "sys_inv B s"
  shows "sys_inv B (s\<lparr>ctl := handleResult io now r (ctl s)\<rparr>)" "sys_inv B (s\<lparr>ctl := timeout_tick ord f now (ctl s)\<rparr>)"
    "fresh_event (SApply now cmd index) \<Longrightarrow> sys_inv B (s\<lparr>ctl := apply_msg now cmd index (ctl s)\<rparr>)"
proof -
  note D = sys_inv_D [OF inv]
  show "sys_inv B (s\<lparr>ctl := handleResult io now r (ctl s)\<rparr>)"
    by (rule sys_inv_keeps [OF inv]) (use D(6) in \<open>simp_all add: handleResult_keeps handler_config\<close>)
  show "sys_inv B (s\<lparr>ctl := timeout_tick ord f now (ctl s)\<rparr>)"
    by (rule sys_inv_keeps [OF inv]) (use D(6) in \<open>simp_all add: timeout_tick_def timeout_loop_keeps handler_config\<close>)
  show "sys_inv B (s\<lparr>ctl := apply_msg now cmd index (ctl s)\<rparr>)" if "fresh_event (SApply now cmd index)"
    by (rule sys_inv_keeps [OF inv])
      (use D(6) apply_msg_keeps [OF that D(2)] in \<open>simp_all, simp_all add: apply_msg_def\<close>)
qed

text \<open>Checkpoints, the stop flag and the close of the log leave the manager alone.\<close>

lemma sys_ctl_inv:
  assumes inv: "sys_inv B s"
    and e: "sys_copy s = Some s' \<or> sys_write fault s = Some s' \<or> sys_rotate rot stamp s = Some s' \<or>
      sys_stop s = Some s' \<or> sys_close fails s = Some s'"
  shows "sys_inv B s'"
proof -
  have "mgr (ctl s') = mgr (ctl s) \<and> config (ctl s') = config (ctl s) \<and> dispatchers s' = dispatchers s \<and>
      handed s' = handed s \<and> calls s' = calls s"
    using e by (elim disjE)
      (auto simp: sys_copy_def sys_write_def sys_rotate_def sys_stop_def sys_close_def split: checkpointer.splits prod.splits if_splits)
  then show ?thesis using sys_inv_D(6) [OF inv] by (intro sys_inv_keeps [OF inv]) simp_all
qed

lemma sys_step_inv:
  assumes inv: "sys_inv B s" and f: "fresh_event e" and e: "sys_step e s = Some s'"
  shows "sys_inv B s'"
proof (cases e)
  case (SMark k now)
  then show ?thesis using e sys_mark_inv [OF inv] by simp
next
  case (SPop k)
  then show ?thesis using e sys_pop_inv [OF inv] by simp
next
  case (SPoll io now n)
  then show ?thesis using e sys_poll_inv [OF inv] by auto
next
  case (SCall n js)
  then show ?thesis using e f sys_call_inv(1) [OF inv] by simp
next
  case (SApply now cmd index)
  then show ?thesis using e f sys_handler_inv(3) [OF inv, of now cmd index] by auto
next
  case (SResult io now r)
  then show ?thesis using e sys_handler_inv(1) [OF inv] by auto
next
  case (STimeout ord io now)
  then show ?thesis using e sys_handler_inv(2) [OF inv] by auto
qed (use e sys_quiet_inv [OF inv] sys_call_inv(2,3) [OF inv] sys_ctl_inv [OF inv] in \<open>simp_all, blast+\<close>)

lemma sys_run_inv:
  "sys_run es s = Some s' \<Longrightarrow> sys_inv B s \<Longrightarrow> list_all fresh_event es \<Longrightarrow> sys_inv B s'"
proof (induction es arbitrary: s)
  case Nil
  then show ?case by simp
next
  case (Cons e es)
  then show ?case by (auto split: option.splits intro: sys_step_inv)
qed

section \<open>Where a run starts\<close>

text \<open>
  \<open>ready\<close>: a sound manager whose pending jobs are all queued. A start leaves the manager ready when the
  snapshot's jobs are typed and have counters that are not negative; the queue may list a job more than once.
\<close>

definition ready :: "JobManager \<Rightarrow> bool" where
  "ready jm \<longleftrightarrow> jm_sound jm \<and> covered {} jm \<and> (\<forall>i a. jobs jm i = Some a \<longrightarrow> 0 \<le> Attempt (heap jm a))"

definition good_snapshot :: "SnapshotData \<Rightarrow> bool" where
  "good_snapshot data \<longleftrightarrow> jobs_typed (Jobs data) \<and> (\<forall>i j. Jobs data i = Some j \<longrightarrow> 0 \<le> Attempt j)"

lemma start_loops_inv:
  assumes "ready (mgr c)" and "0 \<le> MaxRetry (config c)"
  shows "sys_inv (\<lambda>i. count_list (queue (mgr c)) i - 1) (start_loops c)"
proof -
  let ?jm = "mgr c" and ?ds = "dispatchers (start_loops c)"
  have ds: "d = DIdle" if "d \<in> set ?ds" for d using that by (auto simp: start_loops_def)
  have "held ?jm (replicate n DIdle) = {#}" for n by (induction n) (simp_all add: held_def names_def)
  then have held: "held ?jm ?ds = {#}" "unmarked ?jm ?ds = {}"
    using ds by (simp_all add: unmarked_def names_def start_loops_def)
  have "set (queue ?jm) \<subseteq> dom (jobs ?jm)" using assms(1) by (simp add: ready_def jm_sound_def jm_inv_def)
  moreover have "2 * int (count_list (queue ?jm) i) \<le> 2 + 2 * int (count_list (queue ?jm) i - 1) + min (Attempt (heap ?jm a)) (MaxRetry (config c))"
    if "jobs ?jm i = Some a" for i a
  proof -
    have "0 \<le> Attempt (heap ?jm a)" using assms(1) that by (simp add: ready_def)
    then show ?thesis using assms(2) by linarith
  qed
  ultimately have "accounted (\<lambda>i. count_list (queue ?jm) i - 1) (MaxRetry (config c)) (mset (queue ?jm)) ?jm"
    by (simp add: accounted_def count_mset)
  then show ?thesis
    using assms held ds by (auto simp: sys_inv_def Let_def ready_def known_addrs_def) (auto simp: start_loops_def known_addrs_def)
qed

lemma run_op_ready:
  assumes r: "ready jm" and op: "run_op op jm = Inr jm'" "op = OpRequeue now i \<or> quiet op"
  shows "ready jm'"
proof -
  have snd: "jm_sound jm" and inv: "jm_inv jm" using r by (simp_all add: ready_def jm_sound_def)
  have nr: "\<not> is_restore op" using op(2) by (cases op) auto
  have adv: "advance jm jm'" by (rule run_op_advance [OF snd nr op(1)])
  have jobs: "jobs jm' = jobs jm"
    using op by (cases op) (auto simp: jm_defs GetJob_def split: option.splits if_splits)
  have "covered {} jm'"
  proof (cases "quiet op")
    case True
    then show ?thesis using quiet_keeps [OF True op(1), of 0] r by (simp add: keeps_def ready_def)
  next
    case False
    then have rq: "Requeue now i jm = Inr jm'" using op by auto
    show ?thesis
      using jm_store.requeue_Inr [OF inv rq] status_op_queue(3) [OF rq] r by (auto simp: ready_def covered_def)
  qed
  moreover have "0 \<le> Attempt (heap jm' a)" if "jobs jm' k = Some a" for k a
  proof -
    have "jobs jm k = Some a" using that jobs by simp
    then show ?thesis using r advance_attempt [OF adv] by (force simp: ready_def)
  qed
  ultimately show ?thesis using adv by (simp add: ready_def advance_def)
qed

lemma replay_handler_ready:
  assumes "ready jm" and "replay_handler now d ev jm = (err, jm')"
  shows "ready jm'"
proof -
  have m: "ready jm''" if "run_op op jm = Inr jm''" "quiet op \<or> op = OpRequeue now i" for op jm'' i
    using run_op_ready [OF assms(1) that(1)] that(2) by blast
  have r: "ready (snd (returned (run_op op jm) jm))" if "quiet op \<or> op = OpRequeue now i" for op i
    using m [OF _ that] assms(1) by (simp add: returned_def split: sum.split)
  note R = r [of "OpInFlight now (EvJobID ev) (now + d)"] r [of "OpCompleted now (EvJobID ev)"]
    r [of "OpRequeue now (EvJobID ev)"] r [of "OpDead now (EvJobID ev)"]
  have "jm' = snd (replay_handler now d ev jm)" using assms(2) by simp
  then show ?thesis
    using R assms(1) by (simp add: replay_handler_def Let_def split: EventType.split)
qed

lemma requeue_all_ready: "ready jm \<Longrightarrow> ready (requeue_all now ids jm)"
proof (induction ids arbitrary: jm)
  case Nil
  then show ?case by simp
next
  case (Cons i ids)
  have "ready (logged (Requeue now i jm) jm)"
    using run_op_ready [OF Cons.prems, of "OpRequeue now i"] Cons.prems by (auto simp: logged_def split: sum.split)
  then show ?case using Cons.IH by simp
qed

lemma Restore_ready:
  assumes "good_snapshot data" and "enumerates ord (Jobs data)"
  shows "ready (Restore ord data jm)"
proof -
  let ?jm = "Restore ord data jm"
  note A = Restore_abs [OF assms(2), of jm]
  have view: "job_view ?jm = Jobs data" using arg_cong [OF A, of spec_jobs] by simp
  have q: "queue ?jm = filter (\<lambda>i. case Jobs data i of None \<Rightarrow> False | Some j \<Rightarrow> Status j = StatusPending) ord"
    using arg_cong [OF A, of spec_queue] by simp
  have inv: "jm_inv ?jm" by (rule Restore_inv [OF enumerates_distinct [OF assms(2)]])
  have "covered {} ?jm"
    using enumerates_set [OF assms(2)] by (auto simp: covered_def job_status_def view q dom_def)
  moreover have "0 \<le> Attempt (heap ?jm a)" if "jobs ?jm i = Some a" for i a
  proof -
    have "Jobs data i = Some (heap ?jm a)" using that view by (metis job_view_iff)
    then show ?thesis using assms(1) by (simp add: good_snapshot_def)
  qed
  ultimately show ?thesis using inv view assms(1) by (simp add: ready_def jm_sound_def good_snapshot_def)
qed

lemma replay_loop_ready:
  "ready jm \<Longrightarrow> replay_loop (replay_handler now d) ls jm = (err, jm') \<Longrightarrow> ready jm'"
proof (induction ls arbitrary: jm)
  case Nil
  then show ?case by simp
next
  case (Cons l ls)
  show ?case
  proof (cases l)
    case (Rec ev)
    obtain err1 jm1 where h: "replay_handler now d ev jm = (err1, jm1)" by fastforce
    have "ready jm1" by (rule replay_handler_ready [OF Cons.prems(1) h])
    then show ?thesis using Cons h Rec by (cases err1) (auto split: if_splits)
  qed (use Cons in auto)
qed

text \<open>Every successful start, whatever the log holds, leaves the manager ready.\<close>

lemma Start_ready:
  assumes "Start unreadable ord ord' now c = Inr c'" and "Load unreadable (snap c) = Inr data"
    and "good_snapshot data" and "enumerates ord (Jobs data)"
  shows "ready (mgr c') \<and> config c' = config c"
proof -
  let ?c1 = "c\<lparr>mgr := Restore ord data (mgr c)\<rparr>"
  have l: "loadSnapshot unreadable ord c = Inr ?c1" using assms(2) by (simp add: loadSnapshot_def)
  obtain c2 where c2: "replayWAL now ?c1 = (None, c2)"
    "c' = c2\<lparr>mgr := requeue_all now (GetAllInFlightJobs ord' (mgr c2)) (mgr c2), ctl_running := True\<rparr>"
    using assms(1) l by (auto simp: Start_def recover_def res_bind_Inr_iff split: prod.splits option.splits)
  have "ready (mgr ?c1)" using Restore_ready [OF assms(3,4)] by simp
  moreover obtain ls jm where "replay_loop (replay_handler now (TaskTimeout (config c))) ls (mgr ?c1) = (None, jm)" "c2 = ?c1\<lparr>mgr := jm\<rparr>"
    using c2(1) by (auto simp: replayWAL_def Replay_def split: prod.splits option.splits)
  ultimately have "ready (mgr c2)" "config c2 = config c" using replay_loop_ready by auto
  then show ?thesis using c2(2) requeue_all_ready by simp
qed

lemma sys_run_config: "sys_run es s = Some s' \<Longrightarrow> config (ctl s') = config (ctl s)"
proof (induction es arbitrary: s)
  case Nil
  then show ?case by simp
next
  case (Cons e es)
  obtain s1 where s1: "sys_step e s = Some s1" "sys_run es s1 = Some s'" using Cons.prems by (auto split: option.splits)
  have "config (ctl s1) = config (ctl s)"
    using s1(1)
    by (cases e) (auto simp: sys_pop_def dispatch_pop_def sys_exit_def sys_log_def sys_mark_def dispatch_mark_def
        sys_submit_def dispatch_submit_def sys_call_def sys_call_log_def sys_call_add_def sys_poll_def Poll_def poll_loop_phases
        timeout_tick_def handler_config apply_msg_def sys_copy_def sys_write_def sys_rotate_def sys_stop_def sys_close_def
        split: dispatcher.splits list.splits option.splits prod.splits sum.splits if_splits checkpointer.splits)
  then show ?case using Cons.IH [OF s1(2)] by simp
qed

section \<open>Properties\<close>

text \<open>C10. No interleaving strands a job. After any successful start (from a well-formed snapshot, with a retry limit
  that is not negative, new jobs coming without negative attempt counters) and any steps of the loops, the callers and the
  timers, in any order and with any failing calls, a job that is neither completed nor dead is queued, or in
  the batch of a dispatch loop that will mark and submit it, or in flight with a deadline, after which the
  timeout loop takes it up.\<close>

theorem no_job_stranded:
  assumes "Load unreadable (snap c) = Inr data" and "good_snapshot data" and "enumerates ord (Jobs data)"
    and "0 \<le> MaxRetry (config c)" and "Start unreadable ord ord' now c = Inr c'"
    and "sys_run es (start_loops c') = Some s" and "list_all fresh_event es"
    and "job_view (mgr (ctl s)) i = Some j" and "Status j \<notin> {StatusCompleted, StatusDead}"
  shows "Status j = StatusPending \<and> (i \<in> set (queue (mgr (ctl s))) \<or>
      (\<exists>k todo as. nth_dispatcher k s = DLogging todo as \<and> i \<in> set (names (mgr (ctl s)) as))) \<or>
    Status j = StatusInFlight \<and> (\<exists>d. Deadline j = Some d)"
proof -
  note R = Start_ready [OF assms(5,1-3)]
  have "sys_inv (\<lambda>i. count_list (queue (mgr c')) i - 1) s"
    by (rule sys_run_inv [OF assms(6) start_loops_inv assms(7)]) (use R assms(4) in simp_all)
  note D = sys_inv_D [OF this]
  have t: "job_typed i j" using D(1) assms(8) by (simp add: jm_sound_def jobs_typed_def)
  show ?thesis
  proof (cases "Status j = StatusPending")
    case True
    then have "job_status (mgr (ctl s)) i = Some StatusPending" using assms(8) by (simp add: job_status_def)
    then consider "i \<in> set (queue (mgr (ctl s)))"
      | d where "d \<in> set (dispatchers s)" "i \<in> set (names (mgr (ctl s)) (unmarked_of d))"
      using D(4) by (auto simp: covered_def unmarked_def)
    then show ?thesis
    proof cases
      case 1
      then show ?thesis using True by simp
    next
      case (2 d)
      then obtain k where k: "nth_dispatcher k s = d" by (metis in_set_conv_nth nth_dispatcher_def)
      obtain todo as where "d = DLogging todo as" using 2(2) by (cases d) (simp_all add: names_def)
      then show ?thesis using True k 2(2) by auto
    qed
  next
    case False
    then show ?thesis using t assms(9) by (auto simp: job_typed_def)
  qed
qed

text \<open>C9. The retries bound the work. In every run after any successful start (from a well-formed snapshot, with a
  retry limit that is not negative, new jobs coming without negative attempt counters), a job is handed to the pool or to
  remote pollers at most \<open>1 + MaxRetry / 2\<close> times, whatever results, late or wrong ones included, and
  timeouts arrive, unless the recovered queue lists it more than once: then at most as often as it is
  listed, plus \<open>MaxRetry / 2\<close>. (Each retry raises the counter by two.)\<close>

theorem handouts_bounded:
  assumes "Load unreadable (snap c) = Inr data" and "good_snapshot data" and "enumerates ord (Jobs data)"
    and "0 \<le> MaxRetry (config c)" and "Start unreadable ord ord' now c = Inr c'"
    and "sys_run es (start_loops c') = Some s" and "list_all fresh_event es"
  shows "int (count_list (handed s) i) \<le> max 1 (int (count_list (queue (mgr c')) i)) + MaxRetry (config c) div 2"
proof -
  let ?B = "\<lambda>i. count_list (queue (mgr c')) i - 1" and ?M = "MaxRetry (config c)"
  note R = Start_ready [OF assms(5,1-3)]
  have "sys_inv ?B s"
    by (rule sys_run_inv [OF assms(6) start_loops_inv assms(7)]) (use R assms(4) in simp_all)
  note D = sys_inv_D [OF this]
  have M: "MaxRetry (config (ctl s)) = ?M" using sys_run_config [OF assms(6)] R by (simp add: start_loops_def)
  let ?T = "mset (queue (mgr (ctl s))) + (held (mgr (ctl s)) (dispatchers s) + mset (handed s))"
  have le: "count_list (handed s) i \<le> count ?T i" by (simp add: count_mset)
  show ?thesis
  proof (cases "count ?T i")
    case 0
    then have "count_list (handed s) i = 0" using le by simp
    then show ?thesis using assms(4) by simp
  next
    case (Suc n)
    then have "i \<in># ?T" by (metis count_greater_zero_iff zero_less_Suc)
    then obtain a where "jobs (mgr (ctl s)) i = Some a" using D(5) by (auto simp: accounted_def)
    then have "2 * int (count ?T i) \<le> 2 + 2 * int (?B i) + min (Attempt (heap (mgr (ctl s)) a)) ?M"
      using D(5) [unfolded accounted_def M] by blast
    then show ?thesis using le by linarith
  qed
qed

section \<open>A sample run\<close>

text \<open>A job is enqueued on an empty system, polled, fails, and is polled again.\<close>

definition sample_events :: "sys_event list" where
  "sample_events = [SCall 0 [job_named ''a''], SCallLog 0 FlushOk 1, SCallAdd 0 2, SPoll (\<lambda>_. FlushOk) 3 1,
     SResult FlushOk 4 \<lparr>ResultID = ''a'', Success = False, Duration = 1\<rparr>, SPoll (\<lambda>_. FlushOk) 5 1]"

lemma sample_start:
  "\<exists>c c'. Load False (snap c) = Inr empty_snapshot \<and> config c = sample_cfg \<and> Start False [] [] 1 c = Inr c' \<and>
    mgr c' = NewJobManager \<and> wal_live (wal c') \<and> config c' = sample_cfg \<and> \<not> ctl_stopped c'"
proof -
  obtain c where c: "NewController None sample_fs sample_cfg = Some c" "mgr c = NewJobManager" "wal_live (wal c)"
    "config c = sample_cfg" "\<not> ctl_stopped c" using sample_boot by blast
  have f: "w_file (wal c) = Some []" "snap c = sample_fs"
    using c(1) by (auto simp: NewController_def NewPool_def NewWAL_def sample_cfg_def Let_def split: if_splits)
  have "Start False [] [] 1 c = Inr (c\<lparr>ctl_running := True\<rparr>)"
    using f c(2) by (simp add: Start_def recover_def loadSnapshot_def Load_def sample_fs_def Restore_def
        replayWAL_def Replay_def GetAllInFlightJobs_def cleared_def NewJobManager_def)
  moreover have "Load False (snap c) = Inr empty_snapshot" using f(2) by (simp add: Load_def sample_fs_def)
  ultimately show ?thesis using c by (intro exI [of _ c] exI [of _ "c\<lparr>ctl_running := True\<rparr>"]) simp
qed

lemma sample_sys_run:
  assumes "mgr c = NewJobManager" and "wal_live (wal c)" and "MaxRetry (config c) = 3" and "\<not> ctl_stopped c"
  shows "\<exists>s. sys_run sample_events (start_loops c) = Some s \<and> handed s = [''a'', ''a''] \<and>
    job_status (mgr (ctl s)) ''a'' = Some StatusInFlight"
proof -
  note A = Append_live
  note m = NewJobManager_def jm_defs GetJob_def Let_def logged_def numeral_2_eq_2 job_named_def zero_job_def
  obtain w1 where w1: "Append FlushOk 1 EventEnqueue (job_named ''a'') (wal c) = (None, w1)" "wal_live w1"
    using A [OF assms(2)] by blast
  obtain jm1 j1 where j1: "enqueue_loop 2 [job_named ''a''] NewJobManager = (None, jm1)" "jobs jm1 = [''a'' \<mapsto> 0]"
    "queue jm1 = [''a'']" "heap jm1 0 = j1" "Status j1 = StatusPending" "ID j1 = ''a''" "Attempt j1 = 0"
    by (simp add: m)
  let ?s1 = "(start_loops c)\<lparr>ctl := c\<lparr>wal := w1, mgr := jm1\<rparr>\<rparr>"
  have r1: "sys_run (SCall 0 [job_named ''a''] # SCallLog 0 FlushOk 1 # SCallAdd 0 2 # es) (start_loops c) = sys_run es ?s1" for es
    using w1(1) j1(1) assms(1)
    by (simp add: sys_call_def sys_call_log_def sys_call_add_def start_loops_def fun_upd_def cong: if_cong)
  have poll: "\<exists>w' jm'. sys_poll (\<lambda>_. FlushOk) now 1 s = s\<lparr>ctl := (ctl s)\<lparr>wal := w', mgr := jm'\<rparr>, handed := ''a'' # handed s\<rparr> \<and>
      wal_live w' \<and> jobs jm' = [''a'' \<mapsto> 0] \<and> queue jm' = [] \<and> Status (heap jm' 0) = StatusInFlight \<and>
      ID (heap jm' 0) = ''a'' \<and> Attempt (heap jm' 0) = Attempt (heap (mgr (ctl s)) 0)"
    if s: "wal_live (wal (ctl s))" "\<not> ctl_stopped (ctl s)" "jobs (mgr (ctl s)) = [''a'' \<mapsto> 0]" "queue (mgr (ctl s)) = [''a'']"
      "Status (heap (mgr (ctl s)) 0) = StatusPending" "ID (heap (mgr (ctl s)) 0) = ''a''" for now s
  proof -
    obtain w' where "Append FlushOk now EventDispatch (heap (mgr (ctl s)) 0) (wal (ctl s)) = (None, w')" "wal_live w'"
      using A [OF s(1)] by blast
    moreover obtain jm' where "jm' = (mgr (ctl s))\<lparr>queue := [], heap := (heap (mgr (ctl s)))(0 := heap (mgr (ctl s)) 0
        \<lparr>Status := StatusInFlight, Deadline := Some (now + TaskTimeout (config (ctl s))), UpdatedAt := now\<rparr>),
      inFlight := (inFlight (mgr (ctl s)))(''a'' \<mapsto> 0)\<rparr>" by simp
    ultimately show ?thesis
      using s(2-) by (intro exI [of _ w'] exI [of _ jm'])
        (simp add: sys_poll_def Poll_def PopPending_def names_def Let_def logged_def MarkInFlight_def)
  qed
  let ?r = "\<lparr>ResultID = ''a'', Success = False, Duration = 1\<rparr>"
  obtain w2 jm2 where p2: "sys_poll (\<lambda>_. FlushOk) 3 1 ?s1 = ?s1\<lparr>ctl := (ctl ?s1)\<lparr>wal := w2, mgr := jm2\<rparr>, handed := [''a'']\<rparr>"
    "wal_live w2" "jobs jm2 = [''a'' \<mapsto> 0]" "queue jm2 = []" "Status (heap jm2 0) = StatusInFlight" "ID (heap jm2 0) = ''a''"
    "Attempt (heap jm2 0) = 0"
    using poll [of ?s1 3] w1(2) j1 assms(4) by (auto simp: start_loops_def)
  let ?s2 = "?s1\<lparr>ctl := (ctl ?s1)\<lparr>wal := w2, mgr := jm2\<rparr>, handed := [''a'']\<rparr>"
  let ?jb = "bump_attempt 0 jm2"
  obtain w3 where w3: "Append FlushOk 4 EventRetry (heap ?jb 0) w2 = (None, w3)" "wal_live w3" using A [OF p2(2)] by blast
  obtain jm3 where j3: "Requeue 4 ''a'' ?jb = Inr jm3" "jobs jm3 = [''a'' \<mapsto> 0]" "queue jm3 = [''a'']"
    "Status (heap jm3 0) = StatusPending" "ID (heap jm3 0) = ''a''"
    using p2(3-) by (simp add: Requeue_def bump_attempt_def)
  let ?s3 = "?s2\<lparr>ctl := (ctl ?s2)\<lparr>wal := w3, mgr := jm3\<rparr>\<rparr>"
  have "Attempt (heap ?jb 0) = 1" using p2(7) by (simp add: bump_attempt_def)
  then have r3: "handleResult FlushOk 4 ?r (ctl ?s2) = ctl ?s3"
    using w3(1) j3(1) p2(3) assms(3) by (simp add: handleResult_def GetJob_def Let_def logged_def)
  obtain w4 jm4 where p4: "sys_poll (\<lambda>_. FlushOk) 5 1 ?s3 = ?s3\<lparr>ctl := (ctl ?s3)\<lparr>wal := w4, mgr := jm4\<rparr>, handed := [''a'', ''a'']\<rparr>"
    "jobs jm4 = [''a'' \<mapsto> 0]" "Status (heap jm4 0) = StatusInFlight"
    using poll [of ?s3 5] w3(2) j3 assms(4) by auto
  have "sys_run sample_events (start_loops c) = Some (?s3\<lparr>ctl := (ctl ?s3)\<lparr>wal := w4, mgr := jm4\<rparr>, handed := [''a'', ''a'']\<rparr>)"
    unfolding sample_events_def r1 using p2(1) r3 p4(1) by simp
  then show ?thesis using p4(2,3) by (auto simp: job_status_iff)
qed

lemma sample_good: "good_snapshot empty_snapshot" "enumerates [] (Jobs empty_snapshot)" "list_all fresh_event sample_events"
  by (simp_all add: good_snapshot_def empty_snapshot_def jobs_typed_def enumerates_def sample_events_def fresh_jobs_def
      job_named_def zero_job_def)

lemma no_job_stranded_witness:
  "\<exists>c c' s j. Start False [] [] 1 c = Inr c' \<and> sys_run sample_events (start_loops c') = Some s \<and>
    job_view (mgr (ctl s)) ''a'' = Some j \<and> Status j = StatusInFlight \<and> (\<exists>d. Deadline j = Some d)"
proof -
  obtain c c' where c: "Load False (snap c) = Inr empty_snapshot" "config c = sample_cfg" "Start False [] [] 1 c = Inr c'"
    "mgr c' = NewJobManager" "wal_live (wal c')" "MaxRetry (config c') = 3" "\<not> ctl_stopped c'"
    using sample_start by (auto simp: sample_cfg_def)
  obtain s where s: "sys_run sample_events (start_loops c') = Some s" "job_status (mgr (ctl s)) ''a'' = Some StatusInFlight"
    using sample_sys_run [OF c(4-7)] by blast
  then obtain j where j: "job_view (mgr (ctl s)) ''a'' = Some j" "Status j = StatusInFlight" by (auto simp: job_status_def)
  have "0 \<le> MaxRetry (config c)" using c(2) by (simp add: sample_cfg_def)
  from no_job_stranded [OF c(1) sample_good(1,2) this c(3) s(1) sample_good(3) j(1)]
  have "\<exists>d. Deadline j = Some d" using j(2) by simp
  then show ?thesis using j s(1) c(3) by blast
qed

text \<open>The bound is met: with \<open>MaxRetry\<close> 3 the sample run hands the job out twice.\<close>

lemma handouts_bounded_witness:
  "\<exists>c c' s. Start False [] [] 1 c = Inr c' \<and> sys_run sample_events (start_loops c') = Some s \<and>
    count_list (handed s) ''a'' = 2 \<and> int (count_list (handed s) ''a'') \<le> 2"
proof -
  obtain c c' where c: "Load False (snap c) = Inr empty_snapshot" "config c = sample_cfg" "Start False [] [] 1 c = Inr c'"
    "mgr c' = NewJobManager" "wal_live (wal c')" "MaxRetry (config c') = 3" "\<not> ctl_stopped c'"
    using sample_start by (auto simp: sample_cfg_def)
  obtain s where s: "sys_run sample_events (start_loops c') = Some s" "handed s = [''a'', ''a'']"
    using sample_sys_run [OF c(4-7)] by blast
  have "0 \<le> MaxRetry (config c)" using c(2) by (simp add: sample_cfg_def)
  from handouts_bounded [OF c(1) sample_good(1,2) this c(3) s(1) sample_good(3), of "''a''"]
  have "int (count_list (handed s) ''a'') \<le> 2" using c(2,4) by (simp add: sample_cfg_def NewJobManager_def)
  then show ?thesis using c(3) s by (intro exI [of _ c] exI [of _ c'] exI [of _ s]) simp
qed

end
