(* ===== verification/TimeoutProps.thy ===== *)
theory TimeoutProps
  imports ControllerProps CrashLimits
begin

text \<open>
  The timeout loop of \<open>controller.go\<close> against a reference: one tick is a map over the jobs.
\<close>

section \<open>The reference\<close>

text \<open>What a timeout makes of one job: another attempt, counted twice, or its end.\<close>

definition timed_out :: "int \<Rightarrow> int \<Rightarrow> Job \<Rightarrow> Job" where
  "timed_out now maxRetry j =
     (if maxRetry \<le> Attempt j + 1 then finished now StatusDead (j\<lparr>Attempt := Attempt j + 1\<rparr>)
      else finished now StatusPending (j\<lparr>Attempt := Attempt j + 2\<rparr>))"

definition overdue :: "int \<Rightarrow> Job \<Rightarrow> bool" where
  "overdue now j \<longleftrightarrow> Status j = StatusInFlight \<and> expired now j"

definition retried :: "int \<Rightarrow> JobManager \<Rightarrow> JobID \<Rightarrow> bool" where
  "retried maxRetry jm i \<longleftrightarrow> (case job_view jm i of None \<Rightarrow> False | Some j \<Rightarrow> Attempt j + 1 < maxRetry)"

section \<open>One job, then all of them\<close>

lemma timeout_job_exact:
  assumes inv: "jm_inv (mgr c)" and live: "wal_live (wal c)" and j: "job_view (mgr c) i = Some j" "Status j = StatusInFlight"
  shows "jm_inv (mgr (timeout_job FlushOk now i c)) \<and> wal_live (wal (timeout_job FlushOk now i c)) \<and>
    config (timeout_job FlushOk now i c) = config c \<and>
    job_view (mgr (timeout_job FlushOk now i c)) = (job_view (mgr c))(i \<mapsto> timed_out now (MaxRetry (config c)) j) \<and>
    queue (mgr (timeout_job FlushOk now i c)) = queue (mgr c) @ (if retried (MaxRetry (config c)) (mgr c) i then [i] else [])"
proof -
  let ?M = "MaxRetry (config c)"
  obtain a where a: "jobs (mgr c) i = Some a" "heap (mgr c) a = j" using j(1) by (auto simp: job_view_iff)
  obtain w where w: "Append FlushOk now EventTimeout (heap (mgr c) a) (wal c) = (None, w)" "wal_live w"
    using Append_live [OF live] by blast
  let ?jb = "bump_attempt a (mgr c)"
  have inv': "jm_inv ?jb" by (rule bump_attempt_inv [OF inv])
  have hb: "heap ?jb a = j\<lparr>Attempt := Attempt j + 1\<rparr>" "jobs ?jb i = Some a" using a by (simp_all add: bump_attempt_def)
  have vb: "job_view ?jb = (job_view (mgr c))(i \<mapsto> j\<lparr>Attempt := Attempt j + 1\<rparr>)"
    by (rule job_view_write [OF inv a(1)]) (use a(2) in \<open>simp_all add: bump_attempt_def\<close>)
  show ?thesis
  proof (cases "?M \<le> Attempt j + 1")
    case True
    obtain jm where jm: "MarkDead now i ?jb = Inr jm" "jobs jm = jobs ?jb" "queue jm = queue ?jb"
      "heap jm = (heap ?jb)(a := finished now StatusDead (j\<lparr>Attempt := Attempt j + 1\<rparr>))"
      using hb by (simp add: MarkDead_def finished_def)
    have c': "timeout_job FlushOk now i c = c\<lparr>wal := w, mgr := jm\<rparr>"
      using a w(1) hb(1) True jm(1) by (simp add: timeout_job_def GetJob_def Let_def logged_def)
    have "job_view jm = (job_view ?jb)(i \<mapsto> finished now StatusDead (j\<lparr>Attempt := Attempt j + 1\<rparr>))"
      by (rule job_view_write [OF inv' hb(2) jm(2,4)])
    then show ?thesis
      using c' w(2) True vb jm(3) MarkDead_inv [OF inv' jm(1)] j(1) by (simp add: timed_out_def retried_def)
  next
    case False
    obtain jm where jm: "Requeue now i ?jb = Inr jm" "jobs jm = jobs ?jb" "queue jm = queue ?jb @ [i]"
      "heap jm = (heap ?jb)(a := finished now StatusPending (j\<lparr>Attempt := Attempt j + 2\<rparr>))"
      using hb j(2) by (simp add: Requeue_def finished_def add.commute)
    have c': "timeout_job FlushOk now i c = c\<lparr>wal := w, mgr := jm\<rparr>"
      using a w(1) hb(1) False jm(1) by (simp add: timeout_job_def GetJob_def Let_def logged_def)
    have "job_view jm = (job_view ?jb)(i \<mapsto> finished now StatusPending (j\<lparr>Attempt := Attempt j + 2\<rparr>))"
      by (rule job_view_write [OF inv' hb(2) jm(2,4)])
    then show ?thesis
      using c' w(2) False vb jm(3) Requeue_inv [OF inv' jm(1)] j(1) by (simp add: timed_out_def retried_def)
  qed
qed

lemma timeout_loop_exact:
  assumes "jm_inv (mgr c)" and "wal_live (wal c)" and "distinct ids"
    and "\<And>i. i \<in> set ids \<Longrightarrow> job_status (mgr c) i = Some StatusInFlight"
  shows "job_view (mgr (timeout_loop (\<lambda>_. FlushOk) n now ids c)) =
      (\<lambda>i. map_option (\<lambda>j. if i \<in> set ids then timed_out now (MaxRetry (config c)) j else j) (job_view (mgr c) i)) \<and>
    queue (mgr (timeout_loop (\<lambda>_. FlushOk) n now ids c)) =
      queue (mgr c) @ filter (retried (MaxRetry (config c)) (mgr c)) ids"
  using assms
proof (induction ids arbitrary: n c)
  case Nil
  then show ?case by (simp add: option.map_ident)
next
  case (Cons i ids)
  obtain j where j: "job_view (mgr c) i = Some j" "Status j = StatusInFlight"
    using Cons.prems(4) [of i] by (auto simp: job_status_def)
  let ?c = "timeout_job FlushOk now i c"
  note T = timeout_job_exact [OF Cons.prems(1,2) j, of now]
  have st: "job_status (mgr ?c) k = Some StatusInFlight" if "k \<in> set ids" for k
  proof -
    have "k \<noteq> i" using that Cons.prems(3) by auto
    then have "job_view (mgr ?c) k = job_view (mgr c) k" using T by simp
    then show ?thesis using Cons.prems(4) [of k] that by (simp add: job_status_def)
  qed
  have "retried M (mgr ?c) k = retried M (mgr c) k" if "k \<in> set ids" for k M
    using that Cons.prems(3) T by (auto simp: retried_def)
  then have flt: "filter (retried M (mgr ?c)) ids = filter (retried M (mgr c)) ids" for M by (rule filter_cong [OF refl])
  have IH: "job_view (mgr (timeout_loop (\<lambda>_. FlushOk) (Suc n) now ids ?c)) =
      (\<lambda>k. map_option (\<lambda>j. if k \<in> set ids then timed_out now (MaxRetry (config ?c)) j else j) (job_view (mgr ?c) k)) \<and>
    queue (mgr (timeout_loop (\<lambda>_. FlushOk) (Suc n) now ids ?c)) = queue (mgr ?c) @ filter (retried (MaxRetry (config ?c)) (mgr ?c)) ids"
    by (rule Cons.IH) (use T Cons.prems(3) st in auto)
  have "(\<lambda>k. map_option (\<lambda>j. if k \<in> set ids then timed_out now (MaxRetry (config c)) j else j) (job_view (mgr ?c) k)) =
      (\<lambda>k. map_option (\<lambda>j. if k \<in> set (i # ids) then timed_out now (MaxRetry (config c)) j else j) (job_view (mgr c) k))"
    using T j(1) Cons.prems(3) by (auto simp: fun_eq_iff)
  moreover have "config ?c = config c" using T by blast
  moreover have "queue (mgr ?c) = queue (mgr c) @ (if retried (MaxRetry (config c)) (mgr c) i then [i] else [])" using T by blast
  ultimately show ?case using IH flt by (simp only: timeout_loop.simps filter.simps append_assoc split: if_split) simp
qed

section \<open>A tick\<close>

text \<open>C22. One tick of the timeout loop is a map over the jobs. With consistent indexes and an open log, whatever order the runtime walks
  the in-flight map in: every job in flight whose deadline has passed is dead, with one attempt more, when
  that reaches the limit, and otherwise pending, with two attempts more; every other job is untouched; and
  the retried jobs, and no others, are queued behind the jobs that were waiting.\<close>

theorem timeout_tick_exact:
  assumes "jm_inv (mgr c)" and "wal_live (wal c)" and "enumerates ord (inFlight (mgr c))"
  shows "let c' = timeout_tick ord (\<lambda>_. FlushOk) now c in
    job_view (mgr c') = (\<lambda>i. map_option (\<lambda>j. if overdue now j then timed_out now (MaxRetry (config c)) j else j) (job_view (mgr c) i)) \<and>
    queue (mgr c') = queue (mgr c) @ filter (retried (MaxRetry (config c)) (mgr c)) (GetExpiredJobs ord now (mgr c))"
proof -
  let ?ids = "GetExpiredJobs ord now (mgr c)"
  have ids: "i \<in> set ?ids \<longleftrightarrow> (\<exists>j. job_view (mgr c) i = Some j \<and> overdue now j)" for i
    using GetExpiredJobs_iff [OF assms(1,3), of i now] by (auto simp: overdue_def expired_def split: option.splits)
  have "distinct ?ids" using enumerates_distinct [OF assms(3)] by (simp add: GetExpiredJobs_def)
  moreover have "job_status (mgr c) i = Some StatusInFlight" if "i \<in> set ?ids" for i
    using that ids by (auto simp: job_status_def overdue_def)
  moreover have "(\<lambda>i. map_option (\<lambda>j. if i \<in> set ?ids then timed_out now (MaxRetry (config c)) j else j) (job_view (mgr c) i)) =
      (\<lambda>i. map_option (\<lambda>j. if overdue now j then timed_out now (MaxRetry (config c)) j else j) (job_view (mgr c) i))"
  proof
    fix i
    show "map_option (\<lambda>j. if i \<in> set ?ids then timed_out now (MaxRetry (config c)) j else j) (job_view (mgr c) i) =
        map_option (\<lambda>j. if overdue now j then timed_out now (MaxRetry (config c)) j else j) (job_view (mgr c) i)"
      using ids [of i] by (cases "job_view (mgr c) i") (simp_all only: option.map, auto)
  qed
  ultimately show ?thesis using timeout_loop_exact [OF assms(1,2), of ?ids 0 now] by (simp add: timeout_tick_def Let_def)
qed

lemma timeout_tick_exact_witness:
  "\<exists>c j ord. job_view (mgr c) ''a'' = Some j \<and> overdue 500 j \<and>
    job_view (mgr (timeout_tick ord (\<lambda>_. FlushOk) 500 c)) ''a'' = Some (timed_out 500 (MaxRetry (config c)) j)"
proof -
  obtain c where c: "recoverable c" "job_status (mgr c) = [''a'' \<mapsto> StatusInFlight]" using sample_polled by blast
  have inv: "jm_inv (mgr c)" using c(1) by (simp add: recoverable_def jm_ok_def)
  have "job_status (mgr c) ''a'' = Some StatusInFlight" using c(2) by simp
  then obtain j where j: "job_view (mgr c) ''a'' = Some j" "Status j = StatusInFlight" by (auto simp: job_status_def)
  obtain a where a: "jobs (mgr c) ''a'' = Some a" "heap (mgr c) a = j" using j(1) by (auto simp: job_view_iff)
  let ?jm = "(mgr c)\<lparr>heap := (heap (mgr c))(a := j\<lparr>Deadline := Some 107\<rparr>)\<rparr>"
  have inv': "jm_inv ?jm"
  proof -
    have "with_status S ?jm = with_status S (mgr c)" for S
      using a by (auto simp: with_status_def split: option.splits)
    then show ?thesis using inv by (simp add: jm_inv_def ptr_inj_def index_ok_def)
  qed
  let ?c = "c\<lparr>mgr := ?jm\<rparr>"
  obtain ord where ord: "enumerates ord (inFlight (mgr ?c))" using in_flight_order [of "mgr ?c"] inv' by auto
  have v: "job_view (mgr ?c) ''a'' = Some (j\<lparr>Deadline := Some 107\<rparr>)" "overdue 500 (j\<lparr>Deadline := Some 107\<rparr>)"
    using a j(2) by (simp_all add: job_view_def overdue_def expired_def)
  have "wal_live (wal ?c)" using recoverable_D(2) [OF c(1)] by simp
  from timeout_tick_exact [OF _ this ord, of 500] inv' v show ?thesis
    by (intro exI [of _ ?c] exI [of _ "j\<lparr>Deadline := Some 107\<rparr>"] exI [of _ ord]) (simp add: Let_def)
qed

end
