(* ===== verification/RestartProps.thy ===== *)
theory RestartProps
  imports ConcurrentProps
begin

text \<open>
  What a restart can know: replay moves jobs and never creates one, so the jobs after a start are the
  snapshot's, whatever the log holds.
\<close>

section \<open>Replay creates no job\<close>

lemma ready_replay_advance:
  assumes "ready jm" and "replay_handler now d ev jm = (err, jm')"
  shows "advance jm jm' \<and> jobs jm' = jobs jm"
proof -
  have snd: "jm_sound jm" using assms(1) by (simp add: ready_def)
  let ?P = "\<lambda>jm'. advance jm jm' \<and> jobs jm' = jobs jm"
  have r: "?P (snd (returned (run_op op jm) jm))" if "quiet op \<or> op = OpRequeue now i" for op i
  proof (cases "run_op op jm")
    case (Inl e)
    then show ?thesis using advance_refl [OF snd] by (simp add: returned_def)
  next
    case (Inr jm1)
    have "\<not> is_restore op" using that by (cases op) auto
    from run_op_advance [OF snd this Inr] have "advance jm jm1" .
    moreover have "jobs jm1 = jobs jm"
      using that Inr by (cases op) (auto simp: jm_defs GetJob_def split: option.splits if_splits)
    ultimately show ?thesis using Inr by (simp add: returned_def)
  qed
  note R = r [of "OpInFlight now (EvJobID ev) (now + d)"] r [of "OpCompleted now (EvJobID ev)"]
    r [of "OpRequeue now (EvJobID ev)"] r [of "OpDead now (EvJobID ev)"]
  have "jm' = snd (replay_handler now d ev jm)" using assms(2) by simp
  then show ?thesis
    using R advance_refl [OF snd] by (simp add: replay_handler_def Let_def split: EventType.split)
qed

lemma replay_loop_advance:
  "ready jm \<Longrightarrow> replay_loop (replay_handler now d) ls jm = (err, jm') \<Longrightarrow> advance jm jm' \<and> jobs jm' = jobs jm"
proof (induction ls arbitrary: jm)
  case Nil
  then show ?case using advance_refl by (simp add: ready_def)
next
  case (Cons l ls)
  have refl: "advance jm jm" using Cons.prems(1) advance_refl by (simp add: ready_def)
  show ?case
  proof (cases l)
    case (Rec ev)
    obtain err1 jm1 where h: "replay_handler now d ev jm = (err1, jm1)" by fastforce
    note A = ready_replay_advance [OF Cons.prems(1) h]
    show ?thesis
    proof (cases "VerifyChecksum ev \<and> err1 = None")
      case True
      then have "advance jm1 jm' \<and> jobs jm' = jobs jm1"
        using Cons.IH [OF replay_handler_ready [OF Cons.prems(1) h]] Cons.prems(2) Rec h by simp
      then show ?thesis using A advance_trans by metis
    next
      case False
      then have "jm' = jm \<or> jm' = jm1" using Cons.prems(2) Rec h by (cases err1) (auto split: if_splits)
      then show ?thesis using A refl by auto
    qed
  qed (use Cons.prems refl in simp)
qed

lemma requeue_all_advance: "ready jm \<Longrightarrow> advance jm (requeue_all now ids jm) \<and> jobs (requeue_all now ids jm) = jobs jm"
proof (induction ids arbitrary: jm)
  case Nil
  then show ?case using advance_refl by (simp add: ready_def)
next
  case (Cons i ids)
  let ?jm = "logged (Requeue now i jm) jm"
  have A: "advance jm ?jm \<and> jobs ?jm = jobs jm"
    using run_op_advance [of jm "OpRequeue now i"] advance_refl Cons.prems status_op_jobs(3)
    by (auto simp: logged_def ready_def split: sum.split)
  have "ready ?jm" using requeue_all_ready [OF Cons.prems, of now "[i]"] by simp
  then show ?case using Cons.IH [of ?jm] A advance_trans by (metis requeue_all.simps(2))
qed

section \<open>The jobs after a start\<close>

text \<open>C25. A start knows exactly the jobs of the snapshot. Whatever the log holds, a successful start from a well-formed
  snapshot has the snapshot's jobs and no others, each with its payload, with at least as many attempts, and finished when
  it was finished in the snapshot; a job that only the log mentions does not exist.\<close>

theorem recovered_jobs_are_the_snapshots:
  assumes "Start unreadable ord ord' now c = Inr c'" and "Load unreadable (snap c) = Inr data"
    and "good_snapshot data" and "enumerates ord (Jobs data)"
  shows "dom (jobs (mgr c')) = dom (Jobs data) \<and>
    (\<forall>i j. Jobs data i = Some j \<longrightarrow> (\<exists>j'. job_view (mgr c') i = Some j' \<and> evolves_to_final j j'))"
proof -
  let ?r = "Restore ord data (mgr c)"
  let ?c1 = "c\<lparr>mgr := ?r\<rparr>"
  have l: "loadSnapshot unreadable ord c = Inr ?c1" using assms(2) by (simp add: loadSnapshot_def)
  obtain c2 where c2: "replayWAL now ?c1 = (None, c2)"
    "c' = c2\<lparr>mgr := requeue_all now (GetAllInFlightJobs ord' (mgr c2)) (mgr c2), ctl_running := True\<rparr>"
    using assms(1) l by (auto simp: Start_def recover_def res_bind_Inr_iff split: prod.splits option.splits)
  have r: "ready ?r" by (rule Restore_ready [OF assms(3,4)])
  obtain ls jm where jm: "replay_loop (replay_handler now (TaskTimeout (config c))) ls ?r = (None, jm)" "c2 = ?c1\<lparr>mgr := jm\<rparr>"
    using c2(1) by (auto simp: replayWAL_def Replay_def split: prod.splits option.splits)
  have A: "advance ?r jm" "jobs jm = jobs ?r" "ready jm"
    using replay_loop_advance [OF r jm(1)] replay_loop_ready [OF r jm(1)] by auto
  have B: "advance ?r (mgr c')" "jobs (mgr c') = jobs ?r"
    using requeue_all_advance [OF A(3), of now "GetAllInFlightJobs ord' jm"] advance_trans [OF A(1)] A(2) c2(2) jm(2) by auto
  have view: "job_view ?r = Jobs data" by (rule Restore_view [OF assms(4)])
  have "dom (jobs (mgr c')) = dom (Jobs data)" using B(2) view dom_job_view [of ?r] by simp
  moreover have "\<exists>j'. job_view (mgr c') i = Some j' \<and> evolves_to_final j j'" if j: "Jobs data i = Some j" for i j
  proof -
    obtain a where "jobs ?r i = Some a" "j = heap ?r a" using j view job_view_iff [of ?r i j] by auto
    then show ?thesis using B(1) by (auto simp: advance_def job_view_def)
  qed
  ultimately show ?thesis by blast
qed

text \<open>A snapshot with one pending job and an empty log.\<close>

definition sample_data :: SnapshotData where
  "sample_data = \<lparr>Jobs = [''a'' \<mapsto> (job_named ''a'')\<lparr>Status := StatusPending\<rparr>], SchemaVer = 1, LastSeq = 0\<rparr>"

lemma sample_data_good: "good_snapshot sample_data" "enumerates [''a''] (Jobs sample_data)"
  by (simp_all add: good_snapshot_def sample_data_def jobs_typed_def job_typed_def enumerates_def job_named_def zero_job_def)

lemma sample_data_start:
  "\<exists>c c'. Load False (snap c) = Inr sample_data \<and> Start False [''a''] [] 1 c = Inr c'"
proof -
  obtain c where c: "NewController None sample_fs sample_cfg = Some c" "mgr c = NewJobManager"
    using sample_boot by blast
  have f: "w_file (wal c) = Some []"
    using c(1) by (auto simp: NewController_def NewPool_def NewWAL_def sample_cfg_def Let_def split: if_splits)
  let ?c = "c\<lparr>snap := sample_fs\<lparr>path_file := Some (Doc sample_data)\<rparr>\<rparr>"
  have l: "Load False (snap ?c) = Inr sample_data" by (simp add: Load_def sample_data_def)
  then have "\<exists>c'. Start False [''a''] [] 1 ?c = Inr c'"
    using f by (simp add: Start_def recover_def loadSnapshot_def replayWAL_def Replay_def)
  then show ?thesis using l by blast
qed

lemma recovered_jobs_are_the_snapshots_witness:
  "\<exists>c c'. Start False [''a''] [] 1 c = Inr c' \<and> Load False (snap c) = Inr sample_data \<and> dom (jobs (mgr c')) = {''a''}"
proof -
  obtain c c' where c: "Load False (snap c) = Inr sample_data" "Start False [''a''] [] 1 c = Inr c'"
    using sample_data_start by blast
  from recovered_jobs_are_the_snapshots [OF c(2,1) sample_data_good] c show ?thesis
    by (intro exI [of _ c] exI [of _ c']) (simp add: sample_data_def)
qed

end
