(* ===== verification/Demo.thy ===== *)
theory Demo
  imports RestartProps Cli
begin

text \<open>
  The demonstration program of \<open>cmd/demo/main.go\<close>: it starts a controller on the configured files, submits a
  thousand jobs when it finds none, prints the numbers of the queue, and stops on a signal. The YAML file,
  the files of the system, the clock, and what the controller's goroutines do between two looks of the
  program at it, are arguments.
\<close>

section \<open>Configuration and jobs\<close>

text \<open>\<open>demoTaskTimeout\<close> is in milliseconds. The struct has no flush interval and no retry limit.\<close>

record DemoConfig =
  demoWorkerCount :: int
  demoTaskTimeout :: int
  demoBufferSize :: int
  demoIntervalSeconds :: int

definition demo_controller_config :: "DemoConfig \<Rightarrow> Config" where
  "demo_controller_config cfg =
     \<lparr>WorkerCount = nat (demoWorkerCount cfg), TaskTimeout = demoTaskTimeout cfg, MaxRetry = 3,
      WALBufferSize = demoBufferSize cfg, WALFlushInterval = 0,
      SnapshotInterval = wrap64 (demoIntervalSeconds cfg * 1000000000), DisableDispatchLoop = False\<rparr>"

text \<open>\<open>%03d\<close>\<close>

definition pad3 :: "nat \<Rightarrow> string" where
  "pad3 n = replicate (3 - length (digits n)) (CHR ''0'') @ digits n"

definition demo_job :: "nat \<Rightarrow> nat \<Rightarrow> Job" where
  "demo_job timestamp i =
     zero_job\<lparr>ID := ''crash-demo-'' @ pad3 i @ ''-'' @ digits timestamp,
       Payload := [''task'' \<mapsto> GString (''job_'' @ digits i), ''sleep_ms'' \<mapsto> GInt 10],
       Timeout := 10000000000\<rparr>"

definition demo_jobs :: "nat \<Rightarrow> Job list" where
  "demo_jobs timestamp = map (demo_job timestamp) [1..<1001]"

section \<open>The program\<close>

text \<open>
  \<open>life k\<close> is what the loops do before the program looks for the k-th time; \<open>signal\<close> is the tick at which the
  user presses Ctrl+C, if that is before the twentieth. \<open>enq\<close>, \<open>enqueuedAt\<close> are the outcomes and the clock of
  the appends of \<open>EnqueueJobs\<close>; nothing is queued before it, so the loops have nothing to do meanwhile. The
  remaining fields are the arguments of \<open>Start\<close> and \<open>Stop\<close>.
\<close>

record DemoEnv =
  unreadable :: bool
  walk :: "JobID list"
  walk_in_flight :: "JobID list"
  bootedAt :: int
  timestamp :: nat
  enq :: "nat \<Rightarrow> flush_io"
  enqueuedAt :: int
  life :: "nat \<Rightarrow> sys_event list"
  signal :: "nat option"
  snap_fault :: "snap_step option"
  rotate_result :: rotate_io
  close_fails :: bool
  stoppedAt :: int

text \<open>
  How the program ends: with the usage text, a fatal error, a panic, or after a stop. \<open>DemoStopped\<close> has the
  numbers printed, in order, with the total in recovery mode. A panic of the snapshot loop's ticker is the
  case of an interval that is not positive. \<^term>\<open>None\<close> is not a run: \<open>life\<close> is not one of this system.
\<close>

datatype demo_end = DemoUsage | DemoConfigFails | DemoPanics | DemoStartFails gerror | DemoEnqueueFails gerror
  | DemoStopped "JobStats list" "nat option" Controller

definition has_recovered :: "JobStats \<Rightarrow> bool" where
  "has_recovered stats \<longleftrightarrow> 0 < pending_count stats + in_flight_count stats + completed_count stats + dead_count stats"

definition demo_stop :: "DemoEnv \<Rightarrow> Sys \<Rightarrow> Controller" where
  "demo_stop env s = Stop (snap_fault env) (rotate_result env) (close_fails env) (stoppedAt env) (ctl s)"

text \<open>The twenty ticks of 100 ms; a tick prints when a job is waiting or running. The flag says that the signal came.\<close>

fun demo_ticks :: "DemoEnv \<Rightarrow> nat \<Rightarrow> nat \<Rightarrow> JobStats list \<Rightarrow> Sys \<Rightarrow> (bool \<times> JobStats list \<times> Sys) option" where
  "demo_ticks env 0 k out s = Some (False, out, s)"
| "demo_ticks env (Suc n) k out s =
     (if signal env = Some k then Some (True, out, s)
      else case sys_run (life env k) s of
             None \<Rightarrow> None
           | Some s' \<Rightarrow>
               let stats = GetStats (ctl s')
               in demo_ticks env n (Suc k)
                    (if 0 < in_flight_count stats \<or> 0 < pending_count stats then out @ [stats] else out) s')"

definition demo_start :: "DemoEnv \<Rightarrow> Sys \<Rightarrow> demo_end option" where
  "demo_start env s =
     (let stats = GetStats (ctl s)
      in if has_recovered stats
         then map_option (\<lambda>s'. DemoStopped [stats] None (demo_stop env s')) (sys_run (life env 100) s)
         else case EnqueueJobs (enq env) (enqueuedAt env) (demo_jobs (timestamp env)) (ctl s) of
                (Some err, c) \<Rightarrow> Some (DemoEnqueueFails err)
              | (None, c) \<Rightarrow>
                  (case demo_ticks env 20 2 [] (s\<lparr>ctl := c\<rparr>) of
                     None \<Rightarrow> None
                   | Some (True, out, s1) \<Rightarrow> Some (DemoStopped out None (demo_stop env s1))
                   | Some (False, out, s1) \<Rightarrow>
                       map_option (\<lambda>s2. DemoStopped (out @ [GetStats (ctl s1)]) None (demo_stop env s2))
                         (sys_run (life env 100) s1)))"

definition demo_recover :: "DemoEnv \<Rightarrow> Sys \<Rightarrow> demo_end option" where
  "demo_recover env s =
     (case sys_run (life env 1) s of
        None \<Rightarrow> None
      | Some s1 \<Rightarrow>
          map_option (\<lambda>s2. DemoStopped [GetStats (ctl s), GetStats (ctl s1)] (Some (GetTotalJobs (mgr (ctl s))))
            (demo_stop env s2)) (sys_run (life env 100) s1))"

definition demo_main :: "string list \<Rightarrow> DemoConfig option \<Rightarrow> DemoEnv \<Rightarrow> Disk \<Rightarrow> demo_end option" where
  "demo_main args loaded env disk =
     (case args of
        [] \<Rightarrow> Some DemoUsage
      | mode # rest \<Rightarrow>
          (case loaded of
             None \<Rightarrow> Some DemoConfigFails
           | Some cfg \<Rightarrow>
               (case NewController (disk_wal disk) (disk_snap disk) (demo_controller_config cfg) of
                  None \<Rightarrow> Some DemoPanics
                | Some ctrl \<Rightarrow>
                    (case Controller.Start (unreadable env) (walk env) (walk_in_flight env) (bootedAt env) ctrl of
                       Inl err \<Rightarrow> Some (DemoStartFails err)
                     | Inr c \<Rightarrow>
                         if SnapshotInterval (config c) \<le> 0 then Some DemoPanics
                         else case sys_run (life env 0) (start_loops c) of
                           None \<Rightarrow> None
                         | Some s \<Rightarrow>
                             if mode = ''start'' then demo_start env s
                             else if mode = ''recover'' then demo_recover env s
                             else map_option (\<lambda>s'. DemoStopped [] None (demo_stop env s')) (sys_run (life env 100) s)))))"

end
