(* ===== verification/DemoProps.thy ===== *)
theory DemoProps
  imports Demo CliProps
begin

text \<open>
  What the demonstration shows of the system: it submits all its jobs, and a process that is killed before
  its first checkpoint leaves nothing that the recovery mode could find.
\<close>

section \<open>The jobs\<close>

text \<open>Decimal numerals are read back, with leading zeros, so the IDs differ.\<close>

definition digit_value :: "char \<Rightarrow> nat" where
  "digit_value c = of_char c - 48"

definition undigits :: "string \<Rightarrow> nat" where
  "undigits s = foldl (\<lambda>n c. 10 * n + digit_value c) 0 s"

lemma digit_value_digit: "n < 10 \<Longrightarrow> digit_value (char_of (48 + n)) = n"
  by (simp add: digit_value_def)

lemma undigits_digits: "undigits (digits n) = n"
proof (induction n rule: digits.induct)
  case (1 n)
  show ?case
  proof (cases "n < 10")
    case True
    then show ?thesis by (subst digits.simps) (simp add: undigits_def digit_value_digit)
  next
    case False
    then have "undigits (digits (n div 10)) = n div 10" using 1 by simp
    then show ?thesis using False
      by (subst digits.simps) (simp add: undigits_def digit_value_digit)
  qed
qed

lemma undigits_zeros: "undigits (replicate k (CHR ''0'') @ s) = undigits s"
proof -
  have "foldl (\<lambda>n c. 10 * n + digit_value c) 0 (replicate k (CHR ''0'')) = 0"
    by (induction k) (simp_all add: digit_value_def)
  then show ?thesis by (simp add: undigits_def)
qed

lemma pad3_inj: "pad3 m = pad3 n \<Longrightarrow> m = n"
  by (metis pad3_def undigits_digits undigits_zeros)

lemma demo_job_ID_inj: "ID (demo_job t i) = ID (demo_job t k) \<Longrightarrow> i = k"
  by (simp add: demo_job_def pad3_inj)

lemma demo_jobs_distinct: "distinct (map ID (demo_jobs t))" "length (demo_jobs t) = 1000"
proof -
  have "inj_on (\<lambda>i. ID (demo_job t i)) A" for A by (auto intro!: inj_onI dest: demo_job_ID_inj)
  then show "distinct (map ID (demo_jobs t))" by (simp add: demo_jobs_def distinct_map o_def)
  show "length (demo_jobs t) = 1000" by (simp add: demo_jobs_def)
qed

section \<open>Submitting them\<close>

text \<open>On a controller that knows no job and whose log works, the demonstration's \<open>EnqueueJobs\<close> succeeds and
  leaves a thousand jobs known, and exactly those queued, in order.\<close>

theorem demo_submits_all:
  assumes "jm_ok (mgr c)" and "wal_live (wal c)" and "jobs (mgr c) = Map.empty" and "queue (mgr c) = []"
  shows "\<exists>c'. EnqueueJobs (\<lambda>_. FlushOk) now (demo_jobs t) c = (None, c') \<and> GetTotalJobs (mgr c') = 1000 \<and>
    pending_count (GetStats c') = 1000 \<and> queue (mgr c') = map ID (demo_jobs t) \<and>
    (\<forall>j \<in> set (demo_jobs t). job_status (mgr c') (ID j) = Some StatusPending)"
proof -
  have new: "jobs (mgr c) i = None" for i using assms(3) by simp
  obtain jm where jm: "enqueue_loop now (demo_jobs t) (mgr c) = (None, jm)"
    "\<forall>j \<in> set (demo_jobs t). job_status jm (ID j) = Some StatusPending"
    using enqueue_loop_new [where now = now, OF assms(1) demo_jobs_distinct(1) [of t]] new by blast
  obtain w where w: "append_enqueue (\<lambda>_. FlushOk) 0 now (demo_jobs t) (wal c) = (None, w)"
    using append_enqueue_live [OF assms(2)] by blast
  obtain err jm' pre post where p: "enqueue_loop now (demo_jobs t) (mgr c) = (err, jm')" "demo_jobs t = pre @ post"
    "queue jm' = queue (mgr c) @ map ID pre" "dom (jobs jm') = dom (jobs (mgr c)) \<union> ID ` set pre"
    "post \<noteq> [] \<longrightarrow> err = Some ErrDuplicateJob"
    using enqueue_loop_prefix [OF assms(1), of now "demo_jobs t"] by blast
  have eq: "jm' = jm" "err = None" using p(1) jm(1) by simp_all
  then have "post = []" using p(5) by auto
  then have q: "queue jm = map ID (demo_jobs t)" "dom (jobs jm) = set (map ID (demo_jobs t))" using p(2-4) eq assms(3,4) by auto
  have "card (dom (jobs jm)) = length (map ID (demo_jobs t))" unfolding q(2) by (rule distinct_card [OF demo_jobs_distinct(1)])
  then have "GetTotalJobs jm = 1000" using demo_jobs_distinct(2) [of t] by (simp add: GetTotalJobs_def)
  then show ?thesis
    using w jm q(1) demo_jobs_distinct(2) [of t]
    by (intro exI [of _ "c\<lparr>wal := w, mgr := jm\<rparr>"]) (simp add: EnqueueJobs_def GetStats_def Stats_def)
qed

lemma demo_submits_all_witness:
  "\<exists>c c'. EnqueueJobs (\<lambda>_. FlushOk) 5 (demo_jobs 1700000000) c = (None, c') \<and> GetTotalJobs (mgr c') = 1000"
proof -
  obtain c :: Controller where c: "mgr c = NewJobManager" "wal_live (wal c)" using sample_boot by blast
  have "jm_ok (mgr c)" "jobs (mgr c) = Map.empty" "queue (mgr c) = []"
    using c(1) NewJobManager_ok by (simp_all add: NewJobManager_def)
  then show ?thesis using demo_submits_all [OF _ c(2)] by blast
qed

section \<open>A kill before the first checkpoint\<close>

text \<open>A run in which no checkpoint is written.\<close>

fun no_write :: "sys_event \<Rightarrow> bool" where
  "no_write (SWrite fault) = False"
| "no_write e = True"

lemma handler_snap: "snap (handleResult io now r c) = snap c" "snap (timeout_job io now i c) = snap c"
  "snap (timeout_loop f n now ids c) = snap c"
proof -
  show "snap (handleResult io now r c) = snap c"
    by (simp add: handleResult_def Let_def split: option.split prod.split)
  show t: "snap (timeout_job io now i c) = snap c" for io i c
    by (simp add: timeout_job_def Let_def split: option.split prod.split)
  show "snap (timeout_loop f n now ids c) = snap c"
    by (induction ids arbitrary: n c) (simp_all add: t)
qed

lemma sys_run_snap: "sys_run es s = Some s' \<Longrightarrow> list_all no_write es \<Longrightarrow> snap (ctl s') = snap (ctl s)"
proof (induction es arbitrary: s)
  case Nil
  then show ?case by simp
next
  case (Cons e es)
  obtain s1 where s1: "sys_step e s = Some s1" "sys_run es s1 = Some s'" using Cons.prems(1) by (auto split: option.splits)
  have "snap (ctl s1) = snap (ctl s)"
    using s1(1) Cons.prems(2)
    by (cases e) (auto simp: sys_pop_def dispatch_pop_def sys_exit_def sys_log_def sys_mark_def dispatch_mark_def
        sys_submit_def dispatch_submit_def sys_call_def sys_call_log_def sys_call_add_def sys_poll_def Poll_def poll_loop_phases
        timeout_tick_def handler_snap apply_msg_def sys_copy_def sys_rotate_def sys_stop_def sys_close_def
        split: dispatcher.splits list.splits option.splits prod.splits sum.splits if_splits checkpointer.splits)
  then show ?case using Cons.IH [OF s1(2)] Cons.prems(2) by simp
qed

lemma Start_snap: "Controller.Start u ord ord' now c = Inr c' \<Longrightarrow> snap c' = snap c"
  by (auto simp: Controller.Start_def recover_def loadSnapshot_def replayWAL_def res_bind_Inr_iff split: prod.splits option.splits)

text \<open>
  The lines of a log that the replay passes over on an empty manager: valid records of type ENQUEUE, or of
  a type it does not know. Every other event needs a known job, and every other line is an error.
\<close>

definition ignored_line :: "wal_line \<Rightarrow> bool" where
  "ignored_line l \<longleftrightarrow> (case l of
     Garbage \<Rightarrow> False
   | Rec e \<Rightarrow> VerifyChecksum e \<and> EvType e \<notin> {EventDispatch, EventAck, EventRetry, EventTimeout, EventDead})"

definition disk_lines :: "wal_line list option \<Rightarrow> wal_line list" where
  "disk_lines f = (case f of None \<Rightarrow> [] | Some ls \<Rightarrow> ls)"

lemma replay_handler_empty:
  "replay_handler now T e NewJobManager =
     (if EvType e \<in> {EventDispatch, EventAck, EventRetry, EventTimeout, EventDead} then (Some ErrJobNotFound, NewJobManager)
      else (None, NewJobManager))"
  by (cases "EvType e")
    (simp_all add: replay_handler_def returned_def MarkInFlight_def MarkCompleted_def Requeue_def MarkDead_def IsCompleted_def
      IsDead_def NewJobManager_def Let_def)

lemma replay_loop_empty:
  "\<exists>err. replay_loop (replay_handler now T) ls NewJobManager =
     (if list_all ignored_line ls then None else Some err, NewJobManager)"
proof (induction ls)
  case Nil
  then show ?case by simp
next
  case (Cons l ls)
  then show ?case by (cases l) (auto simp: ignored_line_def replay_handler_empty)
qed

lemma Start_empty:
  assumes "NewController file fs cfg = Some d" and "path_file fs = None"
  shows "if list_all ignored_line (disk_lines file)
    then Controller.Start u [] ord now d = Inr (d\<lparr>ctl_running := True\<rparr>) \<and> mgr d = NewJobManager
    else \<exists>err. Controller.Start u [] ord now d = Inl err"
proof -
  have d: "mgr d = NewJobManager" "w_file (wal d) = Some (disk_lines file)" "snap d = fs"
    using assms(1) by (auto simp: NewController_cases NewWAL_def disk_lines_def Let_def split: if_splits option.splits)
  have l: "loadSnapshot u [] d = Inr d" using d(1,3) assms(2) by (simp add: loadSnapshot_def Load_def Restore_empty)
  obtain err where "Replay (replay_handler now (TaskTimeout (config d))) (wal d) NewJobManager =
      (if list_all ignored_line (disk_lines file) then None else Some err, NewJobManager)"
    using replay_loop_empty [of now "TaskTimeout (config d)" "disk_lines file"] d(2) by (auto simp: Replay_def)
  moreover have "GetAllInFlightJobs ord NewJobManager = []" by (simp add: GetAllInFlightJobs_def NewJobManager_def)
  ultimately show ?thesis using d(1) l by (simp add: Controller.Start_def recover_def replayWAL_def)
qed

definition no_jobs :: JobStats where
  "no_jobs = \<lparr>pending_count = 0, in_flight_count = 0, completed_count = 0, dead_count = 0\<rparr>"

lemma new_stats: "Stats NewJobManager = no_jobs" "GetTotalJobs NewJobManager = 0"
  by (simp_all add: Stats_def no_jobs_def GetTotalJobs_def NewJobManager_def)

text \<open>C39. The demonstration says that log and snapshot together lose nothing. A process is started on a disk without
  a snapshot and killed in any state it reaches before a checkpoint is written, whatever it was given, ran and
  acknowledged. What its recovery mode does on the files it leaves depends on the log alone. If every line of the log
  is a valid ENQUEUE record (or one of an unknown type), it starts and, looking before the new loops have acted,
  reports zero pending, running, completed and dead jobs and a total of zero. If there is any other line, and so as
  soon as one dispatch has been logged, it fails to start. No job is recovered in either case.\<close>

theorem demo_recovers_nothing_before_checkpoint:
  assumes "NewController file fs (demo_controller_config cfg) = Some ctrl" and "path_file fs = None"
    and "Controller.Start u ord ord' now ctrl = Inr c" and "sys_run es (start_loops c) = Some s" and "list_all no_write es"
    and "walk env = []" and "life env 0 = []" and "0 < SnapshotInterval (demo_controller_config cfg)"
    and "demo_main [''recover''] (Some cfg) env \<lparr>disk_wal = w_file (wal (ctl s)), disk_snap = snap (ctl s)\<rparr> = Some r"
  shows "if list_all ignored_line (disk_lines (w_file (wal (ctl s))))
    then \<exists>later c'. r = DemoStopped [no_jobs, later] (Some 0) c'
    else \<exists>err. r = DemoStartFails err"
proof -
  let ?dc = "demo_controller_config cfg" let ?wf = "w_file (wal (ctl s))"
  have b: "\<not> WALBufferSize ?dc < 0" "snap ctrl = fs"
    using assms(1) by (auto simp: NewController_def NewPool_def Let_def split: if_splits)
  have snap: "snap (ctl s) = fs"
    using sys_run_snap [OF assms(4,5)] Start_snap [OF assms(3)] b(2) by (simp add: start_loops_def)
  obtain d where d: "NewController ?wf fs ?dc = Some d" "config d = ?dc"
    using b(1) by (auto simp: NewController_def NewPool_def Let_def)
  note S = Start_empty [OF d(1) assms(2), of "unreadable env" "walk_in_flight env" "bootedAt env"]
  show ?thesis
  proof (cases "list_all ignored_line (disk_lines ?wf)")
    case True
    let ?c1 = "d\<lparr>ctl_running := True\<rparr>"
    have c1: "Controller.Start (unreadable env) [] (walk_in_flight env) (bootedAt env) d = Inr ?c1" "mgr d = NewJobManager"
      using S True by simp_all
    have "demo_recover env (start_loops ?c1) = Some r"
      using d snap c1(1) assms(6-9) by (simp add: demo_main_def)
    then show ?thesis using True c1(2) new_stats by (auto simp: demo_recover_def start_loops_def GetStats_def split: option.splits)
  next
    case False
    then obtain err where "Controller.Start (unreadable env) [] (walk_in_flight env) (bootedAt env) d = Inl err"
      using S by auto
    then have "r = DemoStartFails err" using d(1) snap assms(6,9) by (simp add: demo_main_def)
    then show ?thesis using False by simp
  qed
qed

definition sample_demo :: DemoConfig where
  "sample_demo = \<lparr>demoWorkerCount = 100, demoTaskTimeout = 10000, demoBufferSize = 100, demoIntervalSeconds = 10\<rparr>"

definition quiet_env :: DemoEnv where
  "quiet_env = \<lparr>unreadable = False, walk = [], walk_in_flight = [], bootedAt = 50, timestamp = 50, enq = (\<lambda>_. FlushOk),
     enqueuedAt = 50, life = (\<lambda>_. []), signal = None, snap_fault = None, rotate_result = RotateOk, close_fails = False,
     stoppedAt = 60\<rparr>"

text \<open>A process that is given a job, and one that then also hands it out.\<close>

definition submit_events :: "sys_event list" where
  "submit_events = [SCall 0 [job_named ''a''], SCallLog 0 FlushOk 1, SCallAdd 0 2]"

definition dispatch_events :: "sys_event list" where
  "dispatch_events = submit_events @ [SPoll (\<lambda>_. FlushOk) 3 1]"

lemma logged_line: "wal_good w \<Longrightarrow> list_all ignored_line (disk_lines (w_file w)) \<longleftrightarrow>
    (\<forall>e \<in> set (wal_events w). EvType e \<notin> {EventDispatch, EventAck, EventRetry, EventTimeout, EventDead})"
proof -
  have "list_all ignored_line (map Rec es) \<longleftrightarrow>
      (\<forall>e \<in> set es. EvType e \<notin> {EventDispatch, EventAck, EventRetry, EventTimeout, EventDead})"
    if "list_all VerifyChecksum es" for es
    using that by (auto simp: list_all_iff ignored_line_def)
  moreover assume "wal_good w"
  ultimately show ?thesis by (auto simp: wal_good_def wal_events_def disk_lines_def valid_file_iff split: option.splits) metis+
qed

lemma sys_run_append: "sys_run (es @ fs) s = (case sys_run es s of None \<Rightarrow> None | Some s' \<Rightarrow> sys_run fs s')"
  by (induction es arbitrary: s) (auto split: option.splits)

lemma demo_sample_runs:
  assumes "mgr c = NewJobManager" and "wal_live (wal c)" and "wal_events (wal c) = []" and "\<not> ctl_stopped c"
  shows "\<exists>s. sys_run submit_events (start_loops c) = Some s \<and> list_all ignored_line (disk_lines (w_file (wal (ctl s)))) \<and>
      job_status (mgr (ctl s)) ''a'' = Some StatusPending"
    and "\<exists>s. sys_run dispatch_events (start_loops c) = Some s \<and> \<not> list_all ignored_line (disk_lines (w_file (wal (ctl s)))) \<and>
      job_status (mgr (ctl s)) ''a'' = Some StatusInFlight"
proof -
  obtain w1 where w1: "Append FlushOk 1 EventEnqueue (job_named ''a'') (wal c) = (None, w1)" "wal_live w1"
    "wal_events w1 = [new_event 1 EventEnqueue (job_named ''a'') (w_seq (wal c) + 1)]"
    using Append_live [OF assms(2)] assms(3) by fastforce
  obtain jm where jm: "Enqueue 2 (job_named ''a'') NewJobManager = Inr jm" "jm_ok jm" "queue jm = [''a'']"
    "job_status jm = (job_status NewJobManager)(''a'' \<mapsto> StatusPending)"
    using Enqueue_new_ok [OF _ NewJobManager_ok, of "job_named ''a''" 2] by (auto simp: NewJobManager_def)
  let ?s = "(start_loops c)\<lparr>ctl := c\<lparr>wal := w1, mgr := jm\<rparr>\<rparr>"
  have run: "sys_run submit_events (start_loops c) = Some ?s"
    using w1(1) jm(1) assms(1)
    by (simp add: submit_events_def sys_call_def sys_call_log_def sys_call_add_def start_loops_def fun_upd_def cong: if_cong)
  have "wal_good w1" using w1(2) by (simp add: wal_live_def)
  then have "list_all ignored_line (disk_lines (w_file w1))" using w1(3) by (simp add: logged_line new_event_def)
  then show "\<exists>s. sys_run submit_events (start_loops c) = Some s \<and> list_all ignored_line (disk_lines (w_file (wal (ctl s)))) \<and>
      job_status (mgr (ctl s)) ''a'' = Some StatusPending" using run jm(4) by simp
  have s: "jm_ok (mgr (ctl ?s))" "\<not> ctl_stopped (ctl ?s)" using jm(2) assms(4) by simp_all
  obtain as c' where c': "Poll (\<lambda>_. FlushOk) 3 1 (ctl ?s) = (Inr as, c')" "job_status (mgr c') ''a'' = Some StatusInFlight"
    "wal c' = append_dispatch (\<lambda>_. FlushOk) 0 3 (map (heap jm) (addrs jm [''a''])) w1"
    using Poll_any_disk [OF s, of "\<lambda>_. FlushOk" 3 1] jm(3) by auto
  have "addrs jm [''a''] = [the (jobs jm ''a'')]" by (simp add: addrs_def)
  then obtain w2 where w2: "wal c' = w2" "Append FlushOk 3 EventDispatch (heap jm (the (jobs jm ''a''))) w1 = (None, w2)"
    "wal_live w2" "wal_events w2 = wal_events w1 @ [new_event 3 EventDispatch (heap jm (the (jobs jm ''a''))) (w_seq w1 + 1)]"
    using c'(3) Append_live [OF w1(2), of 3 EventDispatch "heap jm (the (jobs jm ''a''))"] by auto
  have "\<not> list_all ignored_line (disk_lines (w_file w2))" using w2(3,4) by (simp add: logged_line wal_live_def new_event_def)
  moreover have "sys_run dispatch_events (start_loops c) = Some (sys_poll (\<lambda>_. FlushOk) 3 1 ?s)"
    using run by (simp add: dispatch_events_def sys_run_append)
  moreover have "ctl (sys_poll (\<lambda>_. FlushOk) 3 1 ?s) = c'" using c'(1) by (simp add: sys_poll_def)
  ultimately show "\<exists>s. sys_run dispatch_events (start_loops c) = Some s \<and>
      \<not> list_all ignored_line (disk_lines (w_file (wal (ctl s)))) \<and> job_status (mgr (ctl s)) ''a'' = Some StatusInFlight"
    using c'(2) w2(1) by simp
qed

text \<open>With the repository's configuration: killed while the job is pending, and killed while it runs.\<close>

lemma demo_recovers_nothing_before_checkpoint_witness:
  "\<exists>(s :: Sys) later c' (t :: Sys) err. job_status (mgr (ctl s)) ''a'' = Some StatusPending \<and>
    demo_main [''recover''] (Some sample_demo) quiet_env \<lparr>disk_wal = w_file (wal (ctl s)), disk_snap = snap (ctl s)\<rparr> =
      Some (DemoStopped [no_jobs, later] (Some 0) c') \<and>
    job_status (mgr (ctl t)) ''a'' = Some StatusInFlight \<and>
    demo_main [''recover''] (Some sample_demo) quiet_env \<lparr>disk_wal = w_file (wal (ctl t)), disk_snap = snap (ctl t)\<rparr> =
      Some (DemoStartFails err)"
proof -
  let ?dc = "demo_controller_config sample_demo"
  obtain b where b: "NewController None sample_fs ?dc = Some b" "mgr b = NewJobManager" "wal_live (wal b)"
    "wal_events (wal b) = []" "\<not> ctl_stopped b"
    by (simp add: NewController_def NewPool_def NewWAL_def wal_live_def wal_events_def wal_good_def valid_file_Nil
        GetLastEvent_def Let_def demo_controller_config_def sample_demo_def)
  have pf: "path_file sample_fs = None" by (simp add: sample_fs_def)
  let ?c = "b\<lparr>ctl_running := True\<rparr>"
  have st: "Controller.Start False [] [] 1 b = Inr ?c"
    using Start_empty [OF b(1) pf, of False "[]" 1] by (simp add: disk_lines_def)
  have env: "walk quiet_env = []" "life quiet_env 0 = []" by (simp_all add: quiet_env_def)
  have int: "0 < SnapshotInterval ?dc" by (simp add: demo_controller_config_def sample_demo_def wrap64_def)
  have nw: "list_all no_write submit_events" "list_all no_write dispatch_events"
    by (simp_all add: submit_events_def dispatch_events_def)
  have "\<exists>r. demo_main [''recover''] (Some sample_demo) quiet_env \<lparr>disk_wal = wf, disk_snap = fs\<rparr> = Some r" for wf fs
    by (auto simp: demo_main_def demo_recover_def quiet_env_def NewController_def NewPool_def Let_def
        demo_controller_config_def sample_demo_def split: sum.split)
  note D = this
  obtain s r where s: "sys_run submit_events (start_loops ?c) = Some s" "list_all ignored_line (disk_lines (w_file (wal (ctl s))))"
    "job_status (mgr (ctl s)) ''a'' = Some StatusPending"
    "demo_main [''recover''] (Some sample_demo) quiet_env \<lparr>disk_wal = w_file (wal (ctl s)), disk_snap = snap (ctl s)\<rparr> = Some r"
    using demo_sample_runs(1) [of ?c] b(2-5) D by fastforce
  obtain t q where t: "sys_run dispatch_events (start_loops ?c) = Some t" "\<not> list_all ignored_line (disk_lines (w_file (wal (ctl t))))"
    "job_status (mgr (ctl t)) ''a'' = Some StatusInFlight"
    "demo_main [''recover''] (Some sample_demo) quiet_env \<lparr>disk_wal = w_file (wal (ctl t)), disk_snap = snap (ctl t)\<rparr> = Some q"
    using demo_sample_runs(2) [of ?c] b(2-5) D by fastforce
  obtain later c' where "r = DemoStopped [no_jobs, later] (Some 0) c'"
    using demo_recovers_nothing_before_checkpoint [OF b(1) pf st s(1) nw(1) env int s(4)] s(2) by auto
  moreover obtain err where "q = DemoStartFails err"
    using demo_recovers_nothing_before_checkpoint [OF b(1) pf st t(1) nw(2) env int t(4)] t(2) by auto
  ultimately show ?thesis using s(3,4) t(3,4) by blast
qed

end
