(* ===== verification/WalUtils.thy ===== *)
theory WalUtils
  imports WalProps
begin

text \<open>
  The rest of \<open>internal/storage/wal/utils.go\<close>, \<open>batch_writer.go\<close> and the structs of \<open>errors.go\<close>: declared with their contracts and not
  written yet. Each function returns the zero values of its results. A file is the list of its lines, as in
  \<open>Wal\<close>; a path that is not there is \<^term>\<open>None\<close>.
\<close>

section \<open>Repair, truncation, inspection\<close>

text \<open>A function that may write returns the file it leaves, here the one it found.\<close>

definition RepairWAL :: "wal_line list option \<Rightarrow> wal_line list option \<Rightarrow> unit res \<times> wal_line list option" where
  "RepairWAL src dst = (Inr (), dst)"

definition TruncateWAL :: "64 word \<Rightarrow> wal_line list option \<Rightarrow> unit res \<times> wal_line list option" where
  "TruncateWAL seq file = (Inr (), file)"

definition DumpWAL :: "wal_line list option \<Rightarrow> string \<Rightarrow> unit res \<times> string" where
  "DumpWAL file out = (Inr (), out)"

definition CompareWAL :: "wal_line list option \<Rightarrow> wal_line list option \<Rightarrow> string list res" where
  "CompareWAL file1 file2 = Inr []"

record WALStats =
  TotalEvents :: int
  EventTypes :: "EventType \<Rightarrow> int option"
  FirstSeq :: "64 word"
  StatsLastSeq :: "64 word"
  TimeRange :: "int \<times> int"
  CorruptedCount :: int

definition GetWALStats :: "wal_line list option \<Rightarrow> WALStats option res" where
  "GetWALStats file = Inr None"

section \<open>The batch writer\<close>

text \<open>\<open>NewBatchWriter\<close> returns nil, and the methods, which do not look at their receiver, return nil on it.\<close>

record BatchWriter =
  bw_wal :: WAL
  bw_buffer :: "Event list"
  bw_maxBatchSize :: int
  bw_flushInterval :: int

definition NewBatchWriter :: "WAL \<Rightarrow> int \<Rightarrow> int \<Rightarrow> BatchWriter option" where
  "NewBatchWriter w maxBatchSize flushInterval = None"

definition bw_Append :: "EventType \<Rightarrow> JobID \<Rightarrow> BatchWriter option \<Rightarrow> unit res \<times> BatchWriter option" where
  "bw_Append eventType jobID bw = (Inr (), bw)"

definition bw_Flush :: "BatchWriter option \<Rightarrow> unit res \<times> BatchWriter option" where
  "bw_Flush bw = (Inr (), bw)"

definition bw_Close :: "BatchWriter option \<Rightarrow> unit res \<times> BatchWriter option" where
  "bw_Close bw = (Inr (), bw)"

section \<open>Error values\<close>

text \<open>The structs of \<open>errors.go\<close>. Their messages are not written yet. The sentinel errors that the code returns are
  constructors of \<^typ>\<open>gerror\<close>.\<close>

record ChecksumError =
  ce_Seq :: "64 word"
  ce_Expected :: "32 word"
  ce_Actual :: "32 word"

definition ChecksumError_Error :: "ChecksumError \<Rightarrow> string" where
  "ChecksumError_Error e = []"

record CorruptionError =
  co_Seq :: "64 word"
  co_Offset :: int
  co_Cause :: "gerror option"

definition CorruptionError_Error :: "CorruptionError \<Rightarrow> string" where
  "CorruptionError_Error e = []"

definition CorruptionError_Unwrap :: "CorruptionError \<Rightarrow> gerror option" where
  "CorruptionError_Unwrap e = co_Cause e"

section \<open>What they are worth\<close>

text \<open>The checks accept what recovery refuses. On a file whose replay fails, because a line is not a record or
  its checksum is wrong, \<open>ValidateWAL\<close> reports no problem, \<open>CountEvents\<close> no event, and a repair succeeds and
  leaves the target without a single event of the source.\<close>

theorem utilities_accept_corruption:
  assumes "w_file w = Some file" and "file = map Rec es @ l # ls" and "list_all VerifyChecksum es" and "bad_line l"
  shows "(\<exists>err. fst (Replay h w s) = Some err) \<and> ValidateWAL file = Inr () \<and> CountEvents file = Inr 0 \<and>
    RepairWAL (Some file) None = (Inr (), None)"
  using Replay_corrupted [of w es l ls h s] assms
  by (auto simp: ValidateWAL_def CountEvents_def RepairWAL_def split: prod.split option.split)

lemma utilities_accept_corruption_witness:
  "(\<exists>err. fst (Replay collect torn_log []) = Some err) \<and>
    ValidateWAL [Rec sample_event, Garbage, Rec sample_event] = Inr ()"
  using utilities_accept_corruption [of torn_log "[Rec sample_event, Garbage, Rec sample_event]" "[sample_event]" Garbage
      "[Rec sample_event]" collect "[]"]
  by (simp add: torn_log_def sample_event_def bad_line_def)

end
