(* ===== verification/Metrics.thy ===== *)
theory Metrics
  imports GoTypes
begin

text \<open>
  The collector of \<open>internal/metrics/metrics.go\<close>. Counters, gauges, histograms and the default registry belong to
  the Prometheus client library: their states are type parameters, and what the code uses of them is a record
  of functions. \<open>StartServer\<close> only starts an HTTP server. No part of the program makes a collector.
\<close>

section \<open>What the code uses of the library\<close>

text \<open>\<open>MustRegister\<close> of a metric with the given name is \<^term>\<open>None\<close> when it panics.\<close>

record ('r, 'c, 'h, 'g, 'f) prometheus =
  MustRegister :: "string \<Rightarrow> 'r \<Rightarrow> 'r option"
  NewCounter :: 'c
  Inc :: "'c \<Rightarrow> 'c"
  NewHistogram :: 'h
  Observe :: "'f \<Rightarrow> 'h \<Rightarrow> 'h"
  NewGauge :: 'g
  SetGauge :: "'f \<Rightarrow> 'g \<Rightarrow> 'g"
  float64 :: "int \<Rightarrow> 'f"

section \<open>The collector\<close>

record ('c, 'h, 'g) Collector =
  jobsEnqueued :: 'c
  jobsDispatched :: 'c
  jobsCompleted :: 'c
  jobsFailed :: 'c
  jobsDead :: 'c
  jobLatency :: 'h
  recoveryTime :: 'g
  jobsPending :: 'g
  jobsInFlight :: 'g

definition metric_names :: "string list" where
  "metric_names = [''queue_jobs_enqueued_total'', ''queue_jobs_dispatched_total'', ''queue_jobs_completed_total'',
     ''queue_jobs_failed_total'', ''queue_jobs_dead_total'', ''queue_job_latency_seconds'',
     ''queue_recovery_time_seconds'', ''queue_jobs_pending'', ''queue_jobs_in_flight'']"

fun register_all :: "('r, 'c, 'h, 'g, 'f) prometheus \<Rightarrow> string list \<Rightarrow> 'r \<Rightarrow> 'r option" where
  "register_all p [] r = Some r"
| "register_all p (n # ns) r = (case MustRegister p n r of None \<Rightarrow> None | Some r' \<Rightarrow> register_all p ns r')"

definition NewCollector :: "('r, 'c, 'h, 'g, 'f) prometheus \<Rightarrow> 'r \<Rightarrow> (('c, 'h, 'g) Collector \<times> 'r) option" where
  "NewCollector p r = map_option (Pair
     \<lparr>jobsEnqueued = NewCounter p, jobsDispatched = NewCounter p, jobsCompleted = NewCounter p, jobsFailed = NewCounter p,
      jobsDead = NewCounter p, jobLatency = NewHistogram p, recoveryTime = NewGauge p, jobsPending = NewGauge p,
      jobsInFlight = NewGauge p\<rparr>) (register_all p metric_names r)"

definition RecordEnqueue :: "('r, 'c, 'h, 'g, 'f) prometheus \<Rightarrow> ('c, 'h, 'g) Collector \<Rightarrow> ('c, 'h, 'g) Collector" where
  "RecordEnqueue p m = m\<lparr>jobsEnqueued := Inc p (jobsEnqueued m)\<rparr>"

definition RecordDispatch :: "('r, 'c, 'h, 'g, 'f) prometheus \<Rightarrow> ('c, 'h, 'g) Collector \<Rightarrow> ('c, 'h, 'g) Collector" where
  "RecordDispatch p m = m\<lparr>jobsDispatched := Inc p (jobsDispatched m)\<rparr>"

definition RecordCompleted :: "('r, 'c, 'h, 'g, 'f) prometheus \<Rightarrow> 'f \<Rightarrow> ('c, 'h, 'g) Collector \<Rightarrow> ('c, 'h, 'g) Collector" where
  "RecordCompleted p latencySeconds m =
     m\<lparr>jobsCompleted := Inc p (jobsCompleted m), jobLatency := Observe p latencySeconds (jobLatency m)\<rparr>"

definition RecordFailed :: "('r, 'c, 'h, 'g, 'f) prometheus \<Rightarrow> ('c, 'h, 'g) Collector \<Rightarrow> ('c, 'h, 'g) Collector" where
  "RecordFailed p m = m\<lparr>jobsFailed := Inc p (jobsFailed m)\<rparr>"

definition RecordDead :: "('r, 'c, 'h, 'g, 'f) prometheus \<Rightarrow> ('c, 'h, 'g) Collector \<Rightarrow> ('c, 'h, 'g) Collector" where
  "RecordDead p m = m\<lparr>jobsDead := Inc p (jobsDead m)\<rparr>"

definition SetRecoveryTime :: "('r, 'c, 'h, 'g, 'f) prometheus \<Rightarrow> 'f \<Rightarrow> ('c, 'h, 'g) Collector \<Rightarrow> ('c, 'h, 'g) Collector" where
  "SetRecoveryTime p seconds m = m\<lparr>recoveryTime := SetGauge p seconds (recoveryTime m)\<rparr>"

definition UpdateQueueStats :: "('r, 'c, 'h, 'g, 'f) prometheus \<Rightarrow> int \<Rightarrow> int \<Rightarrow> ('c, 'h, 'g) Collector \<Rightarrow> ('c, 'h, 'g) Collector" where
  "UpdateQueueStats p pending inFlight m =
     m\<lparr>jobsPending := SetGauge p (float64 p pending) (jobsPending m), jobsInFlight := SetGauge p (float64 p inFlight) (jobsInFlight m)\<rparr>"

section \<open>One collector per process\<close>

text \<open>The documented rule of the registry: a name that is taken is refused, and stays taken.\<close>

definition unique_names :: "('r, 'c, 'h, 'g, 'f) prometheus \<Rightarrow> ('r \<Rightarrow> string set) \<Rightarrow> bool" where
  "unique_names p taken \<longleftrightarrow> (\<forall>n r. if n \<in> taken r then MustRegister p n r = None
     else \<exists>r'. MustRegister p n r = Some r' \<and> taken r' = insert n (taken r))"

lemma register_all_taken:
  assumes "unique_names p taken" and "distinct ns"
  shows "if set ns \<inter> taken r = {} then \<exists>r'. register_all p ns r = Some r' \<and> taken r' = set ns \<union> taken r
    else register_all p ns r = None"
  using assms(2)
proof (induction ns arbitrary: r)
  case Nil
  then show ?case by simp
next
  case (Cons n ns)
  show ?case
  proof (cases "n \<in> taken r")
    case True
    then have "MustRegister p n r = None" using assms(1) unfolding unique_names_def by metis
    then show ?thesis using True by auto
  next
    case False
    then obtain r1 where r1: "MustRegister p n r = Some r1" "taken r1 = insert n (taken r)"
      using assms(1) unfolding unique_names_def by metis
    have "n \<notin> set ns" using Cons.prems by simp
    then show ?thesis using Cons.IH [of r1] Cons.prems r1 False by (auto split: if_splits)
  qed
qed

text \<open>A process has room for one collector. On a registry that holds none of the nine names \<open>NewCollector\<close>
  succeeds; a second one, on any registry that still holds one of them, panics.\<close>

theorem second_collector_panics:
  assumes "unique_names p taken" and "taken r \<inter> set metric_names = {}"
  shows "\<exists>m r'. NewCollector p r = Some (m, r') \<and>
    (\<forall>r''. taken r' \<inter> taken r'' \<inter> set metric_names \<noteq> {} \<longrightarrow> NewCollector p r'' = None)"
proof -
  have d: "distinct metric_names" by (simp add: metric_names_def)
  obtain r' where r': "register_all p metric_names r = Some r'"
    using register_all_taken [OF assms(1) d, of r] assms(2) by (auto simp: Int_commute split: if_splits)
  have "register_all p metric_names r'' = None" if "taken r' \<inter> taken r'' \<inter> set metric_names \<noteq> {}" for r''
  proof -
    have "set metric_names \<inter> taken r'' \<noteq> {}" using that by blast
    then show ?thesis using register_all_taken [OF assms(1) d, of r''] by presburger
  qed
  then show ?thesis using r' by (auto simp: NewCollector_def)
qed

text \<open>The registry as a set of names, counters as numbers, a histogram as its observations.\<close>

definition toy_prometheus :: "(string list, nat, int list, int, int) prometheus" where
  "toy_prometheus = \<lparr>MustRegister = (\<lambda>n r. if n \<in> set r then None else Some (n # r)), NewCounter = 0, Inc = Suc,
     NewHistogram = [], Observe = (\<lambda>x h. x # h), NewGauge = 0, SetGauge = (\<lambda>x g. x), float64 = (\<lambda>n. n)\<rparr>"

lemma second_collector_panics_witness:
  "\<exists>m r'. NewCollector toy_prometheus [] = Some (m, r') \<and> jobsDead m = 0 \<and> NewCollector toy_prometheus r' = None"
proof -
  have u: "unique_names toy_prometheus set" by (simp add: unique_names_def toy_prometheus_def)
  obtain m r' where m: "NewCollector toy_prometheus [] = Some (m, r')"
    "\<forall>r''. set r' \<inter> set r'' \<inter> set metric_names \<noteq> {} \<longrightarrow> NewCollector toy_prometheus r'' = None"
    using second_collector_panics [OF u, of "[]"] by auto
  have "set r' = set metric_names" "jobsDead m = 0"
    using m(1) by (auto simp: NewCollector_def metric_names_def toy_prometheus_def)
  then have "set r' \<inter> set r' \<inter> set metric_names \<noteq> {}" by (simp add: metric_names_def)
  then show ?thesis using m \<open>jobsDead m = 0\<close> by blast
qed

end
