(* ===== verification/RaftReplication.thy ===== *)
theory RaftReplication
  imports RaftMatching
begin

text \<open>
  Replication under one leadership: as long as no process restarts, no log is compacted and the leaders of
  the run are all of one term, every node applies a prefix of one sequence of commands, and nothing is
  applied before a majority holds it. (A second leadership can break this: \<open>RaftLimits\<close>.)
\<close>

section \<open>What a node has applied\<close>

definition message :: "LogEntry \<Rightarrow> command \<times> int" where
  "message e = (Command e, Index e)"

text \<open>Entry 0 is the one every store is made with; it is not applied.\<close>

definition applied_ok :: "Raft \<Rightarrow> bool" where
  "applied_ok rf \<longleftrightarrow> 0 \<le> lastApplied rf \<and> lastApplied rf \<le> commitIndex rf \<and> commitIndex rf < int (length (logStore rf)) \<and>
     applied rf = map message (take (nat (lastApplied rf)) (tl (logStore rf)))"

text \<open>A step that only adds to the log and may raise the commit index within it.\<close>

definition grows :: "Raft \<Rightarrow> Raft \<Rightarrow> bool" where
  "grows rf rf' \<longleftrightarrow> (\<exists>m. logStore rf' = logStore rf @ m) \<and> commitIndex rf \<le> commitIndex rf' \<and>
     (commitIndex rf' = commitIndex rf \<or> commitIndex rf' < int (length (logStore rf'))) \<and>
     lastApplied rf' = lastApplied rf \<and> applied rf' = applied rf"

lemma grows_same [simp]:
  "logStore rf' = logStore rf \<Longrightarrow> commitIndex rf' = commitIndex rf \<Longrightarrow> lastApplied rf' = lastApplied rf \<Longrightarrow>
   applied rf' = applied rf \<Longrightarrow> grows rf rf'"
  by (simp add: grows_def)

lemma applied_ok_grows:
  assumes "applied_ok rf" and "grows rf rf'"
  shows "applied_ok rf'"
proof -
  obtain m where m: "logStore rf' = logStore rf @ m" using assms(2) by (auto simp: grows_def)
  have a: "0 \<le> lastApplied rf" "lastApplied rf \<le> commitIndex rf" "commitIndex rf < int (length (logStore rf))"
    "applied rf = map message (take (nat (lastApplied rf)) (tl (logStore rf)))" using assms(1) by (simp_all add: applied_ok_def)
  then have "logStore rf \<noteq> []" "nat (lastApplied rf) \<le> length (tl (logStore rf))" by auto
  then have "take (nat (lastApplied rf)) (tl (logStore rf')) = take (nat (lastApplied rf)) (tl (logStore rf))" by (simp add: m)
  then show ?thesis using a assms(2) m by (auto simp: applied_ok_def grows_def)
qed

lemma apply_loop_applied:
  assumes "rooted (logStore rf)"
  shows "0 \<le> lastApplied rf \<Longrightarrow> lastApplied rf + int n < int (length (logStore rf)) \<Longrightarrow>
    applied rf = map message (take (nat (lastApplied rf)) (tl (logStore rf))) \<Longrightarrow> apply_loop n rf = Some rf' \<Longrightarrow>
    lastApplied rf' = lastApplied rf + int n \<and> logStore rf' = logStore rf \<and> commitIndex rf' = commitIndex rf \<and>
    applied rf' = map message (take (nat (lastApplied rf')) (tl (logStore rf)))"
  using assms
proof (induction n arbitrary: rf)
  case 0
  then show ?case by simp
next
  case (Suc n)
  let ?l = "logStore rf" and ?k = "nat (lastApplied rf)"
  have k: "lastApplied rf + 1 = int (Suc ?k)" "Suc ?k < length ?l" using Suc.prems(1,2) by auto
  have get: "GetLog (lastApplied rf + 1) ?l = Some (Inr (?l ! Suc ?k))"
    unfolding k(1) by (rule rooted_get [OF Suc.prems(5) k(2)])
  define rf1 where "rf1 = rf\<lparr>lastApplied := lastApplied rf + 1,
    applied := applied rf @ [(Command (?l ! Suc ?k), Index (?l ! Suc ?k))]\<rparr>"
  have step: "apply_loop n rf1 = Some rf'" using Suc.prems(4) get by (simp add: Let_def rf1_def)
  have "nat (lastApplied rf1) = Suc ?k" "?k < length (tl ?l)" using k Suc.prems(1) by (auto simp: rf1_def nat_add_distrib)
  then have "applied rf1 = map message (take (nat (lastApplied rf1)) (tl (logStore rf1)))"
    using Suc.prems(3) k(2) by (simp add: rf1_def take_Suc_conv_app_nth nth_tl message_def)
  then have "lastApplied rf' = lastApplied rf1 + int n \<and> logStore rf' = logStore rf1 \<and> commitIndex rf' = commitIndex rf1 \<and>
    applied rf' = map message (take (nat (lastApplied rf')) (tl (logStore rf1)))"
    using Suc.prems(1,2,5) by (intro Suc.IH [OF _ _ _ step]) (auto simp: rf1_def)
  then show ?case by (simp add: rf1_def)
qed

lemma applyLogs_applied:
  assumes "applied_ok rf" and "rooted (logStore rf)" and "applyLogs rf = Some rf'"
  shows "applied_ok rf' \<and> logStore rf' = logStore rf \<and> commitIndex rf' = commitIndex rf"
proof -
  have "lastApplied rf + int (nat (commitIndex rf - lastApplied rf)) = commitIndex rf" using assms(1) by (simp add: applied_ok_def)
  then show ?thesis
    using apply_loop_applied [OF assms(2) _ _ _ assms(3) [unfolded applyLogs_def]] assms(1) by (simp add: applied_ok_def)
qed

section \<open>The handlers\<close>

lemma election_grows:
  "election_timeout rf = Some (r, rf') \<Longrightarrow> grows rf rf'"
  "RequestVote args rf = (reply, rf') \<Longrightarrow> grows rf rf'"
  "vote_reply args vr n rf = Some (k, rf') \<Longrightarrow> grows rf rf'"
  "replicate_args p rf = Some a \<Longrightarrow> grows rf rf"
  by (auto simp: election_timeout_def startElection_def RequestVote_def vote_reply_def convertToLeader_def convertToFollower_def
      Let_def split: if_splits option.splits sum.splits)

lemma Propose_grows:
  assumes "rooted (logStore rf)" and "Propose cmd rf = Some (ans, rf')"
  shows "grows rf rf'"
  using assms by (auto simp: Propose_def Let_def StoreLog_def StoreLogs_def grows_def split: if_splits option.splits)

text \<open>An entry that the node counts as committed is in its own log.\<close>

lemma updateCommitIndex_grows:
  assumes "rooted (logStore rf)" and "updateCommitIndex rf = Some rf'"
  shows "grows rf rf' \<and> (commitIndex rf' = commitIndex rf \<or> committable rf (commitIndex rf')) \<and>
    rf' = rf\<lparr>commitIndex := commitIndex rf'\<rparr>"
proof -
  have good: "log_good (logStore rf)" using assms(1) by (simp add: rooted_def)
  obtain k where "commit_scan k rf = Some rf'" using assms(2) by (auto simp: updateCommitIndex_def split: option.splits)
  then obtain c where c: "rf' = rf\<lparr>commitIndex := c\<rparr>" "commitIndex rf \<le> c" "c \<noteq> commitIndex rf \<longrightarrow> committable rf c"
    using commit_scan_spec [OF good, of k] by auto
  moreover have "c < int (length (logStore rf))" if "committable rf c"
    using that rooted_view [OF assms(1), of c] by (auto simp: committable_def split: if_splits)
  ultimately show ?thesis by (auto simp: grows_def)
qed

text \<open>Into a log that is a piece of the leader's the loop only adds, up to the last entry sent.\<close>

lemma append_loop_adds:
  assumes st: "rooted st" "st = take (length st) l" and l: "rooted l"
  shows "es = take (length es) (drop s l) \<Longrightarrow> s \<le> length st \<Longrightarrow> append_loop es (int (length st) - 1) st = Some st' \<Longrightarrow>
    (\<exists>m. st' = st @ m) \<and> s + length es \<le> length st'"
proof (induction es arbitrary: s)
  case Nil
  then show ?case by simp
next
  case (Cons e es)
  have s: "s < length l" using Cons.prems(1) by (cases "s < length l") auto
  have cons: "drop s l = l ! s # drop (Suc s) l" using s by (simp add: Cons_nth_drop_Suc)
  have e: "e = l ! s" "es = take (length es) (drop (Suc s) l)" using Cons.prems(1) by (simp_all add: cons)
  have ix: "Index e = int s" using rooted_nth [OF l s] e(1) by simp
  show ?case
  proof (cases "s < length st")
    case True
    have "st ! s = e" using st(2) True e(1) by (metis nth_take)
    then have "GetLog (Index e) st = Some (Inr e)" unfolding ix using rooted_get [OF st(1) True] by simp
    then have "append_loop es (int (length st) - 1) st = Some st'" using Cons.prems(3) ix True by simp
    then show ?thesis using Cons.IH [OF e(2)] True by simp
  next
    case False
    then have "st' = st @ e # es" "s = length st" using Cons.prems(2,3) ix by (simp_all add: StoreLogs_def)
    then show ?thesis by simp
  qed
qed

section \<open>The cluster\<close>

text \<open>The leaders of the run are all of term \<open>t\<close>. (A node becomes leader by its own event.)\<close>

fun one_leadership :: "int \<Rightarrow> event list \<Rightarrow> cluster \<Rightarrow> bool" where
  "one_leadership t [] c = True"
| "one_leadership t (e # es) c =
     (case cluster_step e c of
        None \<Rightarrow> False
      | Some c' \<Rightarrow> (state (nodes c' (event_node e)) = Leader \<longrightarrow> currentTerm (nodes c' (event_node e)) = t) \<and>
          one_leadership t es c')"

text \<open>A majority of the nodes has an entry at the index.\<close>

definition stored :: "node_id list \<Rightarrow> cluster \<Rightarrow> int \<Rightarrow> node_id set" where
  "stored ids c n = {p \<in> set ids. n < int (length (logStore (nodes c p)))}"

definition held_by_most :: "node_id list \<Rightarrow> cluster \<Rightarrow> int \<Rightarrow> bool" where
  "held_by_most ids c n \<longleftrightarrow> n \<le> 0 \<or> length ids div 2 < card (stored ids c n)"

lemma held_by_most_le: "held_by_most ids c n \<Longrightarrow> m \<le> n \<Longrightarrow> held_by_most ids c m"
proof -
  assume h: "held_by_most ids c n" "m \<le> n"
  have "stored ids c n \<subseteq> stored ids c m" using h(2) by (auto simp: stored_def)
  moreover have "finite (stored ids c m)" by (simp add: stored_def)
  ultimately have "card (stored ids c n) \<le> card (stored ids c m)" by (intro card_mono)
  then show ?thesis using h by (auto simp: held_by_most_def)
qed

lemma held_by_most_grows:
  assumes "held_by_most ids c n" and "\<And>p. length (logStore (nodes c p)) \<le> length (logStore (nodes d p))"
  shows "held_by_most ids d n"
proof -
  have "stored ids c n \<subseteq> stored ids d n"
  proof
    fix p assume "p \<in> stored ids c n"
    then show "p \<in> stored ids d n" using assms(2) [of p] by (simp add: stored_def)
  qed
  moreover have "finite (stored ids d n)" by (simp add: stored_def)
  ultimately have "card (stored ids c n) \<le> card (stored ids d n)" by (intro card_mono)
  then show ?thesis using assms(1) by (auto simp: held_by_most_def)
qed

definition lead_ok :: "node_id list \<Rightarrow> int \<Rightarrow> cluster \<Rightarrow> node_id \<Rightarrow> bool" where
  "lead_ok ids t c i \<longleftrightarrow> (state (nodes c i) = Leader \<longrightarrow> i \<in> set ids \<and>
     (\<forall>p \<in> set ids. p \<noteq> i \<longrightarrow> matchIndex (nodes c i) p < int (length (logStore (nodes c p)))))"

definition sent_ok :: "node_id list \<Rightarrow> cluster \<Rightarrow> bool" where
  "sent_ok ids c \<longleftrightarrow> (\<forall>p args. (p, args) \<in> set (appends c) \<longrightarrow> held_by_most ids c (aLeaderCommit args)) \<and>
     (\<forall>p args reply. (p, args, reply) \<in> set (acks c) \<longrightarrow> eSuccess reply \<longrightarrow>
        aPrevLogIndex args + int (length (aEntries args)) < int (length (logStore (nodes c p))))"

definition one_log :: "int \<Rightarrow> book \<Rightarrow> bool" where
  "one_log t b \<longleftrightarrow> (\<forall>u. u \<noteq> t \<longrightarrow> lead b u = None \<and> length (llog b u) \<le> 1)"

definition repl_inv :: "node_id list \<Rightarrow> int \<Rightarrow> cluster \<Rightarrow> book \<Rightarrow> bool" where
  "repl_inv ids t c b \<longleftrightarrow> one_log t b \<and> sent_ok ids c \<and>
     (\<forall>i. applied_ok (nodes c i) \<and> held_by_most ids c (commitIndex (nodes c i)) \<and> lead_ok ids t c i)"

lemma repl_inv_init: "repl_inv ids t (cluster_init ids) empty_book"
  by (simp add: repl_inv_def one_log_def sent_ok_def cluster_init_def NewRaft_def applied_ok_def held_by_most_def lead_ok_def
      empty_book_def NewMemoryLogStore_def)

text \<open>A log is a piece of the leader's, or the one entry it was made with.\<close>

lemma log_shape:
  assumes "one_log t b" and "agrees b l"
  shows "l = take (length l) (llog b t) \<or> length l = 1"
proof -
  have l: "l \<noteq> []" using assms(2) by (auto simp: agrees_def rooted_def log_good_def)
  define k where "k = length l - 1"
  have k: "k < length l" "Suc k = length l" using l by (simp_all add: k_def)
  let ?u = "Term (l ! k)"
  have eq: "l = take (length l) (llog b ?u)" using assms(2) k by (metis agrees_def take_all order_refl)
  show ?thesis
  proof (cases "?u = t")
    case False
    then have "length (llog b ?u) \<le> 1" using assms(1) by (simp add: one_log_def)
    then have "length l \<le> 1" using arg_cong [OF eq, of length] by simp
    then show ?thesis using l by (cases l) auto
  qed (use eq in simp)
qed

section \<open>The receiver\<close>

lemma AppendEntries_answer:
  assumes "AppendEntries args rf = Some (reply, rf')"
  shows "\<not> eSuccess reply \<and> (rf' = rf \<or> currentTerm rf \<le> aTerm args \<and> rf' = heard args rf) \<or> currentTerm rf \<le> aTerm args \<and>
    (\<exists>n st. LastIndex (logStore rf) = Some n \<and> aPrevLogIndex args \<le> n \<and>
      prev_mismatch args (logStore rf) = Some False \<and> append_loop (aEntries args) n (logStore rf) = Some st \<and>
      advance_commit (aLeaderCommit args) ((heard args rf)\<lparr>logStore := st\<rparr>) = Some rf')"
  using assms unfolding AppendEntries_def Let_def heard_def [symmetric] heard_log
  by (auto simp: not_less split: if_split_asm option.split_asm bool.split_asm prod.split_asm)

text \<open>A message of the one leader only adds to a log of the cluster, up to the last entry sent.\<close>

lemma message_adds:
  assumes one: "one_log t b" and st: "agrees b st" and l: "agrees b (llog b t)" and m: "msg_ok b args" "aTerm args = t"
    and n: "LastIndex st = Some n" "aPrevLogIndex args \<le> n" "prev_mismatch args st = Some False"
      "append_loop (aEntries args) n st = Some st'"
  shows "(\<exists>m. st' = st @ m) \<and> aPrevLogIndex args + int (length (aEntries args)) < int (length st')"
proof -
  let ?l = "llog b t" and ?k = "nat (aPrevLogIndex args)"
  have r: "rooted st" "rooted ?l" using st l by (simp_all add: agrees_def)
  have len: "n = int (length st) - 1" using rooted_last [OF r(1)] n(1) by simp
  have k: "?k < length ?l" "aPrevLogTerm args = Term (?l ! ?k)" "int ?k = aPrevLogIndex args"
    "aEntries args = take (length (aEntries args)) (drop (Suc ?k) ?l)" using m by (simp_all add: msg_ok_def Let_def)
  have ks: "?k < length st" using n(2) k(3) len by linarith
  have "Term (st ! ?k) = Term (?l ! ?k)" using n(3) rooted_get [OF r(1) ks] k(2,3) by (simp add: prev_mismatch_def)
  then have "take (Suc ?k) st = take (Suc ?k) ?l" by (rule agrees_match [OF st l ks k(1)])
  then have "st = take (length st) ?l" using log_shape [OF one st] ks by auto
  from append_loop_adds [OF r(1) this r(2) k(4) _ n(4) [unfolded len]] ks
  show ?thesis using k(3) by auto
qed

lemma advance_commit_cases:
  assumes "advance_commit lc rf = Some rf'" and "applied_ok rf" and "rooted (logStore rf)"
  shows "grows rf rf' \<and> (commitIndex rf' = commitIndex rf \<or> commitIndex rf' \<le> lc) \<and> rf' = rf\<lparr>commitIndex := commitIndex rf'\<rparr>"
  using assms rooted_last [OF assms(3)]
  by (auto simp: advance_commit_def grows_def applied_ok_def split: if_splits)

lemma AppendEntries_grows:
  assumes app: "AppendEntries args rf = Some (reply, rf')" and one: "one_log t b" and st: "agrees b (logStore rf)"
    and l: "agrees b (llog b t)" and m: "msg_ok b args" "aTerm args = t" and ok: "applied_ok rf"
    and ag: "agrees b (logStore rf')"
  shows "grows rf rf'" "commitIndex rf' = commitIndex rf \<or> commitIndex rf' \<le> aLeaderCommit args"
    "matchIndex rf' = matchIndex rf" "state rf' = Leader \<Longrightarrow> state rf = Leader"
    "eSuccess reply \<Longrightarrow> aPrevLogIndex args + int (length (aEntries args)) < int (length (logStore rf'))"
proof -
  have H: "grows rf (heard args rf)" "matchIndex (heard args rf) = matchIndex rf"
    "state (heard args rf) = Leader \<Longrightarrow> state rf = Leader" "commitIndex (heard args rf) = commitIndex rf"
    by (auto simp: heard_def convertToFollower_def split: if_splits)
  have "grows rf rf' \<and> (commitIndex rf' = commitIndex rf \<or> commitIndex rf' \<le> aLeaderCommit args) \<and>
    matchIndex rf' = matchIndex rf \<and> (state rf' = Leader \<longrightarrow> state rf = Leader) \<and>
    (eSuccess reply \<longrightarrow> aPrevLogIndex args + int (length (aEntries args)) < int (length (logStore rf')))"
    using AppendEntries_answer [OF app]
  proof (elim disjE exE conjE)
    fix n st' assume n: "LastIndex (logStore rf) = Some n" "aPrevLogIndex args \<le> n" "prev_mismatch args (logStore rf) = Some False"
      "append_loop (aEntries args) n (logStore rf) = Some st'"
      and adv: "advance_commit (aLeaderCommit args) ((heard args rf)\<lparr>logStore := st'\<rparr>) = Some rf'"
    let ?rf = "(heard args rf)\<lparr>logStore := st'\<rparr>"
    note add = message_adds [OF one st l m n]
    have g: "grows rf ?rf" using add H by (auto simp: grows_def)
    have st': "logStore rf' = st'" using advance_commit_log [OF adv] by simp
    have r: "rooted (logStore ?rf)" using ag st' by (simp add: agrees_def)
    from advance_commit_cases [OF adv applied_ok_grows [OF ok g] r]
    have a: "grows ?rf rf'" "commitIndex rf' = commitIndex ?rf \<or> commitIndex rf' \<le> aLeaderCommit args"
      "rf' = ?rf\<lparr>commitIndex := commitIndex rf'\<rparr>" by blast+
    have "matchIndex rf' = matchIndex ?rf" "state rf' = state ?rf" by (subst a(3), simp)+
    moreover have "grows rf rf'" using g a(1) st' by (auto simp: grows_def)
    ultimately show ?thesis using H add a(2) st' by simp
  qed (use H in auto)
  then show "grows rf rf'" "commitIndex rf' = commitIndex rf \<or> commitIndex rf' \<le> aLeaderCommit args"
    "matchIndex rf' = matchIndex rf" "state rf' = Leader \<Longrightarrow> state rf = Leader"
    "eSuccess reply \<Longrightarrow> aPrevLogIndex args + int (length (aEntries args)) < int (length (logStore rf'))" by blast+
qed

section \<open>The sender\<close>

text \<open>What the leader counts as held by a majority is.\<close>

lemma ack_count_card:
  assumes "distinct ids" and "rid rf = i" and "Peers rf = ids"
  shows "ack_count n rf = card (insert i {p \<in> set ids. p \<noteq> i \<and> n \<le> matchIndex rf p})"
proof -
  let ?ps = "filter (\<lambda>p. p \<noteq> i \<and> n \<le> matchIndex rf p) ids"
  have "card (set ?ps) = length ?ps" using assms(1) by (intro distinct_card distinct_filter)
  then show ?thesis using assms(2,3) by (simp add: ack_count_def)
qed

lemma counted_held:
  assumes "distinct ids" and "i \<in> set ids" and "rid rf = i" and "Peers rf = ids"
    and "\<forall>p \<in> set ids. p \<noteq> i \<longrightarrow> matchIndex rf p < int (length (logStore (nodes c p)))"
    and "committable rf n" and "rooted (logStore rf)" and "logStore rf = logStore (nodes c i)"
  shows "held_by_most ids c n"
proof -
  let ?ps = "insert i {p \<in> set ids. p \<noteq> i \<and> n \<le> matchIndex rf p}"
  have "n < int (length (logStore rf))"
    using assms(6) rooted_view [OF assms(7), of n] by (auto simp: committable_def split: if_splits)
  then have "?ps \<subseteq> stored ids c n" using assms(2,5,8) by (fastforce simp: stored_def)
  then have "card ?ps \<le> card (stored ids c n)" by (intro card_mono) (simp_all add: stored_def)
  then show ?thesis using assms(4,6) ack_count_card [OF assms(1,3,4), of n] by (simp add: held_by_most_def committable_def)
qed

lemma replicate_reply_cases:
  assumes "replicate_reply p args reply rf = Some rf'"
  obtains "grows rf rf'" "commitIndex rf' = commitIndex rf" "matchIndex rf' = matchIndex rf" "state rf' = Leader \<Longrightarrow> state rf = Leader"
  | rf1 where "eSuccess reply" "state rf = Leader" "grows rf rf1" "commitIndex rf1 = commitIndex rf"
    "state rf1 = Leader" "aTerm args = currentTerm rf" "currentTerm rf1 = currentTerm rf"
    "matchIndex rf1 = (matchIndex rf)(p := aPrevLogIndex args + int (length (aEntries args)))"
    "rid rf1 = rid rf" "Peers rf1 = Peers rf" "logStore rf1 = logStore rf" "updateCommitIndex rf1 = Some rf'"
proof -
  let ?m = "aPrevLogIndex args + int (length (aEntries args))"
  define rf1 where "rf1 = rf\<lparr>matchIndex := (matchIndex rf)(p := ?m), nextIndex := (nextIndex rf)(p := ?m + 1)\<rparr>"
  let ?dec = "rf\<lparr>nextIndex := (nextIndex rf)(p := max 1 (nextIndex rf p - 1))\<rparr>"
  have def: "replicate_reply p args reply rf =
      (if state rf \<noteq> Leader \<or> aTerm args \<noteq> currentTerm rf then Some rf
       else if currentTerm rf < eTerm reply then Some (convertToFollower (eTerm reply) rf)
       else if eSuccess reply then updateCommitIndex rf1 else Some ?dec)"
    by (simp add: replicate_reply_def Let_def rf1_def)
  consider "rf' = rf" | "rf' = convertToFollower (eTerm reply) rf" | "rf' = ?dec"
    | "eSuccess reply" "state rf = Leader" "aTerm args = currentTerm rf" "updateCommitIndex rf1 = Some rf'"
    using assms unfolding def by (metis option.inject)
  then show thesis
  proof cases
    case 4
    show thesis by (rule that(2) [OF 4(1,2) _ _ _ 4(3) _ _ _ _ _ 4(4)]) (simp_all add: rf1_def 4(2))
  qed (rule that(1); simp add: convertToFollower_def)+
qed

section \<open>Every event\<close>

lemma repl_inv_node:
  assumes inv: "repl_inv ids t c b" and d: "nodes d = (nodes c)(i := rf)" and g: "grows (nodes c i) rf \<or> logStore rf = logStore (nodes c i)"
    and ok: "applied_ok rf" and com: "held_by_most ids c (commitIndex rf)"
    and lead: "state rf = Leader \<Longrightarrow> currentTerm rf = t \<and> i \<in> set ids \<and>
      (\<forall>p \<in> set ids. p \<noteq> i \<longrightarrow> matchIndex rf p < int (length (logStore (nodes c p))))"
    and sent: "\<And>p args. (p, args) \<in> set (appends d) \<Longrightarrow> (p, args) \<in> set (appends c) \<or> held_by_most ids c (aLeaderCommit args)"
    and answered: "\<And>p args reply. (p, args, reply) \<in> set (acks d) \<Longrightarrow> (p, args, reply) \<in> set (acks c) \<or>
      (eSuccess reply \<longrightarrow> aPrevLogIndex args + int (length (aEntries args)) < int (length (logStore (nodes d p))))"
  shows "repl_inv ids t d (enter i (nodes d i) b)"
proof -
  have len: "length (logStore (nodes c p)) \<le> length (logStore (nodes d p))" for p
    using g by (auto simp: d grows_def)
  have held: "held_by_most ids d n" if "held_by_most ids c n" for n by (rule held_by_most_grows [OF that len])
  have "one_log t (enter i (nodes d i) b)" using inv lead by (auto simp: repl_inv_def one_log_def enter_def d)
  moreover have "sent_ok ids d"
    unfolding sent_ok_def
  proof (intro conjI allI impI)
    show "held_by_most ids d (aLeaderCommit args)" if "(p, args) \<in> set (appends d)" for p args
      using sent [OF that] inv held by (auto simp: repl_inv_def sent_ok_def)
    fix p args reply assume a: "(p, args, reply) \<in> set (acks d)" "eSuccess reply"
    have "aPrevLogIndex args + int (length (aEntries args)) < int (length (logStore (nodes c p)))"
      if "(p, args, reply) \<in> set (acks c)" using inv that a(2) by (auto simp: repl_inv_def sent_ok_def)
    then show "aPrevLogIndex args + int (length (aEntries args)) < int (length (logStore (nodes d p)))"
      using answered [OF a(1)] a(2) len [of p] by force
  qed
  moreover have "lead_ok ids t d j" for j
    unfolding lead_ok_def
  proof (intro impI conjI ballI)
    assume j: "state (nodes d j) = Leader"
    have o: "lead_ok ids t c j" using inv by (simp add: repl_inv_def)
    show "j \<in> set ids" using j lead o by (cases "j = i") (simp_all add: d lead_ok_def)
    fix p assume p: "p \<in> set ids" "p \<noteq> j"
    have "matchIndex (nodes d j) p < int (length (logStore (nodes c p)))"
      using j lead o p by (cases "j = i") (simp_all add: d lead_ok_def)
    then show "matchIndex (nodes d j) p < int (length (logStore (nodes d p)))" using len [of p] by linarith
  qed
  moreover have "applied_ok (nodes d j) \<and> held_by_most ids d (commitIndex (nodes d j))" for j
    using inv ok held com by (auto simp: d repl_inv_def)
  ultimately show ?thesis by (simp add: repl_inv_def)
qed

lemma repl_inv_step:
  assumes inv: "repl_inv ids t c b" and logs: "logs_inv ids c h b" and v: "votes_inv ids c h" and ids: "cluster_ids ids"
    and step: "cluster_step e c = Some c'" and e: "\<And>i. e \<noteq> Restart i" "\<And>i k. e \<noteq> Compact i k"
    and one: "state (nodes c' (event_node e)) = Leader \<longrightarrow> currentTerm (nodes c' (event_node e)) = t"
  shows "repl_inv ids t c' (remember_log e c' b)"
proof -
  let ?i = "event_node e"
  have ok: "applied_ok (nodes c i)" "held_by_most ids c (commitIndex (nodes c i))" "lead_ok ids t c i" for i
    using inv by (simp_all add: repl_inv_def)
  have me: "rid (nodes c i) = i" "Peers (nodes c i) = ids" "distinct ids" for i
    using v ids by (simp_all add: votes_inv_def ids_ok_def cluster_ids_def)
  have ag: "agrees b (logStore (nodes c i))" "rooted (logStore (nodes c i))" for i
    using logs by (simp_all add: logs_inv_def node_ok_def agrees_def)
  have simple: "repl_inv ids t c' (remember_log e c' b)"
    if "nodes c' = (nodes c)(?i := rf)" "appends c' = appends c" "set (acks c') \<subseteq> set (acks c)" "grows (nodes c ?i) rf"
      "held_by_most ids c (commitIndex rf)"
      "state rf = Leader \<Longrightarrow> ?i \<in> set ids \<and> (\<forall>p \<in> set ids. p \<noteq> ?i \<longrightarrow> matchIndex rf p < int (length (logStore (nodes c p))))" for rf
    unfolding remember_log_def
    using that one applied_ok_grows [OF ok(1) that(4)] by (intro repl_inv_node [OF inv that(1)]) auto
  have kept: "repl_inv ids t c' (remember_log e c' b)"
    if "nodes c' = (nodes c)(?i := rf)" "appends c' = appends c" "acks c' = acks c" "grows (nodes c ?i) rf"
      "commitIndex rf = commitIndex (nodes c ?i)" "state rf = Leader \<Longrightarrow> state (nodes c ?i) = Leader \<and> matchIndex rf = matchIndex (nodes c ?i)" for rf
    using that ok(2,3) [of ?i] by (intro simple [of rf]) (auto simp: lead_ok_def)
  show ?thesis
  proof (cases e)
    case (Timeout i)
    obtain r rf where r: "election_timeout (nodes c i) = Some (r, rf)" "nodes c' = (nodes c)(i := rf)"
      "appends c' = appends c" "acks c' = acks c"
      using step by (auto simp: Timeout timeout_event_def split: if_splits option.splits)
    then have "commitIndex rf = commitIndex (nodes c i)" "state rf = Leader \<Longrightarrow> rf = nodes c i"
      by (auto simp: election_timeout_def startElection_def Let_def split: if_splits option.splits sum.splits)
    then show ?thesis using kept [of rf] election_grows(1) [OF r(1)] r(2-4) by (auto simp: Timeout)
  next
    case (Vote p args)
    obtain reply rf where r: "RequestVote args (nodes c p) = (reply, rf)" "nodes c' = (nodes c)(p := rf)"
      "appends c' = appends c" "acks c' = acks c"
      using step by (auto simp: Vote vote_event_def split: if_splits prod.splits)
    then have "commitIndex rf = commitIndex (nodes c p)" "state rf = Leader \<Longrightarrow> state (nodes c p) = Leader"
      "matchIndex rf = matchIndex (nodes c p)"
      by (auto simp: RequestVote_def Let_def split: if_splits)
    then show ?thesis using kept [of rf] election_grows(2) [OF r(1)] r(2-4) by (auto simp: Vote)
  next
    case (Client i cmd)
    obtain ans rf where r: "Propose cmd (nodes c i) = Some (ans, rf)" "c' = set_node i rf c"
      using step by (auto simp: Client local_event_def split: if_splits option.splits)
    then have "commitIndex rf = commitIndex (nodes c i)" "state rf = state (nodes c i)" "matchIndex rf = matchIndex (nodes c i)"
      by (auto simp: Propose_def Let_def split: if_splits option.splits)
    then show ?thesis using kept [of rf] Propose_grows [OF ag(2) r(1)] r(2) by (auto simp: Client)
  next
    case (Apply i)
    obtain rf where r: "applyLogs (nodes c i) = Some rf" "c' = set_node i rf c"
      using step by (auto simp: Apply local_event_def split: if_splits option.splits)
    have a: "applied_ok rf" "logStore rf = logStore (nodes c i)" "commitIndex rf = commitIndex (nodes c i)"
      using applyLogs_applied [OF ok(1) ag(2) r(1)] by blast+
    have "state rf = state (nodes c i)" "matchIndex rf = matchIndex (nodes c i)"
      using r(1) by (auto simp: applyLogs_def dest!: apply_loop_fields)
    then have "repl_inv ids t c' (enter i (nodes c' i) b)"
      using r(2) a ok(2,3) [of i] one by (intro repl_inv_node [OF inv, of c' i rf]) (auto simp: lead_ok_def Apply)
    then show ?thesis by (simp add: remember_log_def Apply)
  next
    case (Replicate i p)
    consider "c' = c" | args where "replicate_args p (nodes c i) = Some (Some args)" "c' = c\<lparr>appends := (p, args) # appends c\<rparr>"
      using step by (auto simp: Replicate replicate_event_def split: if_splits option.splits)
    then have N: "nodes c' = (nodes c)(i := nodes c i) \<and> acks c' = acks c \<and>
      (\<forall>q a. (q, a) \<in> set (appends c') \<longrightarrow> (q, a) \<in> set (appends c) \<or> aLeaderCommit a = commitIndex (nodes c i))"
      by cases (auto simp: replicate_args_def Let_def split: if_splits option.splits)
    then have S: "(q, a) \<in> set (appends c) \<or> held_by_most ids c (aLeaderCommit a)" if "(q, a) \<in> set (appends c')" for q a
      using ok(2) [of i] that by metis
    have "repl_inv ids t c' (enter i (nodes c' i) b)"
      using ok [of i] one N by (intro repl_inv_node [OF inv, of c' i "nodes c i", OF _ _ _ _ _ S]) (auto simp: lead_ok_def Replicate)
    then show ?thesis by (simp add: remember_log_def Replicate)
  next
    case (VoteReply p args reply)
    let ?j = "vCandidateID args"
    obtain n rf where r: "vote_reply args reply (tally c (?j, vTerm args)) (nodes c ?j) = Some (n, rf)" "(p, args, reply) \<in> set (votes c)"
      "nodes c' = (nodes c)(?j := rf)" "appends c' = appends c" "acks c' = acks c"
      using step by (auto simp: VoteReply vote_reply_event_def Let_def split: if_splits option.splits)
    have "(p, vTerm args, ?j) \<in> set (pending c)" using r(2) by (force simp: pending_def)
    then have j: "?j \<in> set ids" by (rule pending_facts(2) [OF v])
    have ne: "0 < length (logStore (nodes c q))" for q using ag(2) by (simp add: rooted_def log_good_def)
    have f: "commitIndex rf = commitIndex (nodes c ?j)" "state rf = Leader \<Longrightarrow> state (nodes c ?j) = Leader \<and> matchIndex rf = matchIndex (nodes c ?j) \<or>
        (\<forall>q \<in> set (Peers (nodes c ?j)). q \<noteq> rid (nodes c ?j) \<longrightarrow> matchIndex rf q = 0)"
      using r(1) by (auto simp: vote_reply_def convertToLeader_def convertToFollower_def split: if_splits option.splits)
    show ?thesis
    proof (rule simple [of rf])
      show "?i \<in> set ids \<and> (\<forall>q \<in> set ids. q \<noteq> ?i \<longrightarrow> matchIndex rf q < int (length (logStore (nodes c q))))" if "state rf = Leader"
        using f(2) [OF that] j ok(3) [of ?j] me ne by (auto simp: lead_ok_def VoteReply)
    qed (use r election_grows(3) [OF r(1)] f(1) ok(2) in \<open>simp_all add: VoteReply\<close>)
  next
    case (Append p args)
    obtain reply rf where r: "AppendEntries args (nodes c p) = Some (reply, rf)" "(p, args) \<in> set (appends c)"
      "nodes c' = (nodes c)(p := rf)" "appends c' = remove1 (p, args) (appends c)" "acks c' = (p, args, reply) # acks c"
      using step by (auto simp: Append append_event_def split: if_splits option.splits)
    have m: "msg_ok b args" using logs r(2) by (auto simp: logs_inv_def wire_ok_def)
    have one': "one_log t b" using inv by (simp add: repl_inv_def)
    then have t: "aTerm args = t" using m by (auto simp: msg_ok_def one_log_def)
    have "llog b t \<noteq> []" using m t by (auto simp: msg_ok_def Let_def)
    then have l: "agrees b (llog b t)" using logs unfolding logs_inv_def by blast
    have ag': "agrees b (logStore rf)" using AppendEntries_agrees [OF r(1) ag(1) _ m] l t by simp
    note G = AppendEntries_grows [OF r(1) one' ag(1) l m t ok(1) ag']
    have "held_by_most ids c (aLeaderCommit args)" using inv r(2) unfolding repl_inv_def sent_ok_def by blast
    then have com: "held_by_most ids c (commitIndex rf)" using G(2) ok(2) [of p] held_by_most_le by metis
    have "repl_inv ids t c' (enter p (nodes c' p) b)"
    proof (rule repl_inv_node [OF inv r(3) _ applied_ok_grows [OF ok(1) G(1)] com])
      show "currentTerm rf = t \<and> p \<in> set ids \<and> (\<forall>q \<in> set ids. q \<noteq> p \<longrightarrow> matchIndex rf q < int (length (logStore (nodes c q))))"
        if "state rf = Leader" using G(3) G(4) [OF that] ok(3) [of p] one that by (simp add: lead_ok_def Append r(3))
      show "(q, a) \<in> set (appends c) \<or> held_by_most ids c (aLeaderCommit a)" if "(q, a) \<in> set (appends c')" for q a
        using that set_remove1_subset [of "(p, args)" "appends c"] by (auto simp: r(4))
      show "(q, a, y) \<in> set (acks c) \<or> (eSuccess y \<longrightarrow> aPrevLogIndex a + int (length (aEntries a)) < int (length (logStore (nodes c' q))))"
        if "(q, a, y) \<in> set (acks c')" for q a y
        using that G(5) by (auto simp: r(3,5))
    qed (use G(1) in simp)
    then show ?thesis by (simp add: remember_log_def Append)
  next
    case (AppendReply p args reply)
    let ?j = "aLeaderID args"
    obtain rf where r: "replicate_reply p args reply (nodes c ?j) = Some rf" "(p, args, reply) \<in> set (acks c)"
      "nodes c' = (nodes c)(?j := rf)" "appends c' = appends c" "acks c' = remove1 (p, args, reply) (acks c)"
      using step by (auto simp: AppendReply ack_event_def split: if_splits option.splits)
    have sub: "set (acks c') \<subseteq> set (acks c)" using set_remove1_subset [of "(p, args, reply)" "acks c"] by (simp add: r(5))
    from r(1) show ?thesis
    proof (cases rule: replicate_reply_cases)
      case 1
      then show ?thesis using r(3,4) sub ok(2,3) [of ?j] by (intro simple [of rf]) (auto simp: lead_ok_def AppendReply)
    next
      case (2 rf1)
      note f = 2(8-12)
      have answer: "aPrevLogIndex args + int (length (aEntries args)) < int (length (logStore (nodes c p)))"
        using inv r(2) 2(1) by (auto simp: repl_inv_def sent_ok_def)
      have lead: "?j \<in> set ids" "\<forall>q \<in> set ids. q \<noteq> ?j \<longrightarrow> matchIndex rf1 q < int (length (logStore (nodes c q)))"
        using ok(3) [of ?j] 2(2) answer by (auto simp: lead_ok_def f(1))
      have rt: "rooted (logStore rf1)" using ag(2) f(4) by simp
      have U: "grows rf1 rf" "commitIndex rf = commitIndex rf1 \<or> committable rf1 (commitIndex rf)" "rf = rf1\<lparr>commitIndex := commitIndex rf\<rparr>"
        using updateCommitIndex_grows [OF rt f(5)] by blast+
      have "held_by_most ids c (commitIndex rf)"
        using U(2) counted_held [OF me(3) lead(1) _ _ lead(2) _ rt f(4)] 2(4) f(2,3) me ok(2) [of ?j] by auto
      moreover have "matchIndex rf = matchIndex rf1" by (subst U(3)) simp
      moreover have "grows (nodes c ?j) rf" using 2(3,4) U(1) by (auto simp: grows_def)
      ultimately show ?thesis using r(3,4) sub lead by (intro simple [of rf]) (auto simp: AppendReply)
    qed
  qed (use e in auto)
qed

section \<open>Runs\<close>

lemma repl_inv_run:
  assumes "repl_inv ids t c b" and "logs_inv ids c h b" and "votes_inv ids c h" and "cluster_ids ids"
    and "no_restart es" and "no_compaction es" and "one_leadership t es c" and "cluster_run es c = Some c'"
  shows "\<exists>h' b'. logs_inv ids c' h' b' \<and> repl_inv ids t c' b'"
  using assms
proof (induction es arbitrary: c h b)
  case Nil
  then show ?case by auto
next
  case (Cons e es)
  obtain c1 where c1: "cluster_step e c = Some c1" "cluster_run es c1 = Some c'"
    using Cons.prems(8) by (auto split: option.splits)
  have e: "\<And>i. e \<noteq> Restart i" "\<And>i k. e \<noteq> Compact i k" and es: "no_restart es" "no_compaction es"
    using Cons.prems(5,6) by (auto simp: no_restart_def no_compaction_def)
  have one: "state (nodes c1 (event_node e)) = Leader \<longrightarrow> currentTerm (nodes c1 (event_node e)) = t" "one_leadership t es c1"
    using Cons.prems(7) c1(1) by simp_all
  show ?case
    using Cons.IH [OF repl_inv_step [OF Cons.prems(1-4) c1(1) e one(1)] logs_inv_step [OF Cons.prems(2-4) c1(1) e]
        votes_inv_step [OF Cons.prems(3,4) c1(1) e(1)] Cons.prems(4) es one(2) c1(2)] .
qed

text \<open>The end of such a run, seen from the one sequence of entries.\<close>

definition follows :: "node_id list \<Rightarrow> LogEntry list \<Rightarrow> cluster \<Rightarrow> bool" where
  "follows ids L c \<longleftrightarrow> (\<forall>i. applied_ok (nodes c i) \<and> held_by_most ids c (commitIndex (nodes c i)) \<and>
     rooted (logStore (nodes c i)) \<and> tl (logStore (nodes c i)) = take (length (logStore (nodes c i)) - 1) L)"

lemma run_follows:
  assumes "cluster_ids ids" and "no_restart es" and "no_compaction es" and "one_leadership t es (cluster_init ids)"
    and "cluster_run es (cluster_init ids) = Some c"
  shows "\<exists>L. follows ids L c"
proof -
  obtain h b where inv: "logs_inv ids c h b" "repl_inv ids t c b"
    using repl_inv_run [OF repl_inv_init logs_inv_init votes_inv_init assms] by blast
  have "tl (logStore (nodes c i)) = take (length (logStore (nodes c i)) - 1) (tl (llog b t))" for i
  proof -
    let ?l = "logStore (nodes c i)"
    have "?l = take (length ?l) (llog b t) \<or> length ?l = 1"
      using inv by (intro log_shape) (simp_all add: logs_inv_def node_ok_def repl_inv_def)
    then show ?thesis by (metis One_nat_def diff_self_eq_0 length_0_conv length_tl take_0 tl_take)
  qed
  then have "follows ids (tl (llog b t)) c"
    using inv by (simp add: follows_def repl_inv_def logs_inv_def node_ok_def agrees_def)
  then show ?thesis by blast
qed

lemma follows_applied:
  assumes "follows ids L c"
  shows "applied (nodes c i) = take (nat (lastApplied (nodes c i))) (map message L)"
proof -
  let ?l = "logStore (nodes c i)" and ?n = "nat (lastApplied (nodes c i))"
  have a: "applied_ok (nodes c i)" and t: "tl ?l = take (length ?l - 1) L" using assms by (simp_all add: follows_def)
  then have "applied (nodes c i) = map message (take ?n (tl ?l))" "?n \<le> length ?l - 1" by (auto simp: applied_ok_def)
  with t show ?thesis by (metis min.absorb1 take_map take_take)
qed

text \<open>An entry at a place that two logs have is the same.\<close>

lemma follows_view:
  assumes "follows ids L c" and "m < length (logStore (nodes c i)) - 1"
  shows "m < length L \<and> log_view (logStore (nodes c i)) (int (Suc m)) = Some (L ! m) \<and> Index (L ! m) = int (Suc m)"
proof -
  let ?l = "logStore (nodes c i)"
  have t: "tl ?l = take (length ?l - 1) L" and r: "rooted ?l" using assms(1) by (simp_all add: follows_def)
  have m: "m < length (tl ?l)" "Suc m < length ?l" using assms(2) by simp_all
  have "m < length L" using m(1) arg_cong [OF t, of length] by simp
  moreover have "?l ! Suc m = L ! m" using nth_tl [OF m(1)] arg_cong [OF t, of "\<lambda>l. l ! m"] assms(2) by simp
  moreover have "nat (int (Suc m)) = Suc m" by (rule nat_int)
  ultimately show ?thesis using rooted_view [OF r, of "int (Suc m)"] rooted_nth [OF r m(2)] m(2) by (simp del: of_nat_Suc)
qed

text \<open>C37. Nothing is applied before a majority holds it. In every run without a restart and without a compaction whose
  leaders are all of one term, whatever is lost, delayed, repeated or reordered: a command that some node has
  handed to its state machine is, at its index, in the logs of a majority of the nodes.\<close>

theorem applied_command_held_by_most:
  assumes "cluster_ids ids" and "no_restart es" and "no_compaction es" and "one_leadership t es (cluster_init ids)"
    and "cluster_run es (cluster_init ids) = Some c" and "(cmd, k) \<in> set (applied (nodes c i))"
  shows "length ids div 2 < card {p \<in> set ids. map_option Command (log_view (logStore (nodes c p)) k) = Some cmd}"
proof -
  obtain L where L: "follows ids L c" using run_follows [OF assms(1-5)] by blast
  let ?ci = "commitIndex (nodes c i)"
  have F: "applied_ok (nodes c i)" "held_by_most ids c ?ci" using L by (simp_all add: follows_def)
  obtain m where m: "m < nat (lastApplied (nodes c i))" "m < length L" "message (L ! m) = (cmd, k)"
    using assms(6) follows_applied [OF L, of i] by (auto simp: in_set_conv_nth)
  have ci: "int (Suc m) \<le> ?ci" "?ci < int (length (logStore (nodes c i)))" using m(1) F(1) by (auto simp: applied_ok_def)
  have k: "k = int (Suc m)" "Command (L ! m) = cmd"
    using follows_view [OF L, of m i] ci m(3) by (auto simp: message_def)
  have "stored ids c ?ci \<subseteq> {p \<in> set ids. map_option Command (log_view (logStore (nodes c p)) k) = Some cmd}"
  proof
    fix p assume "p \<in> stored ids c ?ci"
    then have "p \<in> set ids" "m < length (logStore (nodes c p)) - 1" using ci(1) by (auto simp: stored_def)
    then show "p \<in> {p \<in> set ids. map_option Command (log_view (logStore (nodes c p)) k) = Some cmd}"
      using follows_view [OF L] k by simp
  qed
  then have "card (stored ids c ?ci) \<le> card {p \<in> set ids. map_option Command (log_view (logStore (nodes c p)) k) = Some cmd}"
    by (intro card_mono) simp_all
  then show ?thesis using F(2) ci(1) by (auto simp: held_by_most_def)
qed

text \<open>The run of \<open>replicated\<close> goes on: the answer commits the command at the leader, which applies it.\<close>

definition committed :: "event list" where
  "committed = replicated @ [AppendReply ''b''
     \<lparr>aTerm = 1, aLeaderID = ''a'', aPrevLogIndex = 0, aPrevLogTerm = 0, aEntries = [entry 1 1 ''x''], aLeaderCommit = 0\<rparr>
     \<lparr>eTerm = 1, eSuccess = True\<rparr>, Apply ''a'']"

lemma committed_run:
  "\<exists>c. cluster_run committed (cluster_init [''a'', ''b'', ''c'']) = Some c \<and> applied (nodes c ''a'') = [(''x'', 1)]"
  "one_leadership 1 committed (cluster_init [''a'', ''b'', ''c''])"
  "cluster_ids [''a'', ''b'', ''c'']" "no_restart committed" "no_compaction committed"
proof -
  have "map_option (\<lambda>c. applied (nodes c ''a'')) (cluster_run committed (cluster_init [''a'', ''b'', ''c''])) = Some [(''x'', 1)]"
    by code_simp
  then show "\<exists>c. cluster_run committed (cluster_init [''a'', ''b'', ''c'']) = Some c \<and> applied (nodes c ''a'') = [(''x'', 1)]" by auto
  show "one_leadership 1 committed (cluster_init [''a'', ''b'', ''c''])" by code_simp
  show "cluster_ids [''a'', ''b'', ''c'']" "no_restart committed" "no_compaction committed"
    by (simp_all add: cluster_ids_def no_restart_def no_compaction_def committed_def replicated_def ask_def)
qed

lemma applied_command_held_by_most_witness:
  "\<exists>c. cluster_run committed (cluster_init [''a'', ''b'', ''c'']) = Some c \<and>
    1 < card {p \<in> {''a'', ''b'', ''c''}. map_option Command (log_view (logStore (nodes c p)) 1) = Some ''x''}"
proof -
  let ?ids = "[''a'', ''b'', ''c'']"
  obtain c where c: "cluster_run committed (cluster_init ?ids) = Some c" "applied (nodes c ''a'') = [(''x'', 1)]"
    using committed_run(1) by blast
  have "(''x'', 1) \<in> set (applied (nodes c ''a''))" by (simp add: c(2))
  from applied_command_held_by_most [OF committed_run(3-5,2) c(1) this] show ?thesis using c(1) by (intro exI [of _ c]) simp
qed

end
