(* ===== verification/RaftChosen.thy ===== *)
theory RaftChosen
  imports RaftReplication
begin

text \<open>
  Which entries of a leader's log are chosen, and which cannot be chosen any more: the vocabulary for the
  safety of a cluster with several leaders. History variables: the book of the leaders' logs, the votes given,
  and how much of each leader's log a node has accepted.
\<close>

section \<open>The receiver\<close>

text \<open>The loop keeps every common beginning of the two logs, and installs the sender's up to the last entry sent.\<close>

lemma append_loop_keeps:
  assumes st: "agrees b st" and l: "agrees b l" and same: "take k st = take k l" "k \<le> length st"
  shows "es = take (length es) (drop s l) \<Longrightarrow> s \<le> length st \<Longrightarrow> take s st = take s l \<Longrightarrow>
    append_loop es (int (length st) - 1) st = Some st' \<Longrightarrow>
    k \<le> length st' \<and> take k st' = take k l \<and> s + length es \<le> length st' \<and> take (s + length es) st' = take (s + length es) l"
proof (induction es arbitrary: s)
  case Nil
  then show ?case using same by simp
next
  case (Cons e es)
  have r: "rooted st" "rooted l" using st l by (simp_all add: agrees_def)
  have len: "s + length (e # es) \<le> length l" using arg_cong [OF Cons.prems(1), of length] by simp
  then have s: "s < length l" by simp
  have cons: "drop s l = l ! s # drop (Suc s) l" using s by (simp add: Cons_nth_drop_Suc)
  have e: "e = l ! s" "es = take (length es) (drop (Suc s) l)" using Cons.prems(1) by (simp_all add: cons)
  have ix: "Index e = int s" using rooted_nth [OF r(2) s] e(1) by simp
  have rest: "take s l @ e # es = take (s + length (e # es)) l" using Cons.prems(1) by (metis take_add)
  have replaced: ?case if "st' = take (s + length (e # es)) l" "k \<le> s"
    using that len by (auto simp: min_def)
  show ?case
  proof (cases "s < length st")
    case True
    have get: "GetLog (Index e) st = Some (Inr (st ! s))" unfolding ix by (rule rooted_get [OF r(1) True])
    show ?thesis
    proof (cases "Term (st ! s) = Term e")
      case same: True
      have "take (Suc s) st = take (Suc s) l" using agrees_match [OF st l True s] same e(1) by simp
      moreover have "append_loop es (int (length st) - 1) st = Some st'" using Cons.prems(4) get same ix True by simp
      ultimately show ?thesis using Cons.IH [OF e(2)] True by simp
    next
      case False
      have "k \<le> s"
      proof (rule ccontr)
        assume "\<not> k \<le> s"
        then have "st ! s = l ! s" using arg_cong [OF same(1), of "\<lambda>x. x ! s"] by simp
        then show False using False e(1) by simp
      qed
      moreover have "st' = StoreLogs (e # es) (DeleteRange (int s) (int (length st) - 1) st)"
        using Cons.prems(4) get False ix True by simp
      ultimately show ?thesis
        using rest Cons.prems(3) by (intro replaced) (simp_all add: rooted_cut [OF r(1) True] StoreLogs_def)
    qed
  next
    case False
    then have "st = take s l" "k \<le> s" using Cons.prems(2,3) same(2) by simp_all
    moreover have "st' = StoreLogs (e # es) st" using Cons.prems(4) False ix by simp
    ultimately show ?thesis using rest by (intro replaced) (simp_all add: StoreLogs_def)
  qed
qed

text \<open>The number of entries of the leader's log that a message covers.\<close>

definition covers :: "AppendEntriesArgs \<Rightarrow> nat" where
  "covers args = Suc (nat (aPrevLogIndex args)) + length (aEntries args)"

lemma covers_le:
  assumes "msg_ok b args"
  shows "covers args \<le> length (llog b (aTerm args))"
proof -
  let ?l = "llog b (aTerm args)" and ?k = "nat (aPrevLogIndex args)"
  have k: "?k < length ?l" "aEntries args = take (length (aEntries args)) (drop (Suc ?k) ?l)"
    using assms by (simp_all add: msg_ok_def Let_def)
  have "length (aEntries args) \<le> length (drop (Suc ?k) ?l)" using arg_cong [OF k(2), of length] by simp
  then show ?thesis using k(1) by (simp add: covers_def)
qed

lemma message_installs:
  assumes st: "agrees b st" and l: "agrees b (llog b (aTerm args))" and m: "msg_ok b args"
    and n: "LastIndex st = Some n" "aPrevLogIndex args \<le> n" "prev_mismatch args st = Some False"
      "append_loop (aEntries args) n st = Some st'"
  shows "covers args \<le> length st' \<and> take (covers args) st' = take (covers args) (llog b (aTerm args)) \<and>
    (\<forall>k \<le> length st. take k st = take k (llog b (aTerm args)) \<longrightarrow> k \<le> length st' \<and> take k st' = take k (llog b (aTerm args)))"
proof -
  let ?l = "llog b (aTerm args)" and ?k = "nat (aPrevLogIndex args)"
  have r: "rooted st" using st by (simp add: agrees_def)
  have len: "n = int (length st) - 1" using rooted_last [OF r] n(1) by simp
  have k: "?k < length ?l" "aPrevLogTerm args = Term (?l ! ?k)" "int ?k = aPrevLogIndex args"
    "aEntries args = take (length (aEntries args)) (drop (Suc ?k) ?l)" using m by (simp_all add: msg_ok_def Let_def)
  have ks: "?k < length st" using n(2) k(3) len by linarith
  have "Term (st ! ?k) = Term (?l ! ?k)" using n(3) rooted_get [OF r ks] k(2,3) by (simp add: prev_mismatch_def)
  then have t: "take (Suc ?k) st = take (Suc ?k) ?l" by (rule agrees_match [OF st l ks k(1)])
  have s: "Suc ?k \<le> length st" using ks by simp
  note keeps = append_loop_keeps [OF st l _ _ k(4) s t n(4) [unfolded len]]
  show ?thesis using keeps keeps [OF t s] by (auto simp: covers_def)
qed

section \<open>Chosen and blocked\<close>

text \<open>\<open>acc (p, t)\<close>: how many entries of the log of the leader of term \<open>t\<close> node \<open>p\<close> has accepted while in that
  term. A proposal is an entry that this leader has itself added.\<close>

type_synonym acceptance = "node_id \<times> int \<Rightarrow> nat"

definition proposal :: "book \<Rightarrow> int \<Rightarrow> nat \<Rightarrow> bool" where
  "proposal b t n \<longleftrightarrow> lead b t \<noteq> None \<and> n < length (llog b t) \<and> Term (llog b t ! n) = t"

definition holds :: "book \<Rightarrow> int \<Rightarrow> nat \<Rightarrow> LogEntry list \<Rightarrow> bool" where
  "holds b t n l \<longleftrightarrow> take (Suc n) l = take (Suc n) (llog b t)"

definition chosen :: "node_id list \<Rightarrow> book \<Rightarrow> acceptance \<Rightarrow> int \<Rightarrow> nat \<Rightarrow> bool" where
  "chosen ids b acc t n \<longleftrightarrow> proposal b t n \<and> length ids div 2 < card {p \<in> set ids. n < acc (p, t)}"

text \<open>A majority has left the term without accepting the entry, and will not accept it any more.\<close>

definition blocked :: "node_id list \<Rightarrow> cluster \<Rightarrow> acceptance \<Rightarrow> int \<Rightarrow> nat \<Rightarrow> bool" where
  "blocked ids c acc t n \<longleftrightarrow> (\<exists>Q \<subseteq> set ids. length ids div 2 < card Q \<and>
     (\<forall>p \<in> Q. t < currentTerm (nodes c p) \<and> acc (p, t) \<le> n))"

definition settled :: "node_id list \<Rightarrow> cluster \<Rightarrow> book \<Rightarrow> acceptance \<Rightarrow> int \<Rightarrow> nat \<Rightarrow> LogEntry list \<Rightarrow> bool" where
  "settled ids c b acc t n l \<longleftrightarrow> holds b t n l \<or> blocked ids c acc t n"

lemma chosen_not_blocked:
  assumes "distinct ids" and "chosen ids b acc t n"
  shows "\<not> blocked ids c acc t n"
proof
  assume "blocked ids c acc t n"
  then obtain Q where Q: "Q \<subseteq> set ids" "length ids div 2 < card Q" "\<forall>p \<in> Q. acc (p, t) \<le> n" by (auto simp: blocked_def)
  have "{p \<in> set ids. n < acc (p, t)} \<subseteq> set ids" "length ids div 2 < card {p \<in> set ids. n < acc (p, t)}"
    using assms(2) by (auto simp: chosen_def)
  from majorities_meet [OF assms(1) this(1) Q(1) this(2) Q(2)] show False using Q(3) by force
qed

lemma chosen_settled: "distinct ids \<Longrightarrow> chosen ids b acc t n \<Longrightarrow> settled ids c b acc t n l \<Longrightarrow> holds b t n l"
  using chosen_not_blocked by (auto simp: settled_def)

lemma take_same_length: "take k l = take k m \<Longrightarrow> k \<le> length m \<Longrightarrow> k \<le> length l"
  by (metis length_take min.absorb2 min.cobounded1)

lemma holds_length: "proposal b t n \<Longrightarrow> holds b t n l \<Longrightarrow> n < length l"
  using take_same_length [of "Suc n" l "llog b t"] by (simp add: holds_def proposal_def)

lemma holds_nth: "proposal b t n \<Longrightarrow> holds b t n l \<Longrightarrow> l ! n = llog b t ! n"
  unfolding holds_def by (metis lessI nth_take)

text \<open>The entries up to index \<open>k\<close> are the beginning of a chosen one's log, of a term up to \<open>T\<close>. Index 0 holds the
  entry every store is made with.\<close>

definition committed_upto :: "node_id list \<Rightarrow> book \<Rightarrow> acceptance \<Rightarrow> int \<Rightarrow> nat \<Rightarrow> LogEntry list \<Rightarrow> bool" where
  "committed_upto ids b acc T k l \<longleftrightarrow> k = 0 \<or>
     (\<exists>t m. chosen ids b acc t m \<and> t \<le> T \<and> k \<le> m \<and> take (Suc k) l = take (Suc k) (llog b t))"

lemma committed_upto_le:
  assumes "committed_upto ids b acc T n l" and "k \<le> n" and "T \<le> T'"
  shows "committed_upto ids b acc T' k l"
proof (cases "n = 0")
  case False
  then obtain t m where "chosen ids b acc t m" "t \<le> T" "n \<le> m" "take (Suc n) l = take (Suc n) (llog b t)"
    using assms(1) by (auto simp: committed_upto_def)
  moreover have "take (Suc k) x = take (Suc k) (take (Suc n) x)" for x :: "LogEntry list" using assms(2) by (simp add: min_def)
  ultimately show ?thesis using assms(2,3) unfolding committed_upto_def by (metis order_trans)
qed (use assms(2) in \<open>simp add: committed_upto_def\<close>)

lemma committed_upto_cong:
  "committed_upto ids b acc T k l \<Longrightarrow> take (Suc k) l' = take (Suc k) l \<Longrightarrow> committed_upto ids b acc T k l'"
  by (simp add: committed_upto_def)

section \<open>Later\<close>

text \<open>Terms rise, the leaders' logs grow, and a node accepts nothing more in a term it has left.\<close>

definition later :: "cluster \<Rightarrow> book \<Rightarrow> acceptance \<Rightarrow> cluster \<Rightarrow> book \<Rightarrow> acceptance \<Rightarrow> bool" where
  "later c b acc c' b' acc' \<longleftrightarrow> (\<forall>p. currentTerm (nodes c p) \<le> currentTerm (nodes c' p)) \<and>
     (\<forall>t. \<exists>m. llog b' t = llog b t @ m) \<and> (\<forall>t. lead b t \<noteq> None \<longrightarrow> lead b' t = lead b t) \<and>
     (\<forall>p t. acc (p, t) \<le> acc' (p, t) \<and> (t < currentTerm (nodes c p) \<longrightarrow> acc' (p, t) = acc (p, t)))"

lemma later_blocked:
  assumes "later c b acc c' b' acc'" and "blocked ids c acc t n"
  shows "blocked ids c' acc' t n"
proof -
  obtain Q where Q: "Q \<subseteq> set ids" "length ids div 2 < card Q" "\<forall>p \<in> Q. t < currentTerm (nodes c p) \<and> acc (p, t) \<le> n"
    using assms(2) by (auto simp: blocked_def)
  have "t < currentTerm (nodes c' p) \<and> acc' (p, t) \<le> n" if "p \<in> Q" for p
    using Q(3) that assms(1) by (auto simp: later_def intro: less_le_trans)
  then show ?thesis using Q(1,2) unfolding blocked_def by blast
qed

lemma later_take:
  assumes "later c b acc c' b' acc'" and "k \<le> length (llog b t)"
  shows "take k (llog b' t) = take k (llog b t)"
proof -
  obtain m where "llog b' t = llog b t @ m" using assms(1) unfolding later_def by blast
  then show ?thesis using assms(2) by simp
qed

lemma later_proposal: "later c b acc c' b' acc' \<Longrightarrow> proposal b t n \<Longrightarrow> proposal b' t n"
proof -
  assume l: "later c b acc c' b' acc'" and p: "proposal b t n"
  obtain m where "llog b' t = llog b t @ m" using l unfolding later_def by blast
  then show "proposal b' t n" using l p by (auto simp: later_def proposal_def nth_append)
qed

lemma later_holds: "later c b acc c' b' acc' \<Longrightarrow> proposal b t n \<Longrightarrow> holds b' t n l \<longleftrightarrow> holds b t n l"
  using later_take [of c b acc c' b' acc' "Suc n" t] by (simp add: holds_def proposal_def)

lemma later_settled: "later c b acc c' b' acc' \<Longrightarrow> proposal b t n \<Longrightarrow> settled ids c b acc t n l \<Longrightarrow> settled ids c' b' acc' t n l"
  using later_holds later_blocked unfolding settled_def by blast

lemma later_chosen:
  assumes "later c b acc c' b' acc'" and "chosen ids b acc t n"
  shows "chosen ids b' acc' t n"
proof -
  have "n < acc (p, t) \<Longrightarrow> n < acc' (p, t)" for p using assms(1) by (auto simp: later_def intro: less_le_trans)
  then have "card {p \<in> set ids. n < acc (p, t)} \<le> card {p \<in> set ids. n < acc' (p, t)}" by (intro card_mono) auto
  then show ?thesis using assms later_proposal by (auto simp: chosen_def)
qed

lemma later_committed:
  assumes "later c b acc c' b' acc'" and "committed_upto ids b acc T k l"
  shows "committed_upto ids b' acc' T k l"
proof (cases "k = 0")
  case False
  then obtain t m where w: "chosen ids b acc t m" "t \<le> T" "k \<le> m" "take (Suc k) l = take (Suc k) (llog b t)"
    using assms(2) by (auto simp: committed_upto_def)
  then have "take (Suc k) (llog b' t) = take (Suc k) (llog b t)"
    by (intro later_take [OF assms(1)]) (auto simp: chosen_def proposal_def)
  then show ?thesis using w later_chosen [OF assms(1)] unfolding committed_upto_def by metis
qed (simp add: committed_upto_def)

section \<open>The invariant\<close>

text \<open>Terms do not fall along a log.\<close>

definition log_terms_ok :: "cluster \<Rightarrow> book \<Rightarrow> bool" where
  "log_terms_ok c b \<longleftrightarrow> (\<forall>u. sorted (map Term (llog b u)) \<and> (\<forall>e \<in> set (llog b u). Term e \<le> u)) \<and>
     (\<forall>i. \<forall>e \<in> set (logStore (nodes c i)). Term e \<le> currentTerm (nodes c i))"

definition accept_ok :: "cluster \<Rightarrow> book \<Rightarrow> acceptance \<Rightarrow> bool" where
  "accept_ok c b acc \<longleftrightarrow> (\<forall>p t. 0 < acc (p, t) \<longrightarrow>
     lead b t \<noteq> None \<and> t \<le> currentTerm (nodes c p) \<and> acc (p, t) \<le> length (llog b t))"

text \<open>What a node has accepted it still has, or it cannot be chosen any more. What a leader before proposed a
  later leader has, or it cannot be chosen any more.\<close>

definition kept :: "node_id list \<Rightarrow> cluster \<Rightarrow> book \<Rightarrow> acceptance \<Rightarrow> bool" where
  "kept ids c b acc \<longleftrightarrow> (\<forall>p t n. proposal b t n \<longrightarrow> n < acc (p, t) \<longrightarrow> settled ids c b acc t n (logStore (nodes c p)))"

definition inherited :: "node_id list \<Rightarrow> cluster \<Rightarrow> book \<Rightarrow> acceptance \<Rightarrow> bool" where
  "inherited ids c b acc \<longleftrightarrow> (\<forall>u t n. lead b u \<noteq> None \<longrightarrow> t < u \<longrightarrow> proposal b t n \<longrightarrow> settled ids c b acc t n (llog b u))"

text \<open>A candidate has what its voters have accepted.\<close>

definition backed :: "node_id list \<Rightarrow> cluster \<Rightarrow> history \<Rightarrow> book \<Rightarrow> acceptance \<Rightarrow> bool" where
  "backed ids c h b acc \<longleftrightarrow> (\<forall>p u i. (p, u, i) \<in> granted h \<longrightarrow> u \<le> currentTerm (nodes c i) \<and>
     (lead b u = None \<longrightarrow> currentTerm (nodes c i) = u \<longrightarrow>
       (\<forall>t n. proposal b t n \<longrightarrow> t < u \<longrightarrow> n < acc (p, t) \<longrightarrow> settled ids c b acc t n (logStore (nodes c i)))))"

definition calls_ok :: "cluster \<Rightarrow> book \<Rightarrow> bool" where
  "calls_ok c b \<longleftrightarrow> (\<forall>p args. (p, args) \<in> set (asked c) \<longrightarrow> lead b (vTerm args) = None \<longrightarrow>
     currentTerm (nodes c (vCandidateID args)) = vTerm args \<longrightarrow>
     (let e = last (logStore (nodes c (vCandidateID args))) in vLastLogTerm args = Term e \<and> vLastLogIndex args = Index e))"

definition commit_ok :: "node_id list \<Rightarrow> book \<Rightarrow> acceptance \<Rightarrow> Raft \<Rightarrow> bool" where
  "commit_ok ids b acc rf \<longleftrightarrow> applied_ok rf \<and>
     committed_upto ids b acc (currentTerm rf) (nat (commitIndex rf)) (logStore rf)"

definition match_ok :: "node_id list \<Rightarrow> acceptance \<Rightarrow> node_id \<Rightarrow> Raft \<Rightarrow> bool" where
  "match_ok ids acc i rf \<longleftrightarrow> (state rf = Leader \<longrightarrow> i \<in> set ids \<and> acc (i, currentTerm rf) = length (logStore rf) \<and>
     (\<forall>p \<in> set ids. p \<noteq> i \<longrightarrow> matchIndex rf p \<le> 0 \<or> nat (matchIndex rf p) < acc (p, currentTerm rf)))"

definition sends_ok :: "node_id list \<Rightarrow> cluster \<Rightarrow> book \<Rightarrow> acceptance \<Rightarrow> bool" where
  "sends_ok ids c b acc \<longleftrightarrow> (\<forall>p args. (p, args) \<in> set (appends c) \<longrightarrow>
     aLeaderCommit args < int (covers args) \<and>
     committed_upto ids b acc (aTerm args) (nat (aLeaderCommit args)) (llog b (aTerm args)))"

definition answers_ok :: "cluster \<Rightarrow> acceptance \<Rightarrow> bool" where
  "answers_ok c acc \<longleftrightarrow> (\<forall>p args reply. (p, args, reply) \<in> set (acks c) \<longrightarrow> eSuccess reply \<longrightarrow>
     covers args \<le> acc (p, aTerm args))"

definition safe_inv :: "node_id list \<Rightarrow> cluster \<Rightarrow> history \<Rightarrow> book \<Rightarrow> acceptance \<Rightarrow> bool" where
  "safe_inv ids c h b acc \<longleftrightarrow> log_terms_ok c b \<and> accept_ok c b acc \<and> kept ids c b acc \<and> inherited ids c b acc \<and>
     backed ids c h b acc \<and> calls_ok c b \<and> sends_ok ids c b acc \<and> answers_ok c acc \<and>
     (\<forall>i. commit_ok ids b acc (nodes c i) \<and> match_ok ids acc i (nodes c i))"

lemmas safe_inv_defs = safe_inv_def log_terms_ok_def accept_ok_def kept_def inherited_def backed_def calls_ok_def sends_ok_def
  answers_ok_def

lemma safe_inv_init: "safe_inv ids (cluster_init ids) no_history empty_book (\<lambda>_. 0)"
  by (simp add: safe_inv_defs cluster_init_def NewRaft_def empty_book_def no_history_def NewMemoryLogStore_def
      commit_ok_def applied_ok_def committed_upto_def match_ok_def proposal_def)

end
