(* ===== verification/RaftSafety.thy ===== *)
theory RaftSafety
  imports RaftChosen
begin

text \<open>
  The safety of a cluster in which a vote is given only to a candidate whose log is as up to date as the
  voter's, the comparison that \<open>RequestVote\<close> leaves as a TODO: with it, and without restarts and compactions,
  what was chosen stays in the logs of all later leaders, and the nodes apply one sequence of commands.
\<close>

section \<open>A step of one node\<close>

lemma match_ok_grows:
  assumes "match_ok ids acc i rf" and "\<And>p t. acc (p, t) \<le> acc' (p, t)" and "\<And>t. acc' (i, t) = acc (i, t)"
  shows "match_ok ids acc' i rf"
  unfolding match_ok_def
proof (intro impI conjI ballI)
  assume l: "state rf = Leader"
  show "i \<in> set ids" "acc' (i, currentTerm rf) = length (logStore rf)" using assms(1,3) l by (simp_all add: match_ok_def)
  fix p assume "p \<in> set ids" "p \<noteq> i"
  then have "matchIndex rf p \<le> 0 \<or> nat (matchIndex rf p) < acc (p, currentTerm rf)" using assms(1) l by (simp add: match_ok_def)
  then show "matchIndex rf p \<le> 0 \<or> nat (matchIndex rf p) < acc' (p, currentTerm rf)"
    using assms(2) [of p "currentTerm rf"] by linarith
qed

lemma safe_inv_node:
  assumes inv: "safe_inv ids c h b acc" and v: "votes_inv ids c h" and d: "nodes d = (nodes c)(i := rf)"
    and tm: "currentTerm (nodes c i) \<le> currentTerm rf"
    and log: "logStore rf = logStore (nodes c i) \<or> lead b (currentTerm rf) \<noteq> None"
    and low: "\<forall>e \<in> set (logStore rf). Term e \<le> currentTerm rf"
    and acc: "acc' = acc \<or> (\<exists>u k. acc' = acc((i, u) := k) \<and> acc (i, u) \<le> k \<and> currentTerm (nodes c i) \<le> u \<and>
      u \<le> currentTerm rf \<and> lead b u \<noteq> None \<and> k \<le> length (llog b u))"
    and keep: "\<And>t n. proposal b t n \<Longrightarrow> n < acc' (i, t) \<Longrightarrow> settled ids d b acc' t n (logStore rf)"
    and com: "commit_ok ids b acc' rf" and mat: "match_ok ids acc' i rf"
    and gr: "\<And>p u j. (p, u, j) \<in> granted h' \<Longrightarrow> (p, u, j) \<in> granted h \<or> u \<le> currentTerm (nodes d j) \<and>
      (lead b u = None \<longrightarrow> currentTerm (nodes d j) = u \<longrightarrow> (\<forall>t n. proposal b t n \<longrightarrow> t < u \<longrightarrow> n < acc' (p, t) \<longrightarrow>
        settled ids d b acc' t n (logStore (nodes d j))))"
    and ask: "\<And>p args. (p, args) \<in> set (asked d) \<Longrightarrow> (p, args) \<in> set (asked c) \<or> (let e = last (logStore (nodes d (vCandidateID args))) in
      vLastLogTerm args = Term e \<and> vLastLogIndex args = Index e)"
    and snd: "\<And>p args. (p, args) \<in> set (appends d) \<Longrightarrow> (p, args) \<in> set (appends c) \<or>
      aLeaderCommit args < int (covers args) \<and> committed_upto ids b acc (aTerm args) (nat (aLeaderCommit args)) (llog b (aTerm args))"
    and ans: "\<And>p args reply. (p, args, reply) \<in> set (acks d) \<Longrightarrow> (p, args, reply) \<in> set (acks c) \<or>
      (eSuccess reply \<longrightarrow> covers args \<le> acc' (p, aTerm args))"
  shows "safe_inv ids d h' b acc'"
proof -
  have grow: "acc (p, t) \<le> acc' (p, t)" "t < currentTerm (nodes c p) \<Longrightarrow> acc' (p, t) = acc (p, t)"
    "p \<noteq> i \<Longrightarrow> acc' (p, t) = acc (p, t)" for p t
    using acc by (auto simp: fun_upd_apply)
  have L: "later c b acc d b acc'" using grow tm by (auto simp: later_def d)
  note S = later_settled [OF L] and C = later_committed [OF L]
  have "log_terms_ok d b" using inv low by (auto simp: safe_inv_def log_terms_ok_def d)
  moreover have "accept_ok d b acc'"
    unfolding accept_ok_def
  proof (intro allI impI)
    fix p t assume a: "0 < acc' (p, t)"
    show "lead b t \<noteq> None \<and> t \<le> currentTerm (nodes d p) \<and> acc' (p, t) \<le> length (llog b t)"
    proof (cases "acc' (p, t) = acc (p, t)")
      case True
      then have "lead b t \<noteq> None \<and> t \<le> currentTerm (nodes c p) \<and> acc (p, t) \<le> length (llog b t)"
        using a inv by (simp add: safe_inv_def accept_ok_def)
      then show ?thesis using True tm by (auto simp: d)
    next
      case False
      then show ?thesis using acc by (auto simp: d fun_upd_apply split: if_splits)
    qed
  qed
  moreover have "kept ids d b acc'"
    unfolding kept_def
  proof (intro allI impI)
    fix p t n assume a: "proposal b t n" "n < acc' (p, t)"
    show "settled ids d b acc' t n (logStore (nodes d p))"
    proof (cases "p = i")
      case False
      then have "settled ids c b acc t n (logStore (nodes c p))" using a inv grow(3) by (simp add: safe_inv_def kept_def)
      then show ?thesis using S [OF a(1)] False by (simp add: d)
    qed (use keep a in \<open>simp add: d\<close>)
  qed
  moreover have "inherited ids d b acc'" using inv S unfolding safe_inv_def inherited_def by blast
  moreover have "backed ids d h' b acc'"
    unfolding backed_def
  proof (intro allI impI conjI)
    fix p u j assume g: "(p, u, j) \<in> granted h'"
    have old: "u \<le> currentTerm (nodes c j)" if "(p, u, j) \<in> granted h" using inv that unfolding safe_inv_def backed_def by blast
    have "currentTerm (nodes c j) \<le> currentTerm (nodes d j)" using tm by (simp add: d)
    then show le: "u \<le> currentTerm (nodes d j)" using gr [OF g] old by force
    fix t n assume a: "lead b u = None" "currentTerm (nodes d j) = u" "proposal b t n" "t < u" "n < acc' (p, t)"
    show "settled ids d b acc' t n (logStore (nodes d j))"
    proof (cases "(p, u, j) \<in> granted h")
      case True
      have "u \<le> currentTerm (nodes c p)" by (rule granted_ok(2) [OF v True])
      then have n: "n < acc (p, t)" using a(4,5) grow(2) [of t p] by simp
      have t: "currentTerm (nodes c j) = u" using old [OF True] a(2) tm by (cases "j = i") (simp_all add: d)
      have "settled ids c b acc t n (logStore (nodes c j))"
        using inv True a(1,3,4) n t unfolding safe_inv_def backed_def by blast
      moreover have "logStore (nodes d j) = logStore (nodes c j)" using log a(1,2) by (cases "j = i") (simp_all add: d)
      ultimately show ?thesis using S [OF a(3)] by simp
    qed (use gr [OF g] a in blast)
  qed
  moreover have "calls_ok d b"
    unfolding calls_ok_def
  proof (intro allI impI)
    fix p args assume a: "(p, args) \<in> set (asked d)" "lead b (vTerm args) = None" "currentTerm (nodes d (vCandidateID args)) = vTerm args"
    let ?j = "vCandidateID args"
    show "let e = last (logStore (nodes d ?j)) in vLastLogTerm args = Term e \<and> vLastLogIndex args = Index e"
    proof (cases "(p, args) \<in> set (asked c)")
      case True
      then have "(p, vTerm args, ?j) \<in> set (pending c)" by (force simp: pending_def)
      then have "vTerm args \<le> currentTerm (nodes c ?j)" by (rule pending_facts(4) [OF v])
      then have "currentTerm (nodes c ?j) = vTerm args" using a(3) tm by (cases "?j = i") (simp_all add: d)
      moreover have "logStore (nodes d ?j) = logStore (nodes c ?j)" using log a(2,3) by (cases "?j = i") (simp_all add: d)
      ultimately show ?thesis using inv True a(2) unfolding safe_inv_def calls_ok_def by simp
    qed (use ask [OF a(1)] in blast)
  qed
  moreover have "sends_ok ids d b acc'"
    using inv snd C unfolding safe_inv_def sends_ok_def by blast
  moreover have "answers_ok d acc'"
    using inv ans grow(1) le_trans unfolding safe_inv_def answers_ok_def by blast
  moreover have "commit_ok ids b acc' (nodes d j) \<and> match_ok ids acc' j (nodes d j)" for j
  proof (cases "j = i")
    case False
    have "commit_ok ids b acc (nodes c j)" "match_ok ids acc j (nodes c j)" using inv by (simp_all add: safe_inv_def)
    then show ?thesis using C match_ok_grows [of ids acc j "nodes c j" acc'] grow(1,3) False by (simp add: d commit_ok_def)
  qed (use com mat in \<open>simp add: d\<close>)
  ultimately show ?thesis by (simp add: safe_inv_def)
qed

text \<open>A step that leaves the log alone.\<close>

lemma later_term:
  assumes "nodes d = (nodes c)(i := rf)" and "currentTerm (nodes c i) \<le> currentTerm rf"
  shows "later c b acc d b acc"
  using assms by (auto simp: later_def)

lemma safe_inv_same_log:
  assumes inv: "safe_inv ids c h b acc" and v: "votes_inv ids c h" and d: "nodes d = (nodes c)(i := rf)"
    and tm: "currentTerm (nodes c i) \<le> currentTerm rf" and log: "logStore rf = logStore (nodes c i)"
    and com: "commit_ok ids b acc rf" and mat: "match_ok ids acc i rf"
    and gr: "\<And>p u j. (p, u, j) \<in> granted h' \<Longrightarrow> (p, u, j) \<in> granted h \<or> u \<le> currentTerm (nodes d j) \<and>
      (lead b u = None \<longrightarrow> currentTerm (nodes d j) = u \<longrightarrow> (\<forall>t n. proposal b t n \<longrightarrow> t < u \<longrightarrow> n < acc (p, t) \<longrightarrow>
        settled ids c b acc t n (logStore (nodes c j))))"
    and ask: "\<And>p args. (p, args) \<in> set (asked d) \<Longrightarrow> (p, args) \<in> set (asked c) \<or> (let e = last (logStore (nodes c (vCandidateID args))) in
      vLastLogTerm args = Term e \<and> vLastLogIndex args = Index e)"
    and snd: "\<And>p args. (p, args) \<in> set (appends d) \<Longrightarrow> (p, args) \<in> set (appends c) \<or>
      aLeaderCommit args < int (covers args) \<and> committed_upto ids b acc (aTerm args) (nat (aLeaderCommit args)) (llog b (aTerm args))"
    and ans: "\<And>p args reply. (p, args, reply) \<in> set (acks d) \<Longrightarrow> (p, args, reply) \<in> set (acks c) \<or> \<not> eSuccess reply"
  shows "safe_inv ids d h' b acc"
proof (rule safe_inv_node [OF inv v d tm _ _ _ _ com mat])
  have same: "logStore (nodes d j) = logStore (nodes c j)" for j using log by (simp add: d)
  note S = later_settled [OF later_term [OF d tm]]
  show "settled ids d b acc t n (logStore rf)" if "proposal b t n" "n < acc (i, t)" for t n
    using S [OF that(1)] inv that unfolding safe_inv_def kept_def log by blast
  show "(p, u, j) \<in> granted h \<or> u \<le> currentTerm (nodes d j) \<and>
      (lead b u = None \<longrightarrow> currentTerm (nodes d j) = u \<longrightarrow> (\<forall>t n. proposal b t n \<longrightarrow> t < u \<longrightarrow> n < acc (p, t) \<longrightarrow>
        settled ids d b acc t n (logStore (nodes d j))))" if "(p, u, j) \<in> granted h'" for p u j
    using gr [OF that] S unfolding same by blast
  show "(p, args) \<in> set (asked c) \<or> (let e = last (logStore (nodes d (vCandidateID args))) in
      vLastLogTerm args = Term e \<and> vLastLogIndex args = Index e)" if "(p, args) \<in> set (asked d)" for p args
    using ask [OF that] unfolding same by blast
  show "\<forall>e \<in> set (logStore rf). Term e \<le> currentTerm rf"
    using inv tm unfolding log safe_inv_def log_terms_ok_def by (meson order_trans)
  show "(p, args, reply) \<in> set (acks c) \<or> (eSuccess reply \<longrightarrow> covers args \<le> acc (p, aTerm args))"
    if "(p, args, reply) \<in> set (acks d)" for p args reply using ans [OF that] by blast
qed (use log snd in auto)

lemma commit_ok_same:
  assumes "commit_ok ids b acc rf" and "currentTerm rf \<le> currentTerm rf'" and "logStore rf' = logStore rf"
    and "commitIndex rf' = commitIndex rf" and "lastApplied rf' = lastApplied rf" and "applied rf' = applied rf"
  shows "commit_ok ids b acc rf'"
proof -
  have "committed_upto ids b acc (currentTerm rf) (nat (commitIndex rf)) (logStore rf)" using assms(1) by (simp add: commit_ok_def)
  from committed_upto_le [OF this order_refl assms(2)] assms show ?thesis by (simp add: commit_ok_def applied_ok_def)
qed

section \<open>Logs along their terms\<close>

lemma agrees_whole:
  assumes "agrees b l"
  shows "l = take (length l) (llog b (Term (last l)))" and "length l \<le> length (llog b (Term (last l)))" and "l \<noteq> []"
    and "Index (last l) = int (length l) - 1"
proof -
  show ne: "l \<noteq> []" using assms by (auto simp: agrees_def rooted_def log_good_def)
  define k where "k = length l - 1"
  have k: "k < length l" "Suc k = length l" "last l = l ! k" using ne by (simp_all add: k_def last_conv_nth)
  show eq: "l = take (length l) (llog b (Term (last l)))" using assms k by (metis agrees_def take_all order_refl)
  then show "length l \<le> length (llog b (Term (last l)))" by (metis length_take min.cobounded1)
  have "rooted l" using assms by (simp add: agrees_def)
  from rooted_nth [OF this k(1)] k(2,3) show "Index (last l) = int (length l) - 1" by simp
qed

lemma agrees_sorted:
  assumes "agrees b l" and "log_terms_ok c b"
  shows "sorted (map Term l)"
proof -
  have "sorted (map Term (llog b (Term (last l))))" using assms(2) by (simp add: log_terms_ok_def)
  then have "sorted (take (length l) (map Term (llog b (Term (last l)))))" by (rule sorted_wrt_take)
  then show ?thesis using agrees_whole(1) [OF assms(1)] by (metis take_map)
qed

lemma sorted_nth_last: "sorted (map Term l) \<Longrightarrow> n < length l \<Longrightarrow> Term (l ! n) \<le> Term (last l)"
  using sorted_nth_mono [of "map Term l" n "length l - 1"] by (cases "l = []") (simp_all add: last_conv_nth)

section \<open>A vote\<close>

text \<open>The comparison of the logs: the later last term, or the same and the longer log.\<close>

definition up_to_date :: "RequestVoteArgs \<Rightarrow> LogEntry list \<Rightarrow> bool" where
  "up_to_date args l \<longleftrightarrow> Term (last l) < vLastLogTerm args \<or> Term (last l) = vLastLogTerm args \<and> Index (last l) \<le> vLastLogIndex args"

text \<open>What the voter has accepted, a candidate that is up to date has.\<close>

lemma vote_settled:
  assumes inv: "safe_inv ids c h b acc" and logs: "logs_inv ids c h b" and p: "proposal b t n" "n < acc (p, t)"
    and up: "up_to_date args (logStore (nodes c p))"
    and call: "let e = last (logStore (nodes c i)) in vLastLogTerm args = Term e \<and> vLastLogIndex args = Index e"
  shows "settled ids c b acc t n (logStore (nodes c i))"
proof -
  let ?p = "logStore (nodes c p)" and ?i = "logStore (nodes c i)"
  let ?t = "Term (last ?i)"
  have ag: "agrees b (logStore (nodes c j))" for j using logs by (simp add: logs_inv_def node_ok_def)
  have S: "log_terms_ok c b" using inv by (simp add: safe_inv_def)
  have T: "\<And>u i. lead b u = Some i \<Longrightarrow> 0 < u" "\<And>u. lead b u = None \<Longrightarrow> u \<noteq> 0 \<Longrightarrow> llog b u = []"
    using logs by (simp_all add: logs_inv_def terms_ok_def)
  consider "blocked ids c acc t n" | "holds b t n ?p" using inv p by (auto simp: safe_inv_def kept_def settled_def)
  then show ?thesis
  proof cases
    case 2
    have n: "n < length ?p" "Term (?p ! n) = t"
      using holds_length [OF p(1) 2] holds_nth [OF p(1) 2] p(1) by (simp_all add: proposal_def)
    have last: "t \<le> Term (last ?p)" using sorted_nth_last [OF agrees_sorted [OF ag S] n(1)] n(2) by simp
    have up': "Term (last ?p) < ?t \<or> Term (last ?p) = ?t \<and> length ?p \<le> length ?i"
      using up call agrees_whole(4) [OF ag, of p] agrees_whole(4) [OF ag, of i] by (auto simp: up_to_date_def Let_def)
    then have tt: "t \<le> ?t" using last by linarith
    note W = agrees_whole [OF ag, of i]
    show ?thesis
    proof (cases "?t = t")
      case True
      then have "n < length ?i" using up' last n(1) by linarith
      moreover have "take (Suc n) ?i = take (Suc n) (take (length ?i) (llog b t))" using W(1) True by metis
      ultimately have "holds b t n ?i" by (simp add: holds_def min_def)
      then show ?thesis by (simp add: settled_def)
    next
      case False
      obtain j where "lead b t = Some j" using p(1) by (auto simp: proposal_def)
      then have "0 < ?t" using T(1) tt by force
      moreover have "llog b ?t \<noteq> []" using W(2,3) by auto
      ultimately have "lead b ?t \<noteq> None" using T(2) by (metis less_irrefl)
      then have "settled ids c b acc t n (llog b ?t)" using inv p(1) tt False by (auto simp: safe_inv_def inherited_def)
      then consider "blocked ids c acc t n" | "holds b t n (llog b ?t)" by (auto simp: settled_def)
      then show ?thesis
      proof cases
        case holds: 2
        have m: "n < length (llog b ?t)" "Term (llog b ?t ! n) = t"
          using holds_length [OF p(1) holds] holds_nth [OF p(1) holds] p(1) by (simp_all add: proposal_def)
        have "n < length ?i"
        proof (rule ccontr)
          assume "\<not> n < length ?i"
          then have k: "length ?i - 1 \<le> n" "length ?i - 1 < length ?i" using W(3) by (auto simp: Suc_le_eq)
          have "sorted (map Term (llog b ?t))" using S by (simp add: log_terms_ok_def)
          then have "Term (llog b ?t ! (length ?i - 1)) \<le> t"
            using sorted_nth_mono [of "map Term (llog b ?t)" "length ?i - 1" n] k(1) m by simp
          moreover have "llog b ?t ! (length ?i - 1) = last ?i"
            using W(1,3) k(2) by (metis last_conv_nth nth_take)
          ultimately show False using tt False by simp
        qed
        moreover have "take (Suc n) ?i = take (Suc n) (take (length ?i) (llog b ?t))" using W(1) by metis
        ultimately have "take (Suc n) ?i = take (Suc n) (llog b ?t)" by (simp add: min_def)
        then show ?thesis using holds by (simp add: settled_def holds_def)
      qed (simp add: settled_def)
    qed
  qed (simp add: settled_def)
qed

section \<open>A message\<close>

lemma match_ok_same:
  assumes "match_ok ids acc i rf" and "state rf' = Leader \<Longrightarrow> state rf = Leader"
    and "state rf' = Leader \<Longrightarrow> currentTerm rf' = currentTerm rf"
    and "logStore rf' = logStore rf" and "matchIndex rf' = matchIndex rf"
  shows "match_ok ids acc i rf'"
  using assms by (simp add: match_ok_def)

lemma heard_same:
  assumes "currentTerm rf \<le> aTerm args"
  shows "logStore (heard args rf) = logStore rf" "currentTerm (heard args rf) = aTerm args" "commitIndex (heard args rf) = commitIndex rf"
    "lastApplied (heard args rf) = lastApplied rf" "applied (heard args rf) = applied rf" "matchIndex (heard args rf) = matchIndex rf"
    "state (heard args rf) = Leader \<Longrightarrow> state rf = Leader" "state (heard args rf) = Leader \<Longrightarrow> aTerm args = currentTerm rf"
  using assms by (auto simp: heard_def convertToFollower_def split: if_splits)

definition installed :: "book \<Rightarrow> AppendEntriesArgs \<Rightarrow> Raft \<Rightarrow> Raft \<Rightarrow> bool" where
  "installed b args rf rf' \<longleftrightarrow> currentTerm rf \<le> aTerm args \<and> currentTerm rf' = aTerm args \<and>
     (state rf' = Leader \<longrightarrow> state rf = Leader \<and> currentTerm rf = aTerm args) \<and>
     lastApplied rf' = lastApplied rf \<and> applied rf' = applied rf \<and>
     covers args \<le> length (logStore rf') \<and> take (covers args) (logStore rf') = take (covers args) (llog b (aTerm args)) \<and>
     (\<forall>k \<le> length (logStore rf). take k (logStore rf) = take k (llog b (aTerm args)) \<longrightarrow>
       k \<le> length (logStore rf') \<and> take k (logStore rf') = take k (llog b (aTerm args))) \<and>
     (commitIndex rf' = commitIndex rf \<or>
       commitIndex rf \<le> commitIndex rf' \<and> commitIndex rf' \<le> aLeaderCommit args \<and> commitIndex rf' < int (length (logStore rf')))"

lemma advance_commit_fields:
  assumes "advance_commit lc rf = Some rf'" and "rooted (logStore rf)" and "commitIndex rf < int (length (logStore rf))"
  shows "\<exists>n. rf' = rf\<lparr>commitIndex := n\<rparr> \<and>
    (n = commitIndex rf \<or> commitIndex rf \<le> n \<and> n \<le> lc \<and> n < int (length (logStore rf)))"
  using assms rooted_last [OF assms(2)]
  by (auto simp: advance_commit_def intro: exI [of _ "commitIndex rf"] split: if_splits)

lemma AppendEntries_installs:
  assumes app: "AppendEntries args rf = Some (reply, rf')" and st: "agrees b (logStore rf)"
    and l: "agrees b (llog b (aTerm args))" and m: "msg_ok b args" and ag: "agrees b (logStore rf')"
    and ci: "commitIndex rf < int (length (logStore rf))" "commitIndex rf \<le> 0 \<or>
      take (Suc (nat (commitIndex rf))) (logStore rf) = take (Suc (nat (commitIndex rf))) (llog b (aTerm args))"
  shows "\<not> eSuccess reply \<and> (rf' = rf \<or> currentTerm rf \<le> aTerm args \<and> rf' = heard args rf) \<or> installed b args rf rf'"
  using AppendEntries_answer [OF app]
proof (elim disjE exE conjE)
  fix n st' assume n: "LastIndex (logStore rf) = Some n" "aPrevLogIndex args \<le> n" "prev_mismatch args (logStore rf) = Some False"
    "append_loop (aEntries args) n (logStore rf) = Some st'"
    and adv: "advance_commit (aLeaderCommit args) ((heard args rf)\<lparr>logStore := st'\<rparr>) = Some rf'"
    and t: "currentTerm rf \<le> aTerm args"
  let ?rf = "(heard args rf)\<lparr>logStore := st'\<rparr>"
  note I = message_installs [OF st l m n]
  have H: "currentTerm ?rf = aTerm args" "state ?rf = Leader \<longrightarrow> state rf = Leader \<and> currentTerm rf = aTerm args"
    "lastApplied ?rf = lastApplied rf" "applied ?rf = applied rf" "commitIndex ?rf = commitIndex rf" "logStore ?rf = st'"
    using t by (auto simp: heard_def convertToFollower_def)
  have "logStore rf' = st'" using advance_commit_log [OF adv] by simp
  then have r: "rooted (logStore ?rf)" using ag by (simp add: agrees_def)
  have "commitIndex rf < int (length st')"
  proof (cases "commitIndex rf \<le> 0")
    case True
    moreover have "0 < length st'" using r by (simp add: rooted_def log_good_def)
    ultimately show ?thesis by linarith
  next
    case False
    then have "Suc (nat (commitIndex rf)) \<le> length st'" using I ci by auto
    then show ?thesis by linarith
  qed
  then obtain k where k: "rf' = ?rf\<lparr>commitIndex := k\<rparr>"
    "k = commitIndex rf \<or> commitIndex rf \<le> k \<and> k \<le> aLeaderCommit args \<and> k < int (length st')"
    using advance_commit_fields [OF adv r] H(5,6) by metis
  have "installed b args rf rf'" using I H t k(2) by (simp add: installed_def k(1))
  then show ?thesis by blast
qed auto

text \<open>What is committed is in the log of every leader that the node may hear from.\<close>

lemma committed_in_leader:
  assumes inv: "safe_inv ids c h b acc" and ids: "distinct ids" and k: "committed_upto ids b acc T k l" "0 < k"
    and u: "lead b u \<noteq> None" "T \<le> u"
  shows "take (Suc k) l = take (Suc k) (llog b u)"
proof -
  obtain t m where w: "chosen ids b acc t m" "t \<le> T" "k \<le> m" "take (Suc k) l = take (Suc k) (llog b t)"
    using k by (auto simp: committed_upto_def)
  show ?thesis
  proof (cases "t = u")
    case False
    then have "settled ids c b acc t m (llog b u)"
      using inv u w(1,2) by (auto simp: safe_inv_def inherited_def chosen_def)
    then have "holds b t m (llog b u)" by (rule chosen_settled [OF ids w(1)])
    then have "take (Suc m) (llog b u) = take (Suc m) (llog b t)" by (simp add: holds_def)
    then have "take (Suc k) (take (Suc m) (llog b u)) = take (Suc k) (take (Suc m) (llog b t))" by simp
    then show ?thesis using w(3,4) by (simp add: min_def)
  qed (use w in simp)
qed

lemma applied_ok_keeps:
  assumes "applied_ok rf" and "lastApplied rf' = lastApplied rf" and "applied rf' = applied rf"
    and "commitIndex rf \<le> commitIndex rf'" and "commitIndex rf' < int (length (logStore rf'))"
    and "0 < nat (commitIndex rf) \<Longrightarrow> take (Suc (nat (commitIndex rf))) (logStore rf') = take (Suc (nat (commitIndex rf))) (logStore rf)"
  shows "applied_ok rf'"
proof -
  let ?n = "nat (lastApplied rf)" and ?k = "nat (commitIndex rf)"
  have a: "0 \<le> lastApplied rf" "lastApplied rf \<le> commitIndex rf" "applied rf = map message (take ?n (tl (logStore rf)))"
    using assms(1) by (simp_all add: applied_ok_def)
  have "take ?n (tl (logStore rf')) = take ?n (tl (logStore rf))"
  proof (cases "?k = 0")
    case False
    have cut: "take ?n (tl l) = take ?n (tl (take (Suc ?k) l))" for l :: "LogEntry list"
      using a(2) by (cases l) (simp_all add: min_def)
    show ?thesis unfolding cut [of "logStore rf'"] cut [of "logStore rf"] using assms(6) False by simp
  qed (use a(2) in simp)
  then show ?thesis using a assms(2-5) by (simp add: applied_ok_def)
qed

lemma installed_keeps:
  assumes "installed b args rf rf'" and "k \<le> length (logStore rf)"
    and "take k (logStore rf) = x" and "take k (llog b (aTerm args)) = x"
  shows "take k (logStore rf') = x"
  using assms by (simp add: installed_def)

lemma safe_inv_append:
  assumes inv: "safe_inv ids c h b acc" and logs: "logs_inv ids c h b" and v: "votes_inv ids c h" and ids: "cluster_ids ids"
    and app: "AppendEntries args (nodes c p) = Some (reply, rf)" and sent: "(p, args) \<in> set (appends c)"
    and d: "nodes d = (nodes c)(p := rf)" "asked d = asked c" "appends d = remove1 (p, args) (appends c)"
      "acks d = (p, args, reply) # acks c"
  shows "\<exists>acc'. safe_inv ids d h b acc'"
proof -
  let ?rf = "nodes c p" and ?t = "aTerm args"
  let ?st = "logStore ?rf"
  let ?l = "llog b ?t"
  have ok: "node_ok b p ?rf" and ag: "agrees b ?st" using logs by (simp_all add: logs_inv_def node_ok_def)
  have m: "msg_ok b args" "p \<noteq> aLeaderID args" using logs sent by (auto simp: logs_inv_def wire_ok_def)
  then have lead: "lead b ?t \<noteq> None" and ne: "?l \<noteq> []" by (auto simp: msg_ok_def Let_def)
  then have l: "agrees b ?l" using logs unfolding logs_inv_def by blast
  have ag': "agrees b (logStore rf)" by (rule AppendEntries_agrees [OF app ag l m(1)])
  have dist: "distinct ids" using ids by (simp add: cluster_ids_def)
  have I: "commit_ok ids b acc ?rf" "match_ok ids acc p ?rf" "log_terms_ok c b" "accept_ok c b acc" "kept ids c b acc" "inherited ids c b acc"
    "sends_ok ids c b acc" using inv by (simp_all add: safe_inv_def)
  have fewer: "set (appends d) \<subseteq> set (appends c)" using set_remove1_subset [of "(p, args)" "appends c"] by (simp add: d(3))
  have A: "applied_ok ?rf" using I(1) by (simp add: commit_ok_def)
  then have ci: "commitIndex ?rf < int (length ?st)" "0 \<le> commitIndex ?rf" by (simp_all add: applied_ok_def)
  let ?k = "nat (commitIndex ?rf)"
  have com: "take (Suc ?k) ?st = take (Suc ?k) ?l" if "0 < ?k" "currentTerm ?rf \<le> ?t"
    using committed_in_leader [OF inv dist _ that(1) lead that(2)] I(1) by (simp add: commit_ok_def)
  show ?thesis
  proof (cases "currentTerm ?rf \<le> ?t")
    case False
    then have "rf = ?rf \<and> \<not> eSuccess reply" using app by (auto simp: AppendEntries_def Let_def)
    then have "safe_inv ids d h b acc"
      using fewer by (intro safe_inv_same_log [OF inv v d(1)]) (auto simp: I(1,2) d)
    then show ?thesis by blast
  next
    case t: True
    have outcome: "\<not> eSuccess reply \<and> (rf = ?rf \<or> currentTerm ?rf \<le> ?t \<and> rf = heard args ?rf) \<or> installed b args ?rf rf"
    proof (rule AppendEntries_installs [OF app ag l m(1) ag' ci(1)])
      show "commitIndex ?rf \<le> 0 \<or> take (Suc ?k) ?st = take (Suc ?k) ?l" using com t by (cases "commitIndex ?rf \<le> 0") simp_all
    qed
    show ?thesis
    proof (cases "installed b args ?rf rf")
      case False
      then have no: "\<not> eSuccess reply" "rf = ?rf \<or> rf = heard args ?rf" using outcome by blast+
      then have "logStore rf = ?st" "currentTerm ?rf \<le> currentTerm rf" "commit_ok ids b acc rf" "match_ok ids acc p rf"
        using heard_same [OF t] t by (auto intro: commit_ok_same [OF I(1)] match_ok_same [OF I(2)])
      then have "safe_inv ids d h b acc"
        using no(1) fewer by (intro safe_inv_same_log [OF inv v d(1)]) (auto simp: d)
      then show ?thesis by blast
    next
      case J: True
      note J' = J [unfolded installed_def]
      define acc' where "acc' = acc((p, ?t) := max (acc (p, ?t)) (covers args))"
      have len: "covers args \<le> length ?l" by (rule covers_le [OF m(1)])
      have grow: "acc (q, u) \<le> acc' (q, u)" "u < currentTerm (nodes c q) \<Longrightarrow> acc' (q, u) = acc (q, u)" for q u
        using t by (auto simp: acc'_def)
      have L: "later c b acc d b acc'" using grow t J' by (auto simp: later_def d)
      have low: "\<forall>e \<in> set (logStore rf). Term e \<le> ?t"
      proof
        fix e assume "e \<in> set (logStore rf)"
        then have "e \<in> set ?st \<or> e \<in> set ?l" using AppendEntries_cut [OF app ag l m(1)] by (auto dest: in_set_takeD)
        then have "Term e \<le> currentTerm ?rf \<or> Term e \<le> ?t" using I(3) unfolding log_terms_ok_def by blast
        then show "Term e \<le> ?t" using t by linarith
      qed
      have keep: "settled ids d b acc' u n (logStore rf)" if q: "proposal b u n" "n < acc' (p, u)" for u n
      proof (cases "u = ?t \<and> n < covers args")
        case True
        then have "take (Suc n) (take (covers args) (logStore rf)) = take (Suc n) (take (covers args) ?l)" using J' by simp
        then have "holds b u n (logStore rf)" using True by (simp add: holds_def min_def)
        then show ?thesis by (simp add: settled_def)
      next
        case False
        then have n: "n < acc (p, u)" using q(2) by (auto simp: acc'_def split: if_splits)
        then have "0 < acc (p, u)" by simp
        then have "u \<le> currentTerm ?rf" using I(4) unfolding accept_ok_def by blast
        then have u: "u \<le> ?t" using t by simp
        have "settled ids c b acc u n ?st" using I(5) q(1) n by (simp add: kept_def)
        moreover have "settled ids c b acc u n ?l"
          using I(6) lead q(1) u by (cases "u = ?t") (auto simp: inherited_def settled_def holds_def)
        moreover have "holds b u n (logStore rf)" if h: "holds b u n ?st" "holds b u n ?l"
          using installed_keeps [OF J, of "Suc n" "take (Suc n) (llog b u)"] holds_length [OF q(1) h(1)] h by (simp add: holds_def)
        ultimately show ?thesis using later_blocked [OF L] by (auto simp: settled_def)
      qed
      have same: "take (Suc ?k) (logStore rf) = take (Suc ?k) ?st" if "0 < ?k"
        using installed_keeps [OF J _ refl] com [OF that t] ci by simp
      have C: "applied_ok rf"
      proof (rule applied_ok_keeps [OF A])
        show "commitIndex ?rf \<le> commitIndex rf" using J' by auto
        have "commitIndex ?rf < int (length (logStore rf))"
        proof (cases "0 < ?k")
          case True
          have "Suc ?k \<le> length ?st" using ci by linarith
          then have "Suc ?k \<le> length (logStore rf)" using take_same_length [OF same [OF True]] by blast
          then show ?thesis by linarith
        qed (use J' ci in \<open>auto simp: covers_def\<close>)
        then show "commitIndex rf < int (length (logStore rf))" using J' by auto
      qed (use J' same in auto)
      have commit: "committed_upto ids b acc' ?t (nat (commitIndex rf)) (logStore rf)"
      proof (cases "commitIndex rf = commitIndex ?rf")
        case True
        have "committed_upto ids b acc (currentTerm ?rf) ?k ?st" using I(1) by (simp add: commit_ok_def)
        then have "committed_upto ids b acc ?t ?k ?st" by (rule committed_upto_le [OF _ order_refl t])
        then have "committed_upto ids b acc ?t ?k (logStore rf)"
        proof (cases "?k = 0")
          case False
          then show ?thesis using committed_upto_cong [of ids b acc ?t ?k ?st "logStore rf"] same
              \<open>committed_upto ids b acc ?t ?k ?st\<close> by blast
        qed (simp add: committed_upto_def)
        then show ?thesis using True later_committed [OF L] by simp
      next
        case False
        then have le: "commitIndex rf \<le> aLeaderCommit args" using J' by blast
        have S: "aLeaderCommit args < int (covers args)" "committed_upto ids b acc ?t (nat (aLeaderCommit args)) ?l"
          using I(7) sent by (auto simp: sends_ok_def)
        have "committed_upto ids b acc ?t (nat (commitIndex rf)) ?l" using le by (intro committed_upto_le [OF S(2)]) auto
        moreover have "take (Suc (nat (commitIndex rf))) (logStore rf) = take (Suc (nat (commitIndex rf))) ?l"
        proof -
          have "0 < covers args" by (simp add: covers_def)
          then have "Suc (nat (commitIndex rf)) \<le> covers args" using le S(1) by linarith
          then have "take (Suc (nat (commitIndex rf))) x = take (Suc (nat (commitIndex rf))) (take (covers args) x)" for x :: "LogEntry list"
            by (simp add: min_def)
          then show ?thesis using J' by metis
        qed
        ultimately show ?thesis using later_committed [OF L] committed_upto_cong by blast
      qed
      have "state rf \<noteq> Leader"
      proof
        assume "state rf = Leader"
        then have "lead b ?t = Some p" using J' ok by (auto simp: node_ok_def)
        then show False using m by (simp add: msg_ok_def)
      qed
      then have mat: "match_ok ids acc' p rf" by (simp add: match_ok_def)
      have acc: "acc' = acc \<or> (\<exists>u k. acc' = acc((p, u) := k) \<and> acc (p, u) \<le> k \<and> currentTerm ?rf \<le> u \<and>
          u \<le> currentTerm rf \<and> lead b u \<noteq> None \<and> k \<le> length (llog b u))"
      proof -
        have "acc (p, ?t) \<le> length ?l" using I(4) by (cases "acc (p, ?t) = 0") (simp_all add: accept_ok_def)
        then show ?thesis using J' lead len t
          by (intro disjI2 exI [of _ ?t] exI [of _ "max (acc (p, ?t)) (covers args)"]) (simp add: acc'_def)
      qed
      have "safe_inv ids d h b acc'"
      proof (rule safe_inv_node [OF inv v d(1) _ _ _ acc keep _ mat])
        show "commit_ok ids b acc' rf" using C commit J' by (simp add: commit_ok_def)
        show "(q, a, r) \<in> set (acks c) \<or> (eSuccess r \<longrightarrow> covers a \<le> acc' (q, aTerm a))" if "(q, a, r) \<in> set (acks d)" for q a r
          using that by (auto simp: d(4) acc'_def)
      qed (use t J' lead low fewer d(2) in auto)
      then show ?thesis by blast
    qed
  qed
qed

end
