(* ===== verification/RaftHandover.thy ===== *)
theory RaftHandover
  imports RaftSafety
begin

text \<open>
  The steps that make a leader's log: an election and a proposal.
\<close>

lemma holds_append: "proposal b t n \<Longrightarrow> holds b t n l \<Longrightarrow> holds b t n (l @ m)"
  using holds_length [of b t n l] by (simp add: holds_def)

lemma settled_append: "proposal b t n \<Longrightarrow> settled ids c b acc t n l \<Longrightarrow> settled ids c b acc t n (l @ m)"
  using holds_append by (auto simp: settled_def)

text \<open>A majority that has voted in a later term and has not accepted an entry blocks it.\<close>

lemma voters_block:
  assumes v: "votes_inv ids d h" and "length ids div 2 < card (counted h (i, u))" and "t < u"
    and "\<And>p. p \<in> counted h (i, u) \<Longrightarrow> acc (p, t) \<le> n"
  shows "blocked ids d acc t n"
proof -
  have C: "counted h (i, u) \<subseteq> set ids" "\<And>p. p \<in> counted h (i, u) \<Longrightarrow> (p, u, i) \<in> granted h"
    using v by (auto simp: votes_inv_def count_ok_def)
  have "t < currentTerm (nodes d p)" if "p \<in> counted h (i, u)" for p
    using granted_ok(2) [OF v C(2) [OF that]] assms(3) by linarith
  then show ?thesis unfolding blocked_def using C(1) assms(2,4) by blast
qed

text \<open>Node \<open>i\<close> leads term \<open>u\<close>, from now on or still, and adds \<open>m\<close> to its log.\<close>

lemma safe_inv_lead:
  assumes inv: "safe_inv ids c h b acc" and logs: "logs_inv ids c h b" and v: "votes_inv ids c h" and v': "votes_inv ids d h'"
    and g: "granted h' = granted h"
    and d: "nodes d = (nodes c)(i := rf)" "asked d = asked c" "appends d = appends c" "acks d = acks c"
    and st: "state rf = Leader" and u: "currentTerm rf = u" "currentTerm (nodes c i) = u" and i: "i \<in> set ids"
    and log: "logStore rf = logStore (nodes c i) @ m" "\<forall>e \<in> set m. Term e = u"
    and own: "lead b u = None \<and> llog b u = [] \<or> lead b u = Some i \<and> llog b u = logStore (nodes c i)"
    and same: "commitIndex rf = commitIndex (nodes c i)" "lastApplied rf = lastApplied (nodes c i)" "applied rf = applied (nodes c i)"
    and mat: "\<forall>p \<in> set ids. p \<noteq> i \<longrightarrow> matchIndex rf p \<le> 0 \<or> nat (matchIndex rf p) < acc (p, u)"
  shows "safe_inv ids d h' (enter i rf b) (acc((i, u) := length (logStore rf)))"
proof -
  let ?l = "logStore (nodes c i)" and ?b = "enter i rf b" and ?acc = "acc((i, u) := length (logStore rf))"
  have b: "lead ?b = (lead b)(u := Some i)" "llog ?b = (llog b)(u := ?l @ m)" using st u(1) log(1) by (simp_all add: enter_def)
  have ag: "agrees b (logStore (nodes c j))" for j using logs by (simp add: logs_inv_def node_ok_def)
  have I: "log_terms_ok c b" "accept_ok c b acc" "kept ids c b acc" "inherited ids c b acc" "backed ids c h b acc" "calls_ok c b"
    "sends_ok ids c b acc" "answers_ok c acc" "commit_ok ids b acc (nodes c j)" "match_ok ids acc j (nodes c j)" for j
    using inv by (simp_all add: safe_inv_def)
  have few: "acc (p, u) \<le> length ?l" for p
  proof (cases "acc (p, u) = 0")
    case False
    then have "lead b u \<noteq> None \<and> acc (p, u) \<le> length (llog b u)" using I(2) by (simp add: accept_ok_def)
    then show ?thesis using own by auto
  qed simp
  have later: "later c b acc d ?b ?acc"
    unfolding later_def
  proof (intro conjI allI impI)
    show "currentTerm (nodes c p) \<le> currentTerm (nodes d p)" for p using u by (simp add: d)
    show "\<exists>m. llog ?b t = llog b t @ m" for t using own by (cases "t = u") (auto simp: b)
    show "lead ?b t = lead b t" if "lead b t \<noteq> None" for t using that own by (auto simp: b)
    show "acc (p, t) \<le> ?acc (p, t)" for p t using few [of p] log(1) by (auto simp: fun_upd_apply intro: le_trans)
    show "?acc (p, t) = acc (p, t)" if "t < currentTerm (nodes c p)" for p t using that u(2) by auto
  qed
  note S = later_settled [OF later]
  have new: "proposal b t n \<or> t = u \<and> length ?l \<le> n" if "proposal ?b t n" for t n
  proof (cases "t = u \<and> n < length ?l")
    case True
    show ?thesis
    proof (cases "lead b u = None")
      case None: True
      then have "llog b u = []" using own by auto
      moreover have "Term (?l ! n) = u" using that True by (simp add: proposal_def b nth_append)
      moreover have "take (Suc n) ?l = take (Suc n) (llog b (Term (?l ! n)))" using ag [of i] True by (simp add: agrees_def)
      ultimately show ?thesis using True by auto
    next
      case False
      then show ?thesis using that True own by (auto simp: proposal_def b nth_append)
    qed
  qed (use that in \<open>auto simp: proposal_def b not_less\<close>)
  have "log_terms_ok d ?b"
  proof -
    have l: "\<forall>e \<in> set ?l. Term e \<le> u" using I(1) u(2) by (auto simp: log_terms_ok_def)
    have "map Term m = replicate (length m) u" using log(2) by (induction m) auto
    then have "sorted (map Term (?l @ m))" using agrees_sorted [OF ag I(1), of i] l by (auto simp: sorted_append)
    then show ?thesis using I(1) l log u by (auto simp: log_terms_ok_def b d)
  qed
  moreover have "accept_ok d ?b ?acc"
    unfolding accept_ok_def
  proof (intro allI impI)
    fix p t assume a: "0 < ?acc (p, t)"
    show "lead ?b t \<noteq> None \<and> t \<le> currentTerm (nodes d p) \<and> ?acc (p, t) \<le> length (llog ?b t)"
    proof (cases "(p, t) = (i, u)")
      case True
      then show ?thesis using u log(1) by (auto simp: b d)
    next
      case False
      then have "0 < acc (p, t)" using a by auto
      then have "lead b t \<noteq> None \<and> t \<le> currentTerm (nodes c p) \<and> acc (p, t) \<le> length (llog b t)" using I(2) by (simp add: accept_ok_def)
      then show ?thesis using False u own by (auto simp: b d)
    qed
  qed
  moreover have "kept ids d ?b ?acc"
    unfolding kept_def
  proof (intro allI impI)
    fix p t n assume a: "proposal ?b t n" "n < ?acc (p, t)"
    show "settled ids d ?b ?acc t n (logStore (nodes d p))"
    proof (cases "(p, t) = (i, u)")
      case True
      then show ?thesis by (simp add: settled_def holds_def b d log(1))
    next
      case False
      then have n: "n < acc (p, t)" using a(2) by auto
      then have old: "proposal b t n" using new [OF a(1)] few [of p] by auto
      then have "settled ids d ?b ?acc t n (logStore (nodes c p))" using I(3) n by (intro S) (simp_all add: kept_def)
      then show ?thesis using settled_append [OF a(1)] log(1) by (cases "p = i") (simp_all add: d)
    qed
  qed
  moreover have "inherited ids d ?b ?acc"
    unfolding inherited_def
  proof (intro allI impI)
    fix w t n assume a: "lead ?b w \<noteq> None" "t < w" "proposal ?b t n"
    show "settled ids d ?b ?acc t n (llog ?b w)"
    proof (cases "proposal b t n")
      case old: True
      show ?thesis
      proof (cases "lead b w = None")
        case False
        then have "settled ids d ?b ?acc t n (llog b w)" using I(4) a(2) old by (intro S) (auto simp: inherited_def)
        then show ?thesis using settled_append [OF a(3)] own False by (cases "w = u") (auto simp: b)
      next
        case True
        then have w: "w = u" using a(1) by (auto simp: b split: if_splits)
        let ?Q = "counted h' (i, u)"
        have maj: "length ids div 2 < card ?Q" using v' st u by (auto simp: votes_inv_def leaders_ok_def d(1) split: if_splits)
        have G: "(p, u, i) \<in> granted h" if "p \<in> ?Q" for p using v' that g by (auto simp: votes_inv_def count_ok_def)
        show ?thesis
        proof (cases "\<forall>p \<in> ?Q. acc (p, t) \<le> n")
          case True
          then have "blocked ids d ?acc t n" using a(2) w by (intro voters_block [OF v' maj]) auto
          then show ?thesis by (simp add: settled_def)
        next
          case False
          then obtain p where "p \<in> ?Q" "n < acc (p, t)" by auto
          then have "settled ids c b acc t n ?l" using I(5) G True w u(2) old a(2) unfolding backed_def by blast
          from settled_append [OF a(3) S [OF old this]] show ?thesis by (simp add: b w)
        qed
      qed
    next
      case False
      then have t: "t = u" "length ?l \<le> n" using new [OF a(3)] by blast+
      then obtain j where j: "lead b w = Some j" using a(1,2) by (auto simp: b split: if_splits)
      have "majority ids h j w" using logs j by (simp add: logs_inv_def terms_ok_def)
      moreover have "acc (p, t) \<le> n" for p using few [of p] t by simp
      ultimately have "blocked ids c acc t n" using a(2) by (intro voters_block [OF v, of j w]) (auto simp: majority_def)
      from later_blocked [OF later this] show ?thesis by (simp add: settled_def)
    qed
  qed
  moreover have "backed ids d h' ?b ?acc"
    unfolding backed_def g
  proof (intro allI impI conjI)
    fix p w j assume G: "(p, w, j) \<in> granted h"
    then have le: "w \<le> currentTerm (nodes c j)" using I(5) unfolding backed_def by blast
    then show "w \<le> currentTerm (nodes d j)" using u by (auto simp: d)
    fix t n assume a: "lead ?b w = None" "currentTerm (nodes d j) = w" "proposal ?b t n" "t < w" "n < ?acc (p, t)"
    have w: "w \<noteq> u" "lead b w = None" using a(1) by (auto simp: b split: if_splits)
    then have j: "j \<noteq> i" using a(2) u by (auto simp: d)
    have "w \<le> currentTerm (nodes c p)" by (rule granted_ok(2) [OF v G])
    then have n: "n < acc (p, t)" using a(4,5) u(2) by (auto split: if_splits)
    then have old: "proposal b t n" using new [OF a(3)] few [of p] by auto
    have "currentTerm (nodes c j) = w" using a(2) j by (simp add: d)
    then have "settled ids c b acc t n (logStore (nodes c j))" using I(5) G w(2) old a(4) n unfolding backed_def by blast
    then show "settled ids d ?b ?acc t n (logStore (nodes d j))" using S [OF old] j by (simp add: d)
  qed
  moreover have "calls_ok d ?b"
    unfolding calls_ok_def
  proof (intro allI impI)
    fix p args assume a: "(p, args) \<in> set (asked d)" "lead ?b (vTerm args) = None" "currentTerm (nodes d (vCandidateID args)) = vTerm args"
    have "vTerm args \<noteq> u" "lead b (vTerm args) = None" using a(2) by (auto simp: b split: if_splits)
    then show "let e = last (logStore (nodes d (vCandidateID args))) in vLastLogTerm args = Term e \<and> vLastLogIndex args = Index e"
      using I(6) a u unfolding calls_ok_def by (auto simp: d)
  qed
  moreover have "sends_ok ids d ?b ?acc"
    unfolding sends_ok_def
  proof (intro allI impI conjI)
    fix p args assume "(p, args) \<in> set (appends d)"
    then have a: "(p, args) \<in> set (appends c)" by (simp add: d)
    then show lt: "aLeaderCommit args < int (covers args)" using I(7) by (simp add: sends_ok_def)
    have "msg_ok b args" using logs a by (auto simp: logs_inv_def wire_ok_def)
    then have "covers args \<le> length (llog b (aTerm args))" by (rule covers_le)
    moreover have "0 < covers args" by (simp add: covers_def)
    ultimately have "Suc (nat (aLeaderCommit args)) \<le> length (llog b (aTerm args))" using lt by linarith
    from later_take [OF later this] I(7) a
    show "committed_upto ids ?b ?acc (aTerm args) (nat (aLeaderCommit args)) (llog ?b (aTerm args))"
      using later_committed [OF later] committed_upto_cong unfolding sends_ok_def by blast
  qed
  moreover have "answers_ok d ?acc"
    using I(8) later unfolding answers_ok_def later_def d(4) by (meson le_trans)
  moreover have "commit_ok ids ?b ?acc (nodes d j) \<and> match_ok ids ?acc j (nodes d j)" for j
  proof (cases "j = i")
    case True
    have A: "applied_ok (nodes c i)" using I(9) by (simp add: commit_ok_def)
    then have k: "Suc (nat (commitIndex (nodes c i))) \<le> length ?l" by (auto simp: applied_ok_def)
    have "grows (nodes c i) rf" using log(1) same by (simp add: grows_def)
    then have "applied_ok rf" by (rule applied_ok_grows [OF A])
    moreover have "committed_upto ids ?b ?acc u (nat (commitIndex rf)) (logStore rf)"
    proof (rule committed_upto_cong)
      show "committed_upto ids ?b ?acc u (nat (commitIndex rf)) ?l"
        using later_committed [OF later] I(9) [of i] u(2) same(1) by (simp add: commit_ok_def)
      show "take (Suc (nat (commitIndex rf))) (logStore rf) = take (Suc (nat (commitIndex rf))) ?l" using k same(1) log(1) by simp
    qed
    moreover have "match_ok ids ?acc i rf" using i mat u by (simp add: match_ok_def)
    ultimately show ?thesis using True u by (simp add: commit_ok_def d)
  next
    case False
    have "match_ok ids ?acc j (nodes c j)"
      using later False by (intro match_ok_grows [OF I(10)]) (auto simp: later_def)
    then show ?thesis using False I(9) [of j] later_committed [OF later] by (simp add: d commit_ok_def)
  qed
  ultimately show ?thesis by (simp add: safe_inv_def)
qed

end
