(* ===== verification/RaftSteps.thy ===== *)
theory RaftSteps
  imports RaftHandover
begin

text \<open>
  Every event of a cluster whose votes are checked keeps the invariant of \<open>RaftChosen\<close>.
\<close>

section \<open>The leader's commit rule\<close>

lemma committable_chosen:
  assumes dist: "distinct ids" and L: "lead b (currentTerm rf) = Some i" "llog b (currentTerm rf) = logStore rf" "rooted (logStore rf)"
    and st: "state rf = Leader" and me: "rid rf = i" "Peers rf = ids"
    and mat: "match_ok ids acc i rf" and n: "committable rf n" "0 < n"
  shows "chosen ids b acc (currentTerm rf) (nat n)"
proof -
  let ?u = "currentTerm rf" and ?ps = "insert i {p \<in> set ids. p \<noteq> i \<and> n \<le> matchIndex rf p}"
  have M: "i \<in> set ids" "acc (i, ?u) = length (logStore rf)"
    "\<And>p. p \<in> set ids \<Longrightarrow> p \<noteq> i \<Longrightarrow> matchIndex rf p \<le> 0 \<or> nat (matchIndex rf p) < acc (p, ?u)"
    using mat st by (auto simp: match_ok_def)
  have k: "nat n < length (logStore rf)" "Term (logStore rf ! nat n) = ?u"
    using n(1) rooted_view [OF L(3), of n] by (auto simp: committable_def split: if_splits)
  have "?ps \<subseteq> {p \<in> set ids. nat n < acc (p, ?u)}"
  proof
    fix p assume p: "p \<in> ?ps"
    show "p \<in> {p \<in> set ids. nat n < acc (p, ?u)}"
    proof (cases "p = i")
      case False
      then have "p \<in> set ids" "n \<le> matchIndex rf p" using p by simp_all
      then show ?thesis using M(3) [OF _ False] n(2) by force
    qed (use M(1,2) k(1) in simp)
  qed
  then have "card ?ps \<le> card {p \<in> set ids. nat n < acc (p, ?u)}" by (intro card_mono) simp_all
  then show ?thesis
    using n(1) ack_count_card [OF dist me, of n] me(2) L k by (simp add: chosen_def proposal_def committable_def)
qed

lemma safe_inv_ack:
  assumes inv: "safe_inv ids c h b acc" and logs: "logs_inv ids c h b" and v: "votes_inv ids c h" and ids: "cluster_ids ids"
    and ack: "replicate_reply p args reply (nodes c i) = Some rf" "(p, args, reply) \<in> set (acks c)"
    and d: "nodes d = (nodes c)(i := rf)" "asked d = asked c" "appends d = appends c" "acks d = remove1 (p, args, reply) (acks c)"
  shows "safe_inv ids d h b acc"
proof -
  let ?rf = "nodes c i"
  have dist: "distinct ids" using ids by (simp add: cluster_ids_def)
  have me: "rid ?rf = i" "Peers ?rf = ids" using v by (simp_all add: votes_inv_def ids_ok_def)
  have ok: "node_ok b i ?rf" "rooted (logStore ?rf)" using logs by (simp_all add: logs_inv_def node_ok_def agrees_def)
  have I: "commit_ok ids b acc ?rf" "match_ok ids acc i ?rf" "answers_ok c acc" using inv by (simp_all add: safe_inv_def)
  have prev: "0 \<le> aPrevLogIndex args" using logs ack(2) unfolding logs_inv_def wire_ok_def by blast
  have calm: "calm ?rf rf" "logStore rf = logStore ?rf" using replicate_reply_calm [OF ack(1) prev] by blast+
  have tm: "currentTerm ?rf \<le> currentTerm rf" using calm(1) by (simp add: calm_def)
  have "commit_ok ids b acc rf \<and> match_ok ids acc i rf"
    using ack(1)
  proof (cases rule: replicate_reply_cases)
    case 1
    have "commit_ok ids b acc rf" using 1 by (intro commit_ok_same [OF I(1) tm calm(2)]) (simp_all add: grows_def)
    moreover have "match_ok ids acc i rf" using 1 calm by (intro match_ok_same [OF I(2)]) (auto simp: calm_def)
    ultimately show ?thesis by blast
  next
    case (2 rf1)
    note f = 2(8-12)
    have answer: "covers args \<le> acc (p, currentTerm ?rf)" using I(3) ack(2) 2(1,6) unfolding answers_ok_def by metis
    have sum: "nat (aPrevLogIndex args + int (length (aEntries args))) < covers args" using prev by (simp add: covers_def nat_add_distrib)
    have mat: "match_ok ids acc i rf1"
      unfolding match_ok_def
    proof (intro impI conjI ballI)
      show "i \<in> set ids" "acc (i, currentTerm rf1) = length (logStore rf1)" using I(2) 2(2,7) f(4) by (simp_all add: match_ok_def)
      fix q assume "q \<in> set ids" "q \<noteq> i"
      then show "matchIndex rf1 q \<le> 0 \<or> nat (matchIndex rf1 q) < acc (q, currentTerm rf1)"
        using I(2) 2(2,7) f(1) answer sum by (cases "q = p") (auto simp: match_ok_def)
    qed
    have rt: "rooted (logStore rf1)" using ok(2) f(4) by simp
    have U: "grows rf1 rf" "commitIndex rf = commitIndex rf1 \<or> committable rf1 (commitIndex rf)" "rf = rf1\<lparr>commitIndex := commitIndex rf\<rparr>"
      using updateCommitIndex_grows [OF rt f(5)] by blast+
    have A: "applied_ok ?rf" using I(1) by (simp add: commit_ok_def)
    have "applied_ok rf" by (rule applied_ok_grows [OF applied_ok_grows [OF A 2(3)] U(1)])
    moreover have "committed_upto ids b acc (currentTerm rf) (nat (commitIndex rf)) (logStore rf)"
    proof (cases "commitIndex rf = commitIndex ?rf")
      case True
      have "committed_upto ids b acc (currentTerm ?rf) (nat (commitIndex ?rf)) (logStore ?rf)" using I(1) by (simp add: commit_ok_def)
      from committed_upto_le [OF this order_refl tm] show ?thesis using True calm(2) by simp
    next
      case False
      have "0 \<le> commitIndex ?rf" "commitIndex rf1 \<le> commitIndex rf" using A U(1) by (simp_all add: applied_ok_def grows_def)
      then have pos: "0 < commitIndex rf" using False 2(4) by linarith
      have L: "lead b (currentTerm rf1) = Some i" "llog b (currentTerm rf1) = logStore rf1"
        using ok(1) 2(2,7) f(4) by (simp_all add: node_ok_def)
      have "chosen ids b acc (currentTerm rf1) (nat (commitIndex rf))"
        using U(2) False 2(4) f(2,3) me by (intro committable_chosen [OF dist L rt 2(5) _ _ mat _ pos]) auto
      moreover have "currentTerm rf = currentTerm rf1" "logStore rf = logStore rf1" by (subst U(3), simp)+
      ultimately show ?thesis using L(2) unfolding committed_upto_def by (metis order_refl)
    qed
    moreover have "state rf = state rf1" "currentTerm rf = currentTerm rf1" "logStore rf = logStore rf1" "matchIndex rf = matchIndex rf1"
      by (subst U(3), simp)+
    then have "match_ok ids acc i rf" by (intro match_ok_same [OF mat]) simp_all
    ultimately show ?thesis unfolding commit_ok_def by blast
  qed
  then show ?thesis
    using set_remove1_subset [of "(p, args, reply)" "acks c"]
    by (intro safe_inv_same_log [OF inv v d(1) tm calm(2)]) (auto simp: d)
qed

section \<open>Every event\<close>

text \<open>The vote of an event, if it gives one, is checked.\<close>

fun vote_checked :: "event \<Rightarrow> cluster \<Rightarrow> bool" where
  "vote_checked (Vote p args) c = (rVoteGranted (fst (RequestVote args (nodes c p))) \<longrightarrow> up_to_date args (logStore (nodes c p)))"
| "vote_checked e c = True"

fun votes_checked :: "event list \<Rightarrow> cluster \<Rightarrow> bool" where
  "votes_checked [] c = True"
| "votes_checked (e # es) c =
     (vote_checked e c \<and> (case cluster_step e c of None \<Rightarrow> False | Some c' \<Rightarrow> votes_checked es c'))"

lemma election_timeout_call:
  assumes "election_timeout rf = Some (Some args, rf')" and "agrees b (logStore rf)"
  shows "vLastLogTerm args = Term (last (logStore rf)) \<and> vLastLogIndex args = Index (last (logStore rf))"
proof -
  let ?l = "logStore rf"
  have r: "rooted ?l" using assms(2) by (simp add: agrees_def)
  have ne: "?l \<noteq> []" "length ?l - 1 < length ?l" using agrees_whole(3) [OF assms(2)] by simp_all
  have ix: "int (length ?l) - 1 = int (length ?l - 1)" using ne(1) by (simp add: of_nat_diff Suc_le_eq)
  obtain e where e: "LastIndex ?l = Some (vLastLogIndex args)" "GetLog (vLastLogIndex args) ?l = Some (Inr e)" "vLastLogTerm args = Term e"
    using assms(1) by (auto simp: election_timeout_def startElection_def Let_def split: if_splits option.splits sum.splits)
  have i: "vLastLogIndex args = int (length ?l - 1)" using e(1) trans [OF rooted_last [OF r] arg_cong [OF ix, of Some]] by (simp only: option.inject)
  then have "e = ?l ! (length ?l - 1)" using e(2) rooted_get [OF r ne(2)] by simp
  then have "vLastLogTerm args = Term (last ?l)" using e(3) ne(1) by (simp add: last_conv_nth)
  then show ?thesis unfolding i agrees_whole(4) [OF assms(2)] ix by blast
qed

lemma safe_inv_timeout:
  assumes inv: "safe_inv ids c h b acc" and logs: "logs_inv ids c h b" and v: "votes_inv ids c h"
    and step: "timeout_event i c = Some d"
  shows "safe_inv ids d (remember (Timeout i) c h) b acc"
proof -
  let ?rf = "nodes c i"
  have me: "rid ?rf = i" using v by (simp add: votes_inv_def ids_ok_def)
  have ag: "agrees b (logStore ?rf)" using logs by (simp add: logs_inv_def node_ok_def)
  have I: "commit_ok ids b acc ?rf" "match_ok ids acc i ?rf" "kept ids c b acc" using inv by (simp_all add: safe_inv_def)
  obtain a where et: "election_timeout ?rf = Some a" using step by (auto simp: timeout_event_def split: if_splits option.splits)
  from et show ?thesis
  proof (cases rule: election_timeout_cases)
    case 1
    then have "d = set_node i ?rf c" using step et by (auto simp: timeout_event_def split: if_splits)
    then show ?thesis using et 1 I by (intro safe_inv_same_log [OF inv v, of d i ?rf]) auto
  next
    case (2 args)
    let ?t = "currentTerm ?rf + 1"
    let ?new = "?rf\<lparr>state := Candidate, currentTerm := ?t, votedFor := rid ?rf\<rparr>"
    have d: "nodes d = (nodes c)(i := ?new)" "appends d = appends c" "acks d = acks c"
      "\<And>q x. (q, x) \<in> set (asked d) \<Longrightarrow> (q, x) \<in> set (asked c) \<or> x = args"
      using step et 2 by (auto simp: timeout_event_def split: if_splits)
    have call: "vLastLogTerm args = Term (last (logStore ?rf)) \<and> vLastLogIndex args = Index (last (logStore ?rf))"
      using election_timeout_call [of ?rf args _ b] et 2(1) ag by blast
    have new: "(p, u, j) \<in> granted h \<or> (p, u, j) = (i, ?t, i)" if "(p, u, j) \<in> granted (remember (Timeout i) c h)" for p u j
      using that et 2 me by auto
    show ?thesis
    proof (rule safe_inv_same_log [OF inv v d(1)])
      show "commit_ok ids b acc ?new" by (rule commit_ok_same [OF I(1)]) simp_all
      show "match_ok ids acc i ?new" by (simp add: match_ok_def)
      show "(p, u, j) \<in> granted h \<or> u \<le> currentTerm (nodes d j) \<and>
          (lead b u = None \<longrightarrow> currentTerm (nodes d j) = u \<longrightarrow> (\<forall>t n. proposal b t n \<longrightarrow> t < u \<longrightarrow> n < acc (p, t) \<longrightarrow>
            settled ids c b acc t n (logStore (nodes c j))))" if "(p, u, j) \<in> granted (remember (Timeout i) c h)" for p u j
        using new [OF that] I(3) by (auto simp: kept_def d(1))
      show "(q, x) \<in> set (asked c) \<or> (let e = last (logStore (nodes c (vCandidateID x))) in vLastLogTerm x = Term e \<and> vLastLogIndex x = Index e)"
        if "(q, x) \<in> set (asked d)" for q x
        using d(4) [OF that] call 2(3) me by (auto simp: Let_def)
    qed (simp_all add: d(2,3))
  qed
qed

lemma safe_inv_vote:
  assumes inv: "safe_inv ids c h b acc" and logs: "logs_inv ids c h b" and v: "votes_inv ids c h"
    and step: "vote_event p args c = Some d" and checked: "vote_checked (Vote p args) c"
  shows "safe_inv ids d (remember (Vote p args) c h) b acc"
proof -
  let ?i = "vCandidateID args"
  obtain reply rf where rv: "RequestVote args (nodes c p) = (reply, rf)" by (cases "RequestVote args (nodes c p)")
  have a: "(p, args) \<in> set (asked c)" using step by (auto simp: vote_event_def split: if_splits)
  have d: "nodes d = (nodes c)(p := rf)" "asked d = remove1 (p, args) (asked c)" "appends d = appends c" "acks d = acks c"
    using step a rv by (auto simp: vote_event_def)
  have I: "commit_ok ids b acc (nodes c p)" "match_ok ids acc p (nodes c p)" "calls_ok c b" using inv by (simp_all add: safe_inv_def)
  have f: "logStore rf = logStore (nodes c p)" "currentTerm (nodes c p) \<le> currentTerm rf" "commitIndex rf = commitIndex (nodes c p)"
    "lastApplied rf = lastApplied (nodes c p)" "applied rf = applied (nodes c p)" "matchIndex rf = matchIndex (nodes c p)"
    "state rf = Leader \<Longrightarrow> state (nodes c p) = Leader" "state rf = Leader \<Longrightarrow> currentTerm rf = currentTerm (nodes c p)"
    using rv by (auto simp: RequestVote_def Let_def split: if_splits)
  have "(p, vTerm args, ?i) \<in> set (pending c)" using a by (force simp: pending_def)
  then have le: "vTerm args \<le> currentTerm (nodes c ?i)" by (rule pending_facts(4) [OF v])
  have new: "(q, u, j) \<in> granted h \<or> u \<le> currentTerm (nodes d j) \<and>
      (lead b u = None \<longrightarrow> currentTerm (nodes d j) = u \<longrightarrow> (\<forall>t n. proposal b t n \<longrightarrow> t < u \<longrightarrow> n < acc (q, t) \<longrightarrow>
        settled ids c b acc t n (logStore (nodes c j))))" if G: "(q, u, j) \<in> granted (remember (Vote p args) c h)" for q u j
  proof (cases "(q, u, j) \<in> granted h")
    case False
    then have q: "rVoteGranted reply" "q = p" "u = vTerm args" "j = ?i" using G rv by (auto split: if_splits)
    have le': "currentTerm (nodes c ?i) \<le> currentTerm (nodes d ?i)" using f(2) by (simp add: d(1))
    have "settled ids c b acc t n (logStore (nodes c ?i))"
      if x: "lead b u = None" "currentTerm (nodes d ?i) = u" "proposal b t n" "n < acc (p, t)" for t n
    proof (rule vote_settled [OF inv logs x(3,4)])
      show "up_to_date args (logStore (nodes c p))" using checked q(1) rv by simp
      have "currentTerm (nodes c ?i) = vTerm args" using le le' x(2) q(3) by simp
      then show "let e = last (logStore (nodes c ?i)) in vLastLogTerm args = Term e \<and> vLastLogIndex args = Index e"
        using I(3) a x(1) q(3) unfolding calls_ok_def by blast
    qed
    then show ?thesis using q le le' by auto
  qed simp
  show ?thesis
  proof (rule safe_inv_same_log [OF inv v d(1) f(2,1) commit_ok_same [OF I(1) f(2,1,3,4,5)] _ new])
    show "match_ok ids acc p rf" using f by (intro match_ok_same [OF I(2)]) auto
    show "(q, x) \<in> set (asked c) \<or> (let e = last (logStore (nodes c (vCandidateID x))) in vLastLogTerm x = Term e \<and> vLastLogIndex x = Index e)"
      if "(q, x) \<in> set (asked d)" for q x
      using that set_remove1_subset [of "(p, args)" "asked c"] by (auto simp: d(2))
  qed (auto simp: d)
qed

lemma calm_book: "logs_inv ids c h b \<Longrightarrow> calm (nodes c i) rf \<Longrightarrow> logStore rf = logStore (nodes c i) \<Longrightarrow> enter i rf b = b"
  using node_ok_calm [of b i "nodes c i" rf] by (auto simp: logs_inv_def node_ok_def intro: enter_known)

lemma vote_reply_indexes:
  assumes "vote_reply args reply n rf = Some (m, rf')"
  shows "commitIndex rf' = commitIndex rf" "lastApplied rf' = lastApplied rf" "applied rf' = applied rf"
    and "state rf' = Leader \<Longrightarrow> state rf = Leader \<Longrightarrow> rf' = rf"
    and "state rf' = Leader \<Longrightarrow> state rf \<noteq> Leader \<Longrightarrow> p \<in> set (Peers rf) \<Longrightarrow> p \<noteq> rid rf \<Longrightarrow> matchIndex rf' p = 0"
  using assms by (auto simp: vote_reply_def convertToLeader_def convertToFollower_def split: if_splits option.splits)

lemma safe_inv_vote_reply:
  assumes inv: "safe_inv ids c h b acc" and logs: "logs_inv ids c h b" and v: "votes_inv ids c h" and ids: "cluster_ids ids"
    and step: "vote_reply_event p args reply c = Some d" and i: "i = vCandidateID args"
    and v': "votes_inv ids d h'" and g: "\<And>k. counted h k \<subseteq> counted h' k" "granted h' = granted h"
  shows "\<exists>acc'. safe_inv ids d h' (enter i (nodes d i) b) acc'"
proof -
  obtain n rf where rv: "vote_reply args reply (tally c (i, vTerm args)) (nodes c i) = Some (n, rf)"
    and d: "nodes d = (nodes c)(i := rf)" "asked d = asked c" "appends d = appends c" "acks d = acks c"
    and a: "(p, args, reply) \<in> set (votes c)"
    using step i by (auto simp: vote_reply_event_def Let_def split: if_splits option.splits)
  have me: "rid (nodes c i) = i" "Peers (nodes c i) = ids" using v by (simp_all add: votes_inv_def ids_ok_def)
  note log = vote_reply_calm(1) [OF rv] and same = vote_reply_indexes(1-3) [OF rv]
  show ?thesis
  proof (cases "state rf = Leader \<and> state (nodes c i) \<noteq> Leader")
    case True
    then have st: "state rf = Leader" "state (nodes c i) = Candidate" and t: "currentTerm rf = currentTerm (nodes c i)"
      using vote_reply_calm(2) [OF rv] by auto
    note fresh = elected_fresh [OF logs v' ids g(1) d(1) st t]
    have "(p, vTerm args, i) \<in> set (pending c)" using a i by (force simp: pending_def)
    then have "i \<in> set ids" by (rule pending_facts(2) [OF v])
    moreover have "\<forall>q \<in> set ids. q \<noteq> i \<longrightarrow> matchIndex rf q \<le> 0 \<or> nat (matchIndex rf q) < acc (q, currentTerm rf)"
      using vote_reply_indexes(5) [OF rv] True me by simp
    ultimately have "safe_inv ids d h' (enter i rf b) (acc((i, currentTerm rf) := length (logStore rf)))"
      using log fresh by (intro safe_inv_lead [OF inv logs v v' g(2) d st(1) refl t [symmetric] _ _ _ _ same, where m = "[]"]) simp_all
    then show ?thesis by (auto simp: d(1))
  next
    case False
    then have calm: "calm (nodes c i) rf" by (rule vote_reply_calm(3) [OF rv])
    then have tm: "currentTerm (nodes c i) \<le> currentTerm rf" by (simp add: calm_def)
    have I: "commit_ok ids b acc (nodes c i)" "match_ok ids acc i (nodes c i)" using inv by (simp_all add: safe_inv_def)
    have "match_ok ids acc i rf"
    proof (cases "state rf = Leader")
      case True
      then have "rf = nodes c i" using vote_reply_indexes(4) [OF rv] False by blast
      then show ?thesis using I(2) by simp
    qed (simp add: match_ok_def)
    then have "safe_inv ids d h' b acc"
      using commit_ok_same [OF I(1) tm log same] g(2)
      by (intro safe_inv_same_log [OF inv v d(1) tm log]) (simp_all add: d)
    moreover have "enter i (nodes d i) b = b" using calm_book [OF logs calm log] by (simp add: d(1))
    ultimately show ?thesis by auto
  qed
qed

lemma safe_inv_replicate:
  assumes inv: "safe_inv ids c h b acc" and logs: "logs_inv ids c h b" and v: "votes_inv ids c h"
    and step: "replicate_event i p c = Some d"
  shows "safe_inv ids d h b acc"
proof -
  have ok: "node_ok b i (nodes c i)" and me: "rid (nodes c i) = i" using logs v by (simp_all add: logs_inv_def votes_inv_def ids_ok_def)
  have I: "commit_ok ids b acc (nodes c i)" "match_ok ids acc i (nodes c i)" using inv by (simp_all add: safe_inv_def)
  consider "d = c" | args where "replicate_args p (nodes c i) = Some (Some args)" "p \<in> set (Peers (nodes c i))" "p \<noteq> i"
      "d = c\<lparr>appends := (p, args) # appends c\<rparr>"
    using step by (auto simp: replicate_event_def split: if_splits option.splits)
  then show ?thesis
  proof cases
    case (2 args)
    note M = replicate_msg [OF ok 2(1-3) me]
    have "state (nodes c i) = Leader" using 2(1) by (auto simp: replicate_args_def split: if_splits)
    then have l: "llog b (currentTerm (nodes c i)) = logStore (nodes c i)" using ok by (simp add: node_ok_def)
    have "int (covers args) = int (length (logStore (nodes c i)))" using M by (simp add: covers_def msg_ok_def)
    then have "aLeaderCommit args < int (covers args)" using M I(1) by (simp add: commit_ok_def applied_ok_def)
    moreover have "committed_upto ids b acc (aTerm args) (nat (aLeaderCommit args)) (llog b (aTerm args))"
      using M I(1) l by (simp add: commit_ok_def)
    ultimately show ?thesis using I
      by (intro safe_inv_same_log [OF inv v, of d i "nodes c i"]) (auto simp: 2(4))
  qed (use inv in simp)
qed

lemma safe_inv_propose:
  assumes inv: "safe_inv ids c h b acc" and logs: "logs_inv ids c h b" and v: "votes_inv ids c h"
    and pr: "Propose cmd (nodes c i) = Some (ans, rf)" and d: "d = set_node i rf c" and v': "votes_inv ids d h"
  shows "\<exists>acc'. safe_inv ids d h (enter i rf b) acc'"
proof (cases "state (nodes c i) = Leader")
  case True
  let ?l = "logStore (nodes c i)" and ?t = "currentTerm (nodes c i)"
  have L: "lead b ?t = Some i" "llog b ?t = ?l" using logs True by (simp_all add: logs_inv_def node_ok_def)
  have M: "match_ok ids acc i (nodes c i)" using inv by (simp add: safe_inv_def)
  obtain n where rf: "rf = (nodes c i)\<lparr>logStore := ?l @ [\<lparr>Term = ?t, Index = n, Command = cmd\<rparr>]\<rparr>"
    using pr True by (auto simp: Propose_def Let_def StoreLog_def StoreLogs_def split: option.splits)
  have "safe_inv ids d h (enter i rf b) (acc((i, ?t) := length (logStore rf)))"
    using True L M
    by (intro safe_inv_lead [OF inv logs v v' refl, where m = "[\<lparr>Term = ?t, Index = n, Command = cmd\<rparr>]"])
      (simp_all add: rf d set_node_def match_ok_def)
  then show ?thesis by blast
next
  case False
  then have "rf = nodes c i" using pr by (simp add: Propose_def)
  then show ?thesis using inv False by (auto simp: d set_node_def)
qed

lemma safe_inv_apply:
  assumes inv: "safe_inv ids c h b acc" and logs: "logs_inv ids c h b" and v: "votes_inv ids c h"
    and step: "applyLogs (nodes c i) = Some rf" and d: "d = set_node i rf c"
  shows "safe_inv ids d h b acc"
proof -
  have r: "rooted (logStore (nodes c i))" using logs by (simp add: logs_inv_def node_ok_def agrees_def)
  have I: "commit_ok ids b acc (nodes c i)" "match_ok ids acc i (nodes c i)" using inv by (simp_all add: safe_inv_def)
  then have "applied_ok (nodes c i)" by (simp add: commit_ok_def)
  note A = applyLogs_applied [OF this r step]
  have f: "currentTerm rf = currentTerm (nodes c i)" "state rf = state (nodes c i)" "matchIndex rf = matchIndex (nodes c i)"
    using step by (auto simp: applyLogs_def dest!: apply_loop_fields)
  have "commit_ok ids b acc rf" using A f I(1) by (simp add: commit_ok_def)
  moreover have "match_ok ids acc i rf" using A f by (intro match_ok_same [OF I(2)]) simp_all
  ultimately show ?thesis using A f by (intro safe_inv_same_log [OF inv v, of d i rf]) (simp_all add: d set_node_def)
qed

lemma safe_inv_step:
  assumes inv: "safe_inv ids c h b acc" and logs: "logs_inv ids c h b" and v: "votes_inv ids c h" and ids: "cluster_ids ids"
    and step: "cluster_step e c = Some d" and e: "\<And>i. e \<noteq> Restart i" "\<And>i k. e \<noteq> Compact i k" and checked: "vote_checked e c"
  shows "\<exists>acc'. safe_inv ids d (remember e c h) (remember_log e d b) acc'"
proof -
  note v' = votes_inv_step [OF v ids step e(1)] and g = counted_grows [OF v, of _ e]
  have book: "remember_log e d b = b" if "nodes d = (nodes c)(event_node e := rf)" "calm (nodes c (event_node e)) rf"
      "agrees b (logStore rf)" for rf
    using node_ok_calm [OF _ that(2,3)] logs enter_known that(1) by (simp add: remember_log_def logs_inv_def)
  have ag: "agrees b (logStore (nodes c i))" for i using logs by (simp add: logs_inv_def node_ok_def)
  have w: "wire_ok c b" using logs by (simp add: logs_inv_def)
  show ?thesis
  proof (cases e)
    case (Timeout i)
    obtain r rf where r: "election_timeout (nodes c i) = Some (r, rf)" "nodes d = (nodes c)(i := rf)"
      using step by (auto simp: Timeout timeout_event_def split: if_splits option.splits)
    then have "remember_log e d b = b" using timeout_calm [OF r(1)] ag by (intro book [of rf]) (simp_all add: Timeout)
    then show ?thesis using safe_inv_timeout [OF inv logs v] step unfolding Timeout by auto
  next
    case (Vote p args)
    obtain reply rf where r: "RequestVote args (nodes c p) = (reply, rf)" "nodes d = (nodes c)(p := rf)"
      using step by (auto simp: Vote vote_event_def split: if_splits prod.splits)
    then have "remember_log e d b = b" using RequestVote_calm [OF r(1)] ag by (intro book [of rf]) (simp_all add: Vote)
    then show ?thesis using safe_inv_vote [OF inv logs v _ checked [unfolded Vote]] step unfolding Vote by auto
  next
    case (VoteReply p args reply)
    have "granted (remember e c h) = granted h" by (simp add: VoteReply)
    from safe_inv_vote_reply [OF inv logs v ids _ refl v' g this] show ?thesis
      using step by (simp add: remember_log_def VoteReply)
  next
    case (Replicate i p)
    then have r: "replicate_event i p c = Some d" using step by simp
    then have "nodes d = (nodes c)(i := nodes c i)" by (auto simp: replicate_event_def split: if_splits option.splits)
    then have "remember_log e d b = b" using ag by (intro book [of "nodes c i"]) (simp_all add: Replicate calm_def)
    then show ?thesis using safe_inv_replicate [OF inv logs v r] by (auto simp: Replicate)
  next
    case (Append p args)
    obtain reply rf where r: "AppendEntries args (nodes c p) = Some (reply, rf)" "(p, args) \<in> set (appends c)"
      "nodes d = (nodes c)(p := rf)" "asked d = asked c" "appends d = remove1 (p, args) (appends c)" "acks d = (p, args, reply) # acks c"
      using step by (auto simp: Append append_event_def split: if_splits option.splits)
    have m: "msg_ok b args" "p \<noteq> aLeaderID args" using w r(2) by (auto simp: wire_ok_def)
    have "llog b (aTerm args) \<noteq> []" using m(1) by (auto simp: msg_ok_def Let_def)
    then have "agrees b (logStore rf)"
      using AppendEntries_agrees [OF r(1) ag _ m(1)] logs by (auto simp: logs_inv_def)
    moreover have "\<not> (state (nodes c p) = Leader \<and> currentTerm (nodes c p) = aTerm args)"
      using logs m by (auto simp: logs_inv_def node_ok_def msg_ok_def)
    ultimately have "remember_log e d b = b" using AppendEntries_calm [OF r(1)] r(3) by (intro book [of rf]) (simp_all add: Append)
    then show ?thesis using safe_inv_append [OF inv logs v ids r] by (simp add: Append)
  next
    case (AppendReply p args reply)
    let ?j = "aLeaderID args"
    obtain rf where r: "replicate_reply p args reply (nodes c ?j) = Some rf" "(p, args, reply) \<in> set (acks c)"
      "nodes d = (nodes c)(?j := rf)" "asked d = asked c" "appends d = appends c" "acks d = remove1 (p, args, reply) (acks c)"
      using step by (auto simp: AppendReply ack_event_def split: if_splits option.splits)
    have "0 \<le> aPrevLogIndex args" using w r(2) unfolding wire_ok_def by blast
    then have "remember_log e d b = b"
      using replicate_reply_calm [OF r(1)] ag r(3) by (intro book [of rf]) (simp_all add: AppendReply)
    then show ?thesis using safe_inv_ack [OF inv logs v ids r] by (auto simp: AppendReply)
  next
    case (Client i cmd)
    obtain ans rf where r: "Propose cmd (nodes c i) = Some (ans, rf)" "d = set_node i rf c"
      using step by (auto simp: Client local_event_def split: if_splits option.splits)
    have "remember e c h = h" by (simp add: Client)
    then show ?thesis using safe_inv_propose [OF inv logs v r] v' r(2) by (simp add: Client remember_log_def)
  next
    case (Apply i)
    obtain rf where r: "applyLogs (nodes c i) = Some rf" "d = set_node i rf c"
      using step by (auto simp: Apply local_event_def split: if_splits option.splits)
    then have "remember_log e d b = b" using applyLogs_calm [OF r(1)] ag by (intro book [of rf]) (simp_all add: Apply)
    then show ?thesis using safe_inv_apply [OF inv logs v r] by (auto simp: Apply)
  qed (use e in auto)
qed

end
