(* ===== verification/RaftSafetyProps.thy ===== *)
theory RaftSafetyProps
  imports RaftSteps "HOL-Library.Sublist"
begin

text \<open>
  What a cluster with checked votes promises, across any number of leaders: the commands the nodes apply
  are one sequence, and a later leader has every one of them.
\<close>

section \<open>Runs\<close>

lemma safe_inv_run:
  assumes "safe_inv ids c h b acc" and "logs_inv ids c h b" and "votes_inv ids c h" and "cluster_ids ids"
    and "no_restart es" and "no_compaction es" and "votes_checked es c" and "cluster_run es c = Some d"
  shows "\<exists>h' b' acc'. safe_inv ids d h' b' acc' \<and> logs_inv ids d h' b'"
  using assms
proof (induction es arbitrary: c h b acc)
  case Nil
  then show ?case by auto
next
  case (Cons e es)
  obtain c1 where c1: "cluster_step e c = Some c1" "cluster_run es c1 = Some d"
    using Cons.prems(8) by (auto split: option.splits)
  have e: "\<And>i. e \<noteq> Restart i" "\<And>i k. e \<noteq> Compact i k" and es: "no_restart es" "no_compaction es"
    using Cons.prems(5,6) by (auto simp: no_restart_def no_compaction_def)
  have k: "vote_checked e c" "votes_checked es c1" using Cons.prems(7) c1(1) by simp_all
  obtain acc1 where "safe_inv ids c1 (remember e c h) (remember_log e c1 b) acc1"
    using safe_inv_step [OF Cons.prems(1-4) c1(1) e k(1)] by blast
  from Cons.IH [OF this logs_inv_step [OF Cons.prems(2-4) c1(1) e] votes_inv_step [OF Cons.prems(3,4) c1(1) e(1)]
      Cons.prems(4) es k(2) c1(2)] show ?case .
qed

text \<open>The end of such a run: the invariant, without the history.\<close>

definition safe_end :: "node_id list \<Rightarrow> book \<Rightarrow> acceptance \<Rightarrow> cluster \<Rightarrow> bool" where
  "safe_end ids b acc c \<longleftrightarrow> (\<exists>h. safe_inv ids c h b acc \<and> logs_inv ids c h b) \<and> distinct ids"

lemma run_safe_end:
  assumes "cluster_ids ids" and "no_restart es" and "no_compaction es" and "votes_checked es (cluster_init ids)"
    and "cluster_run es (cluster_init ids) = Some c"
  shows "\<exists>b acc. safe_end ids b acc c"
  using safe_inv_run [OF safe_inv_init logs_inv_init votes_inv_init assms] assms(1)
  by (auto simp: safe_end_def cluster_ids_def)

text \<open>What two nodes have committed is the same.\<close>

lemma committed_agree_le:
  assumes E: "safe_end ids b acc c" and "chosen ids b acc t m" "k \<le> m" "take (Suc k) l = take (Suc k) (llog b t)"
    and w': "chosen ids b acc t' m'" "take (Suc k) l' = take (Suc k) (llog b t')" and "t \<le> t'" "0 < k"
  shows "take (Suc k) l = take (Suc k) l'"
proof -
  obtain h where h: "safe_inv ids c h b acc" "distinct ids" using E by (auto simp: safe_end_def)
  have "committed_upto ids b acc t k l" using assms(2-4) unfolding committed_upto_def by blast
  moreover have "lead b t' \<noteq> None" using w'(1) by (simp add: chosen_def proposal_def)
  ultimately show ?thesis using committed_in_leader [OF h] assms(7,8) w'(2) by metis
qed

lemma committed_agree:
  assumes E: "safe_end ids b acc c" and "committed_upto ids b acc T k l" and "committed_upto ids b acc T' k l'" and "0 < k"
  shows "take (Suc k) l = take (Suc k) l'"
proof -
  obtain t m where w: "chosen ids b acc t m" "k \<le> m" "take (Suc k) l = take (Suc k) (llog b t)"
    using assms(2,4) by (auto simp: committed_upto_def)
  obtain t' m' where w': "chosen ids b acc t' m'" "k \<le> m'" "take (Suc k) l' = take (Suc k) (llog b t')"
    using assms(3,4) by (auto simp: committed_upto_def)
  show ?thesis
  proof (cases "t \<le> t'")
    case True
    show ?thesis by (rule committed_agree_le [OF E w w'(1,3) True assms(4)])
  next
    case False
    then show ?thesis using committed_agree_le [OF E w' w(1,3) _ assms(4)] by simp
  qed
qed

lemma end_node:
  assumes "safe_end ids b acc c"
  shows "applied_ok (nodes c i)" "rooted (logStore (nodes c i))"
    "committed_upto ids b acc (currentTerm (nodes c i)) (nat (commitIndex (nodes c i))) (logStore (nodes c i))"
  using assms by (auto simp: safe_end_def safe_inv_def commit_ok_def logs_inv_def node_ok_def agrees_def)

text \<open>The node that has applied less has applied a beginning of what the other has.\<close>

lemma applied_prefix_le:
  assumes E: "safe_end ids b acc c" and le: "lastApplied (nodes c i) \<le> lastApplied (nodes c j)"
  shows "prefix (applied (nodes c i)) (applied (nodes c j))"
proof -
  let ?n = "nat (lastApplied (nodes c i))" and ?m = "nat (lastApplied (nodes c j))"
  let ?i = "logStore (nodes c i)" and ?j = "logStore (nodes c j)"
  have A: "applied_ok (nodes c i)" "applied_ok (nodes c j)" by (rule end_node [OF E])+
  then have n: "?n \<le> nat (commitIndex (nodes c i))" "?n \<le> nat (commitIndex (nodes c j))" "?n \<le> ?m"
    using le by (auto simp: applied_ok_def)
  have "take ?n (tl ?i) = take ?n (tl ?j)"
  proof (cases "?n = 0")
    case False
    have "take (Suc ?n) ?i = take (Suc ?n) ?j"
      using False
      by (intro committed_agree [OF E committed_upto_le [OF end_node(3) [OF E] n(1) order_refl]
            committed_upto_le [OF end_node(3) [OF E] n(2) order_refl]]) simp
    then have "tl (take (Suc ?n) ?i) = tl (take (Suc ?n) ?j)" by simp
    then show ?thesis by (simp add: tl_take)
  qed simp
  then have "applied (nodes c i) = take ?n (applied (nodes c j))"
    using A n(3) by (simp add: applied_ok_def take_map min_def)
  then show ?thesis by (metis take_is_prefix)
qed

lemma applied_prefix:
  assumes "safe_end ids b acc c"
  shows "prefix (applied (nodes c i)) (applied (nodes c j)) \<or> prefix (applied (nodes c j)) (applied (nodes c i))"
  using applied_prefix_le [OF assms] by (cases "lastApplied (nodes c i) \<le> lastApplied (nodes c j)") auto

text \<open>A log that has the committed entries of a node has its applied commands.\<close>

lemma applied_view:
  assumes E: "safe_end ids b acc c" and a: "(cmd, k) \<in> set (applied (nodes c i))"
  shows "0 < k" "k \<le> commitIndex (nodes c i)" and "rooted l \<Longrightarrow> take (Suc (nat k)) l = take (Suc (nat k)) (logStore (nodes c i)) \<Longrightarrow>
      map_option Command (log_view l k) = Some cmd"
proof -
  let ?l = "logStore (nodes c i)"
  have A: "applied_ok (nodes c i)" and r: "rooted ?l" by (rule end_node [OF E])+
  then obtain m where m: "m < nat (lastApplied (nodes c i))" "m < length (tl ?l)" "message (tl ?l ! m) = (cmd, k)"
    using a by (auto simp: applied_ok_def in_set_conv_nth)
  have s: "Suc m < length ?l" "?l ! Suc m = tl ?l ! m" using m(2) by (simp_all add: nth_tl)
  have k: "k = int (Suc m)" "Command (?l ! Suc m) = cmd" using m(3) s rooted_nth [OF r s(1)] by (simp_all add: message_def)
  have nk: "nat k = Suc m" unfolding k(1) by (rule nat_int)
  show "0 < k" "k \<le> commitIndex (nodes c i)" using k(1) m(1) A by (auto simp: applied_ok_def)
  assume l: "rooted l" "take (Suc (nat k)) l = take (Suc (nat k)) ?l"
  have "Suc m < length l" using arg_cong [OF l(2), of length] s(1) nk by (simp add: min_def split: if_splits)
  moreover have "l ! Suc m = ?l ! Suc m" using arg_cong [OF l(2), of "\<lambda>x. x ! Suc m"] nk by simp
  ultimately show "map_option Command (log_view l k) = Some cmd" using rooted_view [OF l(1), of k] k nk by simp
qed

section \<open>Two leaders\<close>

text \<open>
  The run of \<open>committed\<close> goes on: b, which has the command, is elected in term 2 by c, adds a second command,
  replicates it to the old leader a, commits and applies both.
\<close>

definition two_leaders :: "event list" where
  "two_leaders = committed @ Timeout ''b'' # ask ''c'' (vote_call 2 ''b'' 1 1) @ [Client ''b'' ''y'', Replicate ''b'' ''a'',
     Append ''a'' \<lparr>aTerm = 2, aLeaderID = ''b'', aPrevLogIndex = 1, aPrevLogTerm = 1, aEntries = [entry 2 2 ''y''], aLeaderCommit = 0\<rparr>,
     AppendReply ''a'' \<lparr>aTerm = 2, aLeaderID = ''b'', aPrevLogIndex = 1, aPrevLogTerm = 1, aEntries = [entry 2 2 ''y''], aLeaderCommit = 0\<rparr>
       \<lparr>eTerm = 1, eSuccess = True\<rparr>, Apply ''b'']"

lemma two_leaders_run:
  "\<exists>c. cluster_run two_leaders (cluster_init [''a'', ''b'', ''c'']) = Some c \<and> applied (nodes c ''a'') = [(''x'', 1)] \<and>
     applied (nodes c ''b'') = [(''x'', 1), (''y'', 2)] \<and> state (nodes c ''b'') = Leader \<and>
     currentTerm (nodes c ''a'') = 2 \<and> currentTerm (nodes c ''b'') = 2"
  "votes_checked two_leaders (cluster_init [''a'', ''b'', ''c''])" "no_restart two_leaders" "no_compaction two_leaders"
proof -
  have "map_option (\<lambda>c. (applied (nodes c ''a''), applied (nodes c ''b''), state (nodes c ''b''), currentTerm (nodes c ''a''),
      currentTerm (nodes c ''b''))) (cluster_run two_leaders (cluster_init [''a'', ''b'', ''c''])) =
      Some ([(''x'', 1)], [(''x'', 1), (''y'', 2)], Leader, 2, 2)"
    by code_simp
  then show "\<exists>c. cluster_run two_leaders (cluster_init [''a'', ''b'', ''c'']) = Some c \<and> applied (nodes c ''a'') = [(''x'', 1)] \<and>
     applied (nodes c ''b'') = [(''x'', 1), (''y'', 2)] \<and> state (nodes c ''b'') = Leader \<and>
     currentTerm (nodes c ''a'') = 2 \<and> currentTerm (nodes c ''b'') = 2" by auto
  show "votes_checked two_leaders (cluster_init [''a'', ''b'', ''c''])" by code_simp
  show "no_restart two_leaders" "no_compaction two_leaders"
    by (simp_all add: no_restart_def no_compaction_def two_leaders_def committed_def replicated_def ask_def)
qed

section \<open>Applied commands are safe\<close>

text \<open>C4. Leader completeness. In every run without a restart and without a compaction in which every vote is given to a
  candidate whose log is up to date, with any number of leaders and whatever is lost, delayed or reordered: a
  command that some node has handed to its state machine is, at its index, in the logs of a majority, and in the
  log of every leader whose term is not before the node's.\<close>

theorem leader_completeness:
  assumes "cluster_ids ids" and "no_restart es" and "no_compaction es" and "votes_checked es (cluster_init ids)"
    and "cluster_run es (cluster_init ids) = Some c" and a: "(cmd, k) \<in> set (applied (nodes c i))"
  shows "length ids div 2 < card {p \<in> set ids. map_option Command (log_view (logStore (nodes c p)) k) = Some cmd} \<and>
    (\<forall>j. state (nodes c j) = Leader \<and> currentTerm (nodes c i) \<le> currentTerm (nodes c j) \<longrightarrow>
      map_option Command (log_view (logStore (nodes c j)) k) = Some cmd)"
proof -
  obtain b acc where E: "safe_end ids b acc c" using run_safe_end [OF assms(1-5)] by blast
  then obtain h where h: "safe_inv ids c h b acc" "logs_inv ids c h b" "distinct ids" by (auto simp: safe_end_def)
  let ?l = "logStore (nodes c i)"
  note k = applied_view(1,2) [OF E a] and view = applied_view(3) [OF E a]
  have rt: "rooted (logStore (nodes c p))" for p by (rule end_node(2) [OF E])
  have K: "committed_upto ids b acc (currentTerm (nodes c i)) (nat k) ?l" "0 < nat k"
    using committed_upto_le [OF end_node(3) [OF E] nat_mono [OF k(2)] order_refl] k(1) by simp_all
  then obtain t m where w: "chosen ids b acc t m" "nat k \<le> m" "take (Suc (nat k)) ?l = take (Suc (nat k)) (llog b t)"
    by (auto simp: committed_upto_def)
  have "{p \<in> set ids. m < acc (p, t)} \<subseteq> {p \<in> set ids. map_option Command (log_view (logStore (nodes c p)) k) = Some cmd}"
  proof
    fix p assume p: "p \<in> {p \<in> set ids. m < acc (p, t)}"
    then have "settled ids c b acc t m (logStore (nodes c p))" using h(1) w(1) by (simp add: safe_inv_def kept_def chosen_def)
    then have "holds b t m (logStore (nodes c p))" by (rule chosen_settled [OF h(3) w(1)])
    then have "take (Suc (nat k)) (take (Suc m) (logStore (nodes c p))) = take (Suc (nat k)) (take (Suc m) (llog b t))"
      by (simp add: holds_def)
    then have "take (Suc (nat k)) (logStore (nodes c p)) = take (Suc (nat k)) ?l" using w(2,3) by (simp add: min_def)
    then show "p \<in> {p \<in> set ids. map_option Command (log_view (logStore (nodes c p)) k) = Some cmd}"
      using view [OF rt] p by simp
  qed
  then have "card {p \<in> set ids. m < acc (p, t)} \<le>
      card {p \<in> set ids. map_option Command (log_view (logStore (nodes c p)) k) = Some cmd}" by (intro card_mono) simp_all
  moreover have "map_option Command (log_view (logStore (nodes c j)) k) = Some cmd"
    if "state (nodes c j) = Leader" "currentTerm (nodes c i) \<le> currentTerm (nodes c j)" for j
  proof -
    have "lead b (currentTerm (nodes c j)) \<noteq> None" "llog b (currentTerm (nodes c j)) = logStore (nodes c j)"
      using h(2) that(1) by (auto simp: logs_inv_def node_ok_def)
    then show ?thesis using view [OF rt] committed_in_leader [OF h(1,3) K _ that(2)] by simp
  qed
  ultimately show ?thesis using w(1) by (auto simp: chosen_def)
qed

lemma leader_completeness_witness:
  "\<exists>c. cluster_run two_leaders (cluster_init [''a'', ''b'', ''c'']) = Some c \<and> applied (nodes c ''a'') = [(''x'', 1)] \<and>
     map_option Command (log_view (logStore (nodes c ''b'')) 1) = Some ''x''"
proof -
  let ?ids = "[''a'', ''b'', ''c'']"
  obtain c where c: "cluster_run two_leaders (cluster_init ?ids) = Some c" "applied (nodes c ''a'') = [(''x'', 1)]"
    "state (nodes c ''b'') = Leader" "currentTerm (nodes c ''a'') = 2" "currentTerm (nodes c ''b'') = 2"
    using two_leaders_run(1) by blast
  have "(''x'', 1) \<in> set (applied (nodes c ''a''))" by (simp add: c(2))
  from leader_completeness [OF committed_run(3) two_leaders_run(3,4,2) c(1) this] show ?thesis
    using c by (intro exI [of _ c]) simp
qed

end
