(* ===== verification/ReplicaProps.thy ===== *)
theory ReplicaProps
  imports ControllerProps RaftSafetyProps
begin

text \<open>
  Raft and the queue together: the nodes of a cluster as replicas of one job table. \<open>decode\<close> is the JSON
  decoder that \<open>handleRaftCommand\<close> applies to a command.
\<close>

definition decoded :: "(command \<Rightarrow> raft_command) \<Rightarrow> (command \<times> int) list \<Rightarrow> raft_command list" where
  "decoded decode ms = map (decode \<circ> fst) ms"

lemma replica_status:
  assumes "length clock = length ms"
  shows "job_status (apply_log (zip clock (decoded decode ms)) NewJobManager) = fold command_status (decoded decode ms) (\<lambda>_. None)"
proof -
  have "job_status NewJobManager = (\<lambda>_. None)" by (simp add: fun_eq_iff job_status_def NewJobManager_def)
  moreover have "map snd (zip clock (decoded decode ms)) = decoded decode ms" using assms by (simp add: decoded_def)
  ultimately show ?thesis using apply_log_status [OF jm_named_new, of "zip clock (decoded decode ms)"] by simp
qed

text \<open>C6. One history. In every run without a restart and without a compaction whose leaders are all of one term,
  whatever is lost, delayed, repeated or reordered, there is one sequence of commands such that every node has
  applied its first \<open>lastApplied\<close> commands, in order, each once; and a replica that runs them, at whatever
  times, has the job statuses that the sequence gives. Two nodes that have applied equally many agree.\<close>

theorem replicas_run_one_history:
  assumes "cluster_ids ids" and "no_restart es" and "no_compaction es" and "one_leadership t es (cluster_init ids)"
    and "cluster_run es (cluster_init ids) = Some c"
  shows "\<exists>L. \<forall>i. applied (nodes c i) = take (nat (lastApplied (nodes c i))) L \<and>
    (\<forall>clock. length clock = length (applied (nodes c i)) \<longrightarrow>
      job_status (apply_log (zip clock (decoded decode (applied (nodes c i)))) NewJobManager) =
        fold command_status (decoded decode (take (nat (lastApplied (nodes c i))) L)) (\<lambda>_. None))"
proof -
  obtain L where L: "follows ids L c" using run_follows [OF assms] by blast
  show ?thesis
  proof (intro exI [of _ "map message L"] allI conjI impI)
    fix i :: node_id and clock :: "int list"
    show a: "applied (nodes c i) = take (nat (lastApplied (nodes c i))) (map message L)" by (rule follows_applied [OF L])
    assume "length clock = length (applied (nodes c i))"
    then show "job_status (apply_log (zip clock (decoded decode (applied (nodes c i)))) NewJobManager) =
        fold command_status (decoded decode (take (nat (lastApplied (nodes c i))) (map message L))) (\<lambda>_. None)"
      using replica_status a by metis
  qed
qed

lemma replicas_run_one_history_witness:
  "\<exists>c :: cluster. applied (nodes c ''a'') = [(''x'', 1)] \<and>
    job_status (apply_log (zip [5] (decoded (\<lambda>_. CmdEnqueue [job_named ''j'']) (applied (nodes c ''a'')))) NewJobManager) ''j'' =
      Some StatusPending"
proof -
  let ?ids = "[''a'', ''b'', ''c'']" and ?decode = "\<lambda>_::command. CmdEnqueue [job_named ''j'']"
  obtain c :: cluster where c: "cluster_run committed (cluster_init ?ids) = Some c" "applied (nodes c ''a'') = [(''x'', 1)]"
    using committed_run(1) by blast
  obtain L where L: "applied (nodes c ''a'') = take (nat (lastApplied (nodes c ''a''))) L"
    "\<forall>clock. length clock = length (applied (nodes c ''a'')) \<longrightarrow>
      job_status (apply_log (zip clock (decoded ?decode (applied (nodes c ''a'')))) NewJobManager) =
        fold command_status (decoded ?decode (take (nat (lastApplied (nodes c ''a''))) L)) (\<lambda>_. None)"
    using replicas_run_one_history [OF committed_run(3-5,2) c(1), of ?decode] by blast
  have "job_status (apply_log (zip [5] (decoded ?decode (applied (nodes c ''a'')))) NewJobManager) =
      fold command_status (decoded ?decode (applied (nodes c ''a''))) (\<lambda>_. None)"
    using L(2) [rule_format, of "[5]"] c(2) L(1) by simp
  then show ?thesis using c(2) by (intro exI [of _ c]) (simp add: decoded_def job_named_def)
qed

text \<open>C2. State machine safety. In every run without a restart and without a compaction in which every vote is given
  to a candidate whose log is up to date, with any number of leaders and whatever is lost, delayed or reordered:
  of any two nodes one has applied a beginning of what the other has applied, and two nodes that have applied
  equally many commands have the same job statuses, whenever they ran them.\<close>

theorem state_machine_safety:
  assumes "cluster_ids ids" and "no_restart es" and "no_compaction es" and "votes_checked es (cluster_init ids)"
    and "cluster_run es (cluster_init ids) = Some c"
  shows "(prefix (applied (nodes c i)) (applied (nodes c j)) \<or> prefix (applied (nodes c j)) (applied (nodes c i))) \<and>
    (\<forall>clock clock'. length (applied (nodes c i)) = length (applied (nodes c j)) \<longrightarrow>
      length clock = length (applied (nodes c i)) \<longrightarrow> length clock' = length (applied (nodes c j)) \<longrightarrow>
      job_status (apply_log (zip clock (decoded decode (applied (nodes c i)))) NewJobManager) =
        job_status (apply_log (zip clock' (decoded decode (applied (nodes c j)))) NewJobManager))"
proof -
  obtain b acc where E: "safe_end ids b acc c" using run_safe_end [OF assms] by blast
  note P = applied_prefix [OF E, of i j]
  have "applied (nodes c i) = applied (nodes c j)" if "length (applied (nodes c i)) = length (applied (nodes c j))"
    using P that by (auto simp: prefix_def)
  then show ?thesis using P by (auto simp only: replica_status)
qed

lemma state_machine_safety_witness:
  "\<exists>c :: cluster. applied (nodes c ''a'') = [(''x'', 1)] \<and> applied (nodes c ''b'') = [(''x'', 1), (''y'', 2)] \<and>
    prefix (applied (nodes c ''a'')) (applied (nodes c ''b''))"
proof -
  obtain c :: cluster where c: "cluster_run two_leaders (cluster_init [''a'', ''b'', ''c'']) = Some c"
    "applied (nodes c ''a'') = [(''x'', 1)]" "applied (nodes c ''b'') = [(''x'', 1), (''y'', 2)]"
    using two_leaders_run(1) by blast
  have "prefix (applied (nodes c ''a'')) (applied (nodes c ''b'')) \<or> prefix (applied (nodes c ''b'')) (applied (nodes c ''a''))"
    using state_machine_safety [OF committed_run(3) two_leaders_run(3,4,2) c(1)] by blast
  then show ?thesis using c by (intro exI [of _ c]) (auto simp: prefix_def)
qed

end
