(* ===== verification/RaftTimers.thy ===== *)
theory RaftTimers
  imports RaftMatching Worker
begin

text \<open>
  One Raft node with its clock: the election timer, the goroutines \<open>runElectionLoop\<close> and \<open>runHeartbeatLoop\<close>, and
  \<open>Stop\<close>. Times are in nanoseconds. The random numbers and the times at which the steps happen are arguments.
\<close>

section \<open>The timer\<close>

text \<open>\<open>rand.Int63n\<close> panics for a bound that is not positive; \<open>r\<close> is what the generator draws.\<close>

definition Int63n :: "int \<Rightarrow> int \<Rightarrow> int option" where
  "Int63n r n = (if n \<le> 0 then None else Some (r mod n))"

definition randomElectionTimeout :: "int \<Rightarrow> int \<Rightarrow> int option" where
  "randomElectionTimeout electionTimeout r =
     (case Int63n r electionTimeout of None \<Rightarrow> None | Some extra \<Rightarrow> Some (wrap64 (electionTimeout + extra)))"

text \<open>Where the goroutine of the election loop is: in its \<open>select\<close>, before the lock with a tick received, or returned.\<close>

datatype election_loop = AtSelect | AtLock | Returned

text \<open>\<open>due\<close>: when the timer fires, \<^term>\<open>None\<close> if it has fired or is stopped. A channel of a timer holds nothing after
  \<open>Stop\<close> or \<open>Reset\<close> (the module asks for Go 1.23), so draining it takes nothing away.\<close>

record TimedNode =
  traft :: Raft
  due :: "int option"
  eloop :: election_loop
  tstopped :: bool

definition resetElectionTimer :: "int \<Rightarrow> int \<Rightarrow> int \<Rightarrow> TimedNode \<Rightarrow> TimedNode option" where
  "resetElectionTimer electionTimeout now r tn =
     (case randomElectionTimeout electionTimeout r of None \<Rightarrow> None | Some d \<Rightarrow> Some (tn\<lparr>due := Some (now + d)\<rparr>))"

text \<open>\<open>NewRaft\<close> with the timer, and \<open>Start\<close>. A ticker of a non-positive interval panics.\<close>

definition StartTimed :: "int \<Rightarrow> int \<Rightarrow> int \<Rightarrow> int \<Rightarrow> node_id \<Rightarrow> node_id list \<Rightarrow> TimedNode option" where
  "StartTimed electionTimeout heartbeatInterval now r i peers =
     (if heartbeatInterval \<le> 0 then None
      else resetElectionTimer electionTimeout now r
        \<lparr>traft = NewRaft i peers NewMemoryLogStore, due = None, eloop = AtSelect, tstopped = False\<rparr>)"

section \<open>The loops\<close>

text \<open>What a step sends or answers.\<close>

datatype timed_out = Silent | Calls RequestVoteArgs | Beats "node_id list" | Voted RequestVoteReply | Appended AppendEntriesReply

text \<open>The timer's case of the \<open>select\<close>: the tick is taken before the lock.\<close>

definition take_tick :: "int \<Rightarrow> TimedNode \<Rightarrow> TimedNode option" where
  "take_tick now tn =
     (if eloop tn \<noteq> AtSelect then None
      else case due tn of
             None \<Rightarrow> None
           | Some d \<Rightarrow> if now < d then None else Some (tn\<lparr>due := None, eloop := AtLock\<rparr>))"

text \<open>Its body, under the lock.\<close>

definition run_tick :: "int \<Rightarrow> int \<Rightarrow> int \<Rightarrow> TimedNode \<Rightarrow> (timed_out \<times> TimedNode) option" where
  "run_tick electionTimeout now r tn =
     (if eloop tn \<noteq> AtLock then None
      else case election_timeout (traft tn) of
             None \<Rightarrow> None
           | Some (calls, rf) \<Rightarrow>
               (case resetElectionTimer electionTimeout now r (tn\<lparr>traft := rf, eloop := AtSelect\<rparr>) of
                  None \<Rightarrow> None
                | Some tn' \<Rightarrow> Some (case calls of None \<Rightarrow> Silent | Some args \<Rightarrow> Calls args, tn')))"

text \<open>The other case: the channel \<open>stopCh\<close> is closed.\<close>

definition loop_returns :: "TimedNode \<Rightarrow> TimedNode option" where
  "loop_returns tn = (if eloop tn = AtSelect \<and> tstopped tn then Some (tn\<lparr>eloop := Returned\<rparr>) else None)"

text \<open>A tick of the heartbeat loop: one goroutine \<open>replicateToPeer\<close> for every other node.\<close>

definition run_heartbeat :: "TimedNode \<Rightarrow> timed_out" where
  "run_heartbeat tn = (if state (traft tn) = Leader
     then Beats (filter (\<lambda>p. p \<noteq> rid (traft tn)) (Peers (traft tn))) else Silent)"

text \<open>\<open>Stop\<close> closes a channel: a second call panics.\<close>

definition StopTimed :: "TimedNode \<Rightarrow> TimedNode option" where
  "StopTimed tn = (if tstopped tn then None else Some (tn\<lparr>tstopped := True, due := None\<rparr>))"

section \<open>The handlers\<close>

definition timed_vote :: "int \<Rightarrow> int \<Rightarrow> int \<Rightarrow> RequestVoteArgs \<Rightarrow> TimedNode \<Rightarrow> (timed_out \<times> TimedNode) option" where
  "timed_vote electionTimeout now r args tn =
     (let (reply, rf) = RequestVote args (traft tn); tn1 = tn\<lparr>traft := rf\<rparr>
      in map_option (Pair (Voted reply)) (if rVoteGranted reply then resetElectionTimer electionTimeout now r tn1 else Some tn1))"

text \<open>A message of an old term leaves the timer alone. One of a new term resets it twice, the second time here.\<close>

definition timed_append :: "int \<Rightarrow> int \<Rightarrow> int \<Rightarrow> AppendEntriesArgs \<Rightarrow> TimedNode \<Rightarrow> (timed_out \<times> TimedNode) option" where
  "timed_append electionTimeout now r args tn =
     (case AppendEntries args (traft tn) of
        None \<Rightarrow> None
      | Some (reply, rf) \<Rightarrow>
          map_option (Pair (Appended reply)) (if aTerm args < currentTerm (traft tn) then Some (tn\<lparr>traft := rf\<rparr>)
            else resetElectionTimer electionTimeout now r (tn\<lparr>traft := rf\<rparr>)))"

text \<open>An answer with a higher term makes a follower, which resets the timer.\<close>

definition after_reply :: "int \<Rightarrow> int \<Rightarrow> int \<Rightarrow> Raft \<Rightarrow> TimedNode \<Rightarrow> TimedNode option" where
  "after_reply electionTimeout now r rf tn =
     (if currentTerm (traft tn) < currentTerm rf then resetElectionTimer electionTimeout now r (tn\<lparr>traft := rf\<rparr>)
      else Some (tn\<lparr>traft := rf\<rparr>))"

datatype timed_event =
    TakeTick
  | RunTick int
  | LoopReturns
  | HeartbeatTick
  | StopNode
  | GetVoteCall int RequestVoteArgs
  | GetAppend int AppendEntriesArgs
  | GetVoteReply int RequestVoteArgs RequestVoteReply nat
  | GetAppendReply int node_id AppendEntriesArgs AppendEntriesReply
  | ClientCall command
  | ApplyCommitted

fun timed_step :: "int \<Rightarrow> int \<Rightarrow> timed_event \<Rightarrow> TimedNode \<Rightarrow> (timed_out \<times> TimedNode) option" where
  "timed_step T now TakeTick tn = map_option (Pair Silent) (take_tick now tn)"
| "timed_step T now (RunTick r) tn = run_tick T now r tn"
| "timed_step T now LoopReturns tn = map_option (Pair Silent) (loop_returns tn)"
| "timed_step T now HeartbeatTick tn = Some (run_heartbeat tn, tn)"
| "timed_step T now StopNode tn = map_option (Pair Silent) (StopTimed tn)"
| "timed_step T now (GetVoteCall r args) tn = timed_vote T now r args tn"
| "timed_step T now (GetAppend r args) tn = timed_append T now r args tn"
| "timed_step T now (GetVoteReply r args reply n) tn =
     (case vote_reply args reply n (traft tn) of None \<Rightarrow> None
      | Some (m, rf) \<Rightarrow> map_option (Pair Silent) (after_reply T now r rf tn))"
| "timed_step T now (GetAppendReply r p args reply) tn =
     (case replicate_reply p args reply (traft tn) of None \<Rightarrow> None
      | Some rf \<Rightarrow> map_option (Pair Silent) (after_reply T now r rf tn))"
| "timed_step T now (ClientCall cmd) tn =
     (case Propose cmd (traft tn) of None \<Rightarrow> None | Some (ans, rf) \<Rightarrow> Some (Silent, tn\<lparr>traft := rf\<rparr>))"
| "timed_step T now ApplyCommitted tn =
     (case applyLogs (traft tn) of None \<Rightarrow> None | Some rf \<Rightarrow> Some (Silent, tn\<lparr>traft := rf\<rparr>))"

fun timed_run :: "int \<Rightarrow> (int \<times> timed_event) list \<Rightarrow> TimedNode \<Rightarrow> (timed_out list \<times> TimedNode) option" where
  "timed_run T [] tn = Some ([], tn)"
| "timed_run T ((now, e) # es) tn =
     (case timed_step T now e tn of
        None \<Rightarrow> None
      | Some (out, tn1) \<Rightarrow> (case timed_run T es tn1 of None \<Rightarrow> None | Some (outs, tn') \<Rightarrow> Some (out # outs, tn')))"

section \<open>How long the timer runs\<close>

text \<open>At least the configured timeout and less than twice that, while twice that fits into 63 bits.\<close>

lemma randomElectionTimeout_bounds:
  assumes "0 < T" and "T < 2 ^ 62"
  shows "\<exists>d. randomElectionTimeout T r = Some d \<and> T \<le> d \<and> d < 2 * T"
proof -
  have x: "0 \<le> r mod T" "r mod T < T" using assms(1) by simp_all
  have "T < 4611686018427387904" using assms(2) by simp
  then have "0 \<le> T + r mod T + 9223372036854775808" "T + r mod T + 9223372036854775808 < 18446744073709551616"
    using x assms(1) by linarith+
  then have "wrap64 (T + r mod T) = T + r mod T" by (simp add: wrap64_def mod_pos_pos_trivial)
  then show ?thesis using x assms(1) by (simp add: randomElectionTimeout_def Int63n_def)
qed

lemma resetElectionTimer_due:
  assumes "resetElectionTimer T now r tn = Some tn'" and "0 < T" and "T < 2 ^ 62"
  shows "\<exists>d. tn' = tn\<lparr>due := Some d\<rparr> \<and> now + T \<le> d \<and> d < now + 2 * T"
proof -
  obtain d where d: "randomElectionTimeout T r = Some d" "T \<le> d" "d < 2 * T"
    using randomElectionTimeout_bounds [OF assms(2,3)] by blast
  then have "tn' = tn\<lparr>due := Some (now + d)\<rparr>" using assms(1) by (simp add: resetElectionTimer_def)
  then show ?thesis using d by (intro exI [of _ "now + d"]) simp
qed

section \<open>A follower that hears its leader\<close>

text \<open>Every step comes before the timeout counted from the last message of the leader of term \<open>u\<close>, and no call
  has a higher term.\<close>

fun heard_within :: "int \<Rightarrow> int \<Rightarrow> int \<Rightarrow> (int \<times> timed_event) list \<Rightarrow> bool" where
  "heard_within T u heard_at [] = True"
| "heard_within T u heard_at ((now, e) # es) =
     (heard_at \<le> now \<and> now < heard_at + T \<and>
      (case e of
         GetAppend r args \<Rightarrow> aTerm args \<le> u \<and> heard_within T u (if aTerm args = u then now else heard_at) es
       | GetVoteCall r args \<Rightarrow> vTerm args \<le> u \<and> heard_within T u heard_at es
       | _ \<Rightarrow> heard_within T u heard_at es))"

definition follows_leader :: "int \<Rightarrow> int \<Rightarrow> int \<Rightarrow> TimedNode \<Rightarrow> bool" where
  "follows_leader T u heard_at tn \<longleftrightarrow> state (traft tn) = Follower \<and> currentTerm (traft tn) = u \<and> eloop tn \<noteq> AtLock \<and>
     (\<forall>d. due tn = Some d \<longrightarrow> heard_at + T \<le> d)"

lemma AppendEntries_follower:
  assumes "AppendEntries args rf = Some (reply, rf')" and "aTerm args \<le> currentTerm rf"
  shows "state rf' = state rf \<and> currentTerm rf' = currentTerm rf"
proof -
  have "state (heard args rf) = state rf \<and> currentTerm (heard args rf) = currentTerm rf" using assms(2) by (simp add: heard_def)
  moreover have "\<exists>n. r' = r\<lparr>commitIndex := n\<rparr>" if "advance_commit lc r = Some r'" for lc r r'
    using that by (auto simp: advance_commit_def intro: exI [of _ "commitIndex r"] split: if_splits option.splits)
  ultimately show ?thesis using AppendEntries_outcome [OF assms(1)] by fastforce
qed

lemma RequestVote_follower:
  "RequestVote args rf = (reply, rf') \<Longrightarrow> vTerm args \<le> currentTerm rf \<Longrightarrow> state rf' = state rf \<and> currentTerm rf' = currentTerm rf"
  by (auto simp: RequestVote_def Let_def split: if_splits)

lemma follows_leader_same:
  "follows_leader T u l tn \<Longrightarrow> state rf = state (traft tn) \<Longrightarrow> currentTerm rf = currentTerm (traft tn) \<Longrightarrow>
   follows_leader T u l (tn\<lparr>traft := rf\<rparr>)"
  by (simp add: follows_leader_def)

lemma follows_leader_reset:
  assumes "follows_leader T u l tn" and "resetElectionTimer T now r tn = Some tn'" and "l' \<le> now" and "0 < T" "T < 2 ^ 62"
  shows "follows_leader T u l' tn'"
  using resetElectionTimer_due [OF assms(2,4,5)] assms(1,3) by (auto simp: follows_leader_def)

lemma follows_leader_step:
  assumes inv: "follows_leader T u l tn" and T: "0 < T" "T < 2 ^ 62" and h: "heard_within T u l ((now, e) # es)"
    and step: "timed_step T now e tn = Some (out, tn')"
  shows "(\<forall>args. out \<noteq> Calls args) \<and> (\<exists>l'. follows_leader T u l' tn' \<and> heard_within T u l' es)"
proof -
  have F: "state (traft tn) = Follower" "currentTerm (traft tn) = u" "eloop tn \<noteq> AtLock" and le: "l \<le> now" "now < l + T"
    using inv h by (simp_all add: follows_leader_def)
  note same = follows_leader_same [OF inv] and reset = follows_leader_reset [OF _ _ _ T]
  show ?thesis
  proof (cases e)
    case TakeTick
    then show ?thesis using step inv le by (auto simp: take_tick_def follows_leader_def split: if_splits option.splits)
  next
    case (RunTick r)
    then show ?thesis using step F by (simp add: run_tick_def)
  next
    case LoopReturns
    then show ?thesis using step inv h by (auto simp: loop_returns_def follows_leader_def split: if_splits)
  next
    case HeartbeatTick
    then show ?thesis using step inv h F by (auto simp: run_heartbeat_def)
  next
    case StopNode
    then show ?thesis using step inv h by (auto simp: StopTimed_def follows_leader_def split: if_splits)
  next
    case (GetVoteCall r args)
    obtain reply rf where r: "RequestVote args (traft tn) = (reply, rf)" by (cases "RequestVote args (traft tn)")
    then have "follows_leader T u l (tn\<lparr>traft := rf\<rparr>)" using RequestVote_follower [OF r] F h GetVoteCall by (intro same) simp_all
    then show ?thesis using step h r reset [OF _ _ le(1)] by (fastforce simp: GetVoteCall timed_vote_def Let_def split: if_splits)
  next
    case (GetAppend r args)
    obtain reply rf where r: "AppendEntries args (traft tn) = Some (reply, rf)"
      using step by (auto simp: GetAppend timed_append_def split: option.splits)
    then have "follows_leader T u l (tn\<lparr>traft := rf\<rparr>)" using AppendEntries_follower [OF r] F h GetAppend by (intro same) simp_all
    then show ?thesis using step h r reset [OF _ _ order_refl] F(2) by (fastforce simp: GetAppend timed_append_def split: if_splits)
  next
    case (GetVoteReply r args reply n)
    then show ?thesis using step inv h F by (auto simp: vote_reply_def after_reply_def)
  next
    case (GetAppendReply r p args reply)
    then show ?thesis using step inv h F by (auto simp: replicate_reply_def after_reply_def)
  next
    case (ClientCall cmd)
    then show ?thesis using step inv h F by (auto simp: Propose_def)
  next
    case ApplyCommitted
    obtain rf where r: "applyLogs (traft tn) = Some rf" using step by (auto simp: ApplyCommitted split: option.splits)
    then have "state rf = state (traft tn) \<and> currentTerm rf = currentTerm (traft tn)"
      by (auto simp: applyLogs_def dest!: apply_loop_fields)
    then show ?thesis using step h r same by (auto simp: ApplyCommitted)
  qed
qed

text \<open>C40. A heard follower stays one. If, from some moment on, a follower gets no call of a higher term and a message of
  the leader of its term always arrives before the election timeout has passed since the one before, then through every run of
  its loops and handlers it stays a follower of that term and asks nobody for a vote, whatever random timeouts are drawn.\<close>

theorem heard_follower_stays:
  assumes "0 < T" and "T < 2 ^ 62" and "follows_leader T u l tn" and "heard_within T u l es"
    and "timed_run T es tn = Some (outs, tn')"
  shows "state (traft tn') = Follower \<and> currentTerm (traft tn') = u \<and> (\<forall>args. Calls args \<notin> set outs)"
  using assms(3-5)
proof (induction es arbitrary: l tn outs)
  case Nil
  then show ?case by (simp add: follows_leader_def)
next
  case (Cons x es)
  obtain now e where x: "x = (now, e)" by (cases x)
  obtain out tn1 rest where r: "timed_step T now e tn = Some (out, tn1)" "timed_run T es tn1 = Some (rest, tn')" "outs = out # rest"
    using Cons.prems(3) by (auto simp: x split: option.splits)
  have "(\<forall>args. out \<noteq> Calls args) \<and> (\<exists>l'. follows_leader T u l' tn1 \<and> heard_within T u l' es)"
    using follows_leader_step [OF Cons.prems(1) assms(1,2) _ r(1)] Cons.prems(2) x by blast
  then show ?case using Cons.IH [OF _ _ r(2)] r(3) by auto
qed

text \<open>The leader of term 1 is heard 150 and 300 nanoseconds after the start, with a timeout of 200: 450 is still in time.\<close>

definition leader_call :: AppendEntriesArgs where
  "leader_call = \<lparr>aTerm = 1, aLeaderID = ''b'', aPrevLogIndex = 0, aPrevLogTerm = 0, aEntries = [], aLeaderCommit = 0\<rparr>"

lemma heard_follower_stays_witness:
  "\<exists>tn outs tn'. timed_run 200 [(150, GetAppend 3 leader_call), (300, GetAppend 7 leader_call), (450, HeartbeatTick)] tn =
     Some (outs, tn') \<and> traft tn = NewRaft ''a'' [''a'', ''b''] NewMemoryLogStore\<lparr>currentTerm := 1\<rparr> \<and> state (traft tn') = Follower"
proof -
  let ?tn = "\<lparr>traft = NewRaft ''a'' [''a'', ''b''] NewMemoryLogStore\<lparr>currentTerm := 1\<rparr>, due = Some 200, eloop = AtSelect, tstopped = False\<rparr>"
  let ?es = "[(150, GetAppend 3 leader_call), (300, GetAppend 7 leader_call), (450, HeartbeatTick)]"
  have "timed_run 200 ?es ?tn \<noteq> None" by code_simp
  then obtain outs tn' where r: "timed_run 200 ?es ?tn = Some (outs, tn')" by auto
  have "follows_leader 200 1 0 ?tn" by (simp add: follows_leader_def NewRaft_def)
  from heard_follower_stays [OF _ _ this _ r] have "state (traft tn') = Follower" by (simp add: leader_call_def)
  then show ?thesis using r by (intro exI [of _ ?tn] exI [of _ outs] exI [of _ tn']) simp
qed

text \<open>A follower that hears nobody calls an election at the first tick, less than twice the timeout after the timer was
  set, unless its store is empty.\<close>

lemma silent_leader_is_replaced:
  assumes "0 < T" and "T < 2 ^ 62" and "resetElectionTimer T set_at r0 tn0 = Some tn" and "eloop tn = AtSelect"
    and "state (traft tn) = Follower" and "rooted (logStore (traft tn))" and "set_at + 2 * T \<le> now"
  shows "\<exists>args tn'. timed_run T [(now, TakeTick), (now, RunTick r)] tn = Some ([Silent, Calls args], tn') \<and>
    vTerm args = currentTerm (traft tn) + 1 \<and> state (traft tn') = Candidate"
proof -
  obtain d where d: "due tn = Some d" "d \<le> now" using resetElectionTimer_due [OF assms(3,1,2)] assms(7) by auto
  let ?l = "logStore (traft tn)"
  have len: "length ?l - 1 < length ?l" "int (length ?l - 1) = int (length ?l) - 1"
    using assms(6) by (auto simp: rooted_def log_good_def of_nat_diff Suc_le_eq)
  have log: "LastIndex ?l = Some (int (length ?l) - 1)" "GetLog (int (length ?l) - 1) ?l = Some (Inr (?l ! (length ?l - 1)))"
    using rooted_last [OF assms(6)] rooted_get [OF assms(6) len(1)] len(2) by simp_all
  obtain x where x: "randomElectionTimeout T r = Some x" using randomElectionTimeout_bounds [OF assms(1,2)] by blast
  show ?thesis
    using d assms(4,5) log x
    by (simp add: take_tick_def run_tick_def election_timeout_def startElection_def Let_def resetElectionTimer_def)
qed

end
