(* ===== verification/Transport.thy ===== *)
theory Transport
  imports Raft
begin

text \<open>
  The cache of connections of \<open>GrpcTransport\<close> (\<open>internal/raft/transport.go\<close>): \<open>getClient\<close> as one caller sees it, and
  as the goroutines of an election or a heartbeat run it, without a lock. The connections, of type \<open>'c\<close>, and the
  answers of \<open>grpc.NewClient\<close> are the library's: arguments.
\<close>

section \<open>One caller\<close>

record 'c GrpcTransport =
  conns :: "node_id \<Rightarrow> 'c option"

definition NewGrpcTransport :: "'c GrpcTransport" where
  "NewGrpcTransport = \<lparr>conns = (\<lambda>_. None)\<rparr>"

definition getClient :: "(node_id \<Rightarrow> 'c option) \<Rightarrow> node_id \<Rightarrow> 'c GrpcTransport \<Rightarrow> 'c option \<times> 'c GrpcTransport" where
  "getClient dial peerAddr t =
     (case conns t peerAddr of
        Some conn \<Rightarrow> (Some conn, t)
      | None \<Rightarrow>
          (case dial peerAddr of
             None \<Rightarrow> (None, t)
           | Some conn \<Rightarrow> (Some conn, t\<lparr>conns := (conns t)(peerAddr \<mapsto> conn)\<rparr>)))"

section \<open>Goroutines\<close>

text \<open>A call is at its read of the map, past it without a hit, at its write, or done. A map access lasts: two
  accesses of which one writes race when they overlap, and the Go runtime may end the process for it.\<close>

datatype 'c get_phase = BeforeRead | Reading | Dialing | Writing 'c | Done "'c option"

record 'c Calls =
  transport :: "'c GrpcTransport"
  calls :: "(node_id \<times> 'c get_phase) list"
  raced :: bool

datatype 'c call_event = BeginRead nat | EndRead nat | DialReturns nat "'c option" | EndWrite nat

definition others :: "nat \<Rightarrow> 'c Calls \<Rightarrow> 'c get_phase list" where
  "others k s = map (\<lambda>i. snd (calls s ! i)) (filter (\<lambda>i. i \<noteq> k) [0..<length (calls s)])"

definition is_writing :: "'c get_phase \<Rightarrow> bool" where
  "is_writing p = (case p of Writing c \<Rightarrow> True | _ \<Rightarrow> False)"

definition is_reading :: "'c get_phase \<Rightarrow> bool" where
  "is_reading p = (case p of Reading \<Rightarrow> True | _ \<Rightarrow> False)"

definition set_phase :: "nat \<Rightarrow> 'c get_phase \<Rightarrow> 'c Calls \<Rightarrow> 'c Calls" where
  "set_phase k p s = s\<lparr>calls := (calls s)[k := (fst (calls s ! k), p)]\<rparr>"

fun call_step :: "'c call_event \<Rightarrow> 'c Calls \<Rightarrow> 'c Calls option" where
  "call_step (BeginRead k) s =
     (if k < length (calls s) \<and> (case snd (calls s ! k) of BeforeRead \<Rightarrow> True | _ \<Rightarrow> False)
      then Some ((set_phase k Reading s)\<lparr>raced := raced s \<or> list_ex is_writing (others k s)\<rparr>) else None)"
| "call_step (EndRead k) s =
     (if k < length (calls s) \<and> is_reading (snd (calls s ! k))
      then Some (set_phase k (case conns (transport s) (fst (calls s ! k)) of Some c \<Rightarrow> Done (Some c) | None \<Rightarrow> Dialing) s) else None)"
| "call_step (DialReturns k answer) s =
     (if k < length (calls s) \<and> (case snd (calls s ! k) of Dialing \<Rightarrow> True | _ \<Rightarrow> False)
      then (case answer of
              None \<Rightarrow> Some (set_phase k (Done None) s)
            | Some c \<Rightarrow> Some ((set_phase k (Writing c) s)
                \<lparr>raced := raced s \<or> list_ex (\<lambda>p. is_reading p \<or> is_writing p) (others k s)\<rparr>)) else None)"
| "call_step (EndWrite k) s =
     (if k < length (calls s)
      then (case calls s ! k of
              (peerAddr, Writing c) \<Rightarrow>
                Some ((set_phase k (Done (Some c)) s)\<lparr>transport := \<lparr>conns = (conns (transport s))(peerAddr \<mapsto> c)\<rparr>\<rparr>)
            | _ \<Rightarrow> None) else None)"

fun call_run :: "'c call_event list \<Rightarrow> 'c Calls \<Rightarrow> 'c Calls option" where
  "call_run [] s = Some s"
| "call_run (e # es) s = (case call_step e s of None \<Rightarrow> None | Some s' \<Rightarrow> call_run es s')"

definition started :: "node_id list \<Rightarrow> 'c GrpcTransport \<Rightarrow> 'c Calls" where
  "started peers t = \<lparr>transport = t, calls = map (\<lambda>p. (p, BeforeRead)) peers, raced = False\<rparr>"

section \<open>What the cache gives\<close>

text \<open>Asked again, it does not dial again, whatever dialing would give now.\<close>

lemma getClient_cached:
  assumes "getClient dial peerAddr t = (Some conn, t')"
  shows "getClient dial' peerAddr t' = (Some conn, t')"
  using assms by (auto simp: getClient_def split: option.splits)

lemma getClient_other: "getClient dial peerAddr t = (answer, t') \<Longrightarrow> p \<noteq> peerAddr \<Longrightarrow> conns t' p = conns t p"
  by (auto simp: getClient_def split: option.splits)

text \<open>A call that runs alone is \<open>getClient\<close>, and races with nothing.\<close>

definition one_call :: "(node_id \<Rightarrow> 'c option) \<Rightarrow> node_id \<Rightarrow> 'c GrpcTransport \<Rightarrow> 'c call_event list" where
  "one_call dial p t = [BeginRead 0, EndRead 0] @
     (if conns t p = None then DialReturns 0 (dial p) # (if dial p = None then [] else [EndWrite 0]) else [])"

lemma lone_call_is_getClient:
  "call_run (one_call dial p t) (started [p] t) =
     Some \<lparr>transport = snd (getClient dial p t), calls = [(p, Done (fst (getClient dial p t)))], raced = False\<rparr>"
  by (auto simp: one_call_def started_def getClient_def set_phase_def others_def is_reading_def split: option.splits)

text \<open>The goroutines of an election in a cluster of three ask for two peers at once: their writes can overlap.\<close>

lemma first_calls_race:
  "\<exists>s. call_run [BeginRead 0, EndRead 0, BeginRead 1, EndRead 1, DialReturns 0 (Some c), DialReturns 1 (Some d)]
      (started [p, q] NewGrpcTransport) = Some s \<and> raced s"
  by (simp add: started_def NewGrpcTransport_def set_phase_def others_def is_reading_def is_writing_def)

text \<open>Two first calls for one peer can both dial: the connection of one is not in the cache, and nobody closes it.\<close>

lemma connection_leaks:
  assumes "c \<noteq> d"
  shows "\<exists>es s. call_run es (started [p, p] NewGrpcTransport) = Some s \<and>
    calls s = [(p, Done (Some c)), (p, Done (Some d))] \<and> \<not> raced s \<and> conns (transport s) p = Some d"
proof (intro exI conjI)
  let ?es = "[BeginRead 0, EndRead 0, BeginRead 1, EndRead 1, DialReturns 0 (Some c), EndWrite 0, DialReturns 1 (Some d), EndWrite 1]"
  show "call_run ?es (started [p, p] NewGrpcTransport) =
      Some \<lparr>transport = \<lparr>conns = [p \<mapsto> d]\<rparr>, calls = [(p, Done (Some c)), (p, Done (Some d))], raced = False\<rparr>"
    by (simp add: started_def NewGrpcTransport_def set_phase_def others_def is_reading_def is_writing_def)
qed simp_all

end
