(* ===== verification/EntryPoint.thy ===== *)
theory EntryPoint
  imports CliProps
begin

text \<open>
  The program \<open>cmd/queue\<close> from its command line to its exit status: the commands that \<open>cli.go\<close> builds and their flags,
  and \<open>main\<close> with its recovery from panics. What Cobra makes of the arguments is an argument, and so is what the
  environment answers; the wait for a signal is over.
\<close>

section \<open>Commands and flags\<close>

text \<open>What Cobra finds: help or the version, an error of usage, or a command with the flags that are given.\<close>

datatype parsed = Shown | UsageError | RunCmd "string option" "int option" "string option"
  | EnqueueCmd "string option" "string option" | StatusCmd

datatype command_error = Usage | JobFileRequired | CliError cli_error

text \<open>How a command ends. A panic ends the goroutine of \<open>main\<close> or another one.\<close>

datatype command_end = Returns "command_error option" | PanicInMain | PanicElsewhere

definition flag :: "'a \<Rightarrow> 'a option \<Rightarrow> 'a" where
  "flag initial given = (case given of None \<Rightarrow> initial | Some v \<Rightarrow> v)"

text \<open>What the environment answers to the commands.\<close>

record CliEnv =
  envConfig :: "cli_error + CliConfig"
  envConnects :: bool
  envListens :: "int \<Rightarrow> bool"
  envNanos :: int
  envUnreadable :: bool
  envWalk :: "JobID list \<times> JobID list"
  envNow :: int
  envDisk :: Disk
  envJobFile :: "string \<Rightarrow> cli_error + JobInput list"
  envFlush :: "nat \<Rightarrow> flush_io"
  envEncode :: "raft_command \<Rightarrow> command"
  envCalls :: "nat \<Rightarrow> call_io"
  envMaster :: Server

text \<open>Of the panics of \<open>runSystem\<close>, the one of the snapshot loop's ticker is in a goroutine of its own: it needs a controller
  that has been created and started.\<close>

definition run_command :: "CliEnv \<Rightarrow> string \<Rightarrow> int \<Rightarrow> string \<Rightarrow> command_end" where
  "run_command env mode port masterAddr =
     (case runSystem (envConfig env) mode masterAddr (envConnects env) (envListens env port) (envNanos env)
             (envUnreadable env) (fst (envWalk env)) (snd (envWalk env)) (envNow env) (envDisk env) of
        Fails err \<Rightarrow> Returns (Some (CliError err))
      | ControllerRuns c srv \<Rightarrow> Returns None
      | WorkerRuns src n \<Rightarrow> Returns None
      | Panics \<Rightarrow>
          (case envConfig env of
             Inl err \<Rightarrow> PanicInMain
           | Inr cfg \<Rightarrow>
               if mode \<noteq> ''worker'' \<and>
                  NewController (disk_wal (envDisk env)) (disk_snap (envDisk env)) (controller_config cfg (mode = ''master'')) \<noteq> None
               then PanicElsewhere else PanicInMain))"

text \<open>A master that panics is another process: its client logs a failed call per job and goes on.\<close>

definition enqueueJobs :: "CliEnv \<Rightarrow> string \<Rightarrow> string \<Rightarrow> command_end" where
  "enqueueJobs env filePath masterAddr =
     (case envJobFile env filePath of
        Inl err \<Rightarrow> Returns (Some (CliError err))
      | Inr js \<Rightarrow>
          if masterAddr \<noteq> []
          then (case enqueueRemote (envConnects env) (envEncode env) (envCalls env) js (envMaster env) of
                  None \<Rightarrow> Returns None
                | Some (err, successCount, s) \<Rightarrow> Returns (map_option CliError err))
          else (case enqueueLocal (envFlush env) (envNow env) js
                       (local_controller (envConfig env) (envUnreadable env) (fst (envWalk env)) (snd (envWalk env)) (envNow env)
                          (envDisk env) None) of
                  None \<Rightarrow> PanicInMain
                | Some (err, g) \<Rightarrow> Returns (map_option CliError err)))"

definition enqueue_command :: "CliEnv \<Rightarrow> string \<Rightarrow> string \<Rightarrow> command_end" where
  "enqueue_command env jobFile masterAddr =
     (if jobFile = [] then Returns (Some JobFileRequired) else enqueueJobs env jobFile masterAddr)"

definition status_command :: "CliEnv \<Rightarrow> command_end" where
  "status_command env = (case showStatus (envConfig env) None of Inl err \<Rightarrow> Returns (Some (CliError err)) | Inr shown \<Rightarrow> Returns None)"

text \<open>\<open>Execute\<close> of the command tree, with the default of every flag. Cobra refuses \<open>enqueue\<close> without its required flag.\<close>

definition execute :: "CliEnv \<Rightarrow> parsed \<Rightarrow> command_end" where
  "execute env cmd =
     (case cmd of
        Shown \<Rightarrow> Returns None
      | UsageError \<Rightarrow> Returns (Some Usage)
      | RunCmd mode port masterAddr \<Rightarrow> run_command env (flag ''standalone'' mode) (flag 50051 port) (flag [] masterAddr)
      | EnqueueCmd None masterAddr \<Rightarrow> Returns (Some Usage)
      | EnqueueCmd (Some jobFile) masterAddr \<Rightarrow> enqueue_command env jobFile (flag [] masterAddr)
      | StatusCmd \<Rightarrow> status_command env)"

section \<open>main\<close>

text \<open>The deferred function of \<open>main\<close> recovers from a panic of its own goroutine only. After any other panic the runtime
  ends the process with status 2.\<close>

definition queue_main :: "CliEnv \<Rightarrow> parsed \<Rightarrow> nat" where
  "queue_main env cmd =
     (case execute env cmd of
        PanicInMain \<Rightarrow> 1
      | PanicElsewhere \<Rightarrow> 2
      | Returns (Some err) \<Rightarrow> 1
      | Returns None \<Rightarrow> 0)"

section \<open>What the exit status says\<close>

text \<open>\<open>run\<close> exits with 0 in a mode with a controller only if the configuration was read, the snapshot interval is a
  positive 64-bit duration, and the controller was created and started.\<close>

lemma run_exits_0:
  assumes "queue_main env (RunCmd mode port masterAddr) = 0" and m: "flag ''standalone'' mode = m" "m \<noteq> ''worker''"
  shows "\<exists>cfg ctrl c. envConfig env = Inr cfg \<and>
    NewController (disk_wal (envDisk env)) (disk_snap (envDisk env)) (controller_config cfg (m = ''master'')) = Some ctrl \<and>
    Controller.Start (envUnreadable env) (fst (envWalk env)) (snd (envWalk env)) (envNow env) ctrl = Inr c \<and>
    0 < SnapshotInterval (config c)"
proof -
  note unfolds = queue_main_def execute_def run_command_def runSystem_def runControllerNode_def
  obtain cfg where cfg: "envConfig env = Inr cfg"
    using assms(1) by (cases "envConfig env") (simp_all add: unfolds)
  obtain ctrl where ctrl: "NewController (disk_wal (envDisk env)) (disk_snap (envDisk env)) (controller_config cfg (m = ''master'')) = Some ctrl"
    using assms(1) cfg m
    by (cases "NewController (disk_wal (envDisk env)) (disk_snap (envDisk env)) (controller_config cfg (m = ''master''))")
      (simp_all add: unfolds)
  obtain c where c: "Controller.Start (envUnreadable env) (fst (envWalk env)) (snd (envWalk env)) (envNow env) ctrl = Inr c"
    using assms(1) cfg m ctrl
    by (cases "Controller.Start (envUnreadable env) (fst (envWalk env)) (snd (envWalk env)) (envNow env) ctrl") (simp_all add: unfolds)
  have "\<not> SnapshotInterval (config c) \<le> 0"
  proof
    assume "SnapshotInterval (config c) \<le> 0"
    then show False using assms(1) cfg m ctrl c by (simp add: unfolds)
  qed
  then show ?thesis using cfg ctrl c by auto
qed

text \<open>The recovery of \<open>main\<close> catches the negative buffer size and not the snapshot interval, whose panic is elsewhere.\<close>

lemma panic_in_snapshot_loop:
  assumes "envConfig env = Inr cfg" and "m \<noteq> ''worker''" and "0 \<le> cfgBufferSize cfg" and "wrap64 (cfgIntervalSeconds cfg * 1000000000) \<le> 0"
  shows "queue_main env (RunCmd (Some m) port masterAddr) \<in> {1, 2} \<and>
    (queue_main env (RunCmd (Some m) port masterAddr) = 1 \<longrightarrow>
      (\<exists>err. execute env (RunCmd (Some m) port masterAddr) = Returns (Some (CliError (StartFailed err)))))"
proof -
  let ?cc = "controller_config cfg (m = ''master'')"
  note unfolds = queue_main_def execute_def run_command_def runSystem_def runControllerNode_def
  obtain ctrl where ctrl: "NewController (disk_wal (envDisk env)) (disk_snap (envDisk env)) ?cc = Some ctrl" "config ctrl = ?cc"
    using assms(3) by (simp add: NewController_cases controller_config_def)
  show ?thesis
  proof (cases "Controller.Start (envUnreadable env) (fst (envWalk env)) (snd (envWalk env)) (envNow env) ctrl")
    case (Inl err)
    then show ?thesis using assms(1,2) ctrl by (simp add: unfolds flag_def)
  next
    case (Inr c)
    then have "SnapshotInterval (config c) \<le> 0" using Start_config [OF Inr] ctrl(2) assms(4) by (simp add: controller_config_def)
    then show ?thesis using Inr assms(1,2) ctrl(1) by (simp add: unfolds flag_def)
  qed
qed

lemma negative_buffer_recovered:
  assumes "envConfig env = Inr cfg" and "m \<noteq> ''worker''" and "cfgBufferSize cfg < 0"
  shows "execute env (RunCmd (Some m) port masterAddr) = PanicInMain \<and> queue_main env (RunCmd (Some m) port masterAddr) = 1"
  using assms
  by (simp add: queue_main_def execute_def run_command_def runSystem_def runControllerNode_def flag_def NewController_cases controller_config_def)

text \<open>\<open>enqueue --master\<close> exits with 0 when no call has reached the master.\<close>

lemma unreached_master_exits_0:
  assumes "envJobFile env path = Inr js" and "path \<noteq> []" and "master \<noteq> []" and "envConnects env"
    and "\<And>k. fst (envCalls env k) = RpcLost"
  shows "queue_main env (EnqueueCmd (Some path) (Some master)) = 0"
proof -
  have "submit_all enc (envCalls env) k js n s = Some (n, s)" for enc k n s
  proof (induction js arbitrary: k)
    case (Cons j js)
    obtain io now nanos where "envCalls env k = (RpcLost, io, now, nanos)" using assms(5) [of k] by (cases "envCalls env k") auto
    then show ?case using Cons by simp
  qed simp
  then show ?thesis
    using assms(1-4) by (simp add: queue_main_def execute_def enqueue_command_def enqueueJobs_def enqueueRemote_def flag_def)
qed

end
