(* ===== verification/Spec2Isabelle.thy ===== *)
theory Spec2Isabelle
  imports JobProps WalProps ControllerProps CrashLimits RaftLimits RaftMatching WalWriterProps JobSource CliProps Races ConcurrentProps TimeoutProps DemoProps WalUtils Metrics ReplicaProps RaftTimers Transport EntryPoint
begin

text \<open>
  A verification development for raft-recovery, a job queue in Go: jobs are kept in memory, logged to a
  write-ahead log, saved in snapshots, run by a pool of workers in the same process or on other machines
  over gRPC, and replicated by an implementation of Raft.

  The parts and how they interact. The job manager (\<open>internal/jobmanager\<close>) is the state machine of the
  jobs. The controller (\<open>internal/controller\<close>) owns it and, under its mutex, changes it together with the
  log (\<open>internal/storage/wal\<close>): append first, change the memory when that succeeds. A checkpoint writes the
  memory through the snapshot manager (\<open>internal/snapshot\<close>) and rotates the log; a restart loads the
  snapshot and replays the log. Work goes out through the dispatch loop to the local pool
  (\<open>internal/worker\<close>), or through \<open>Poll\<close> to pools elsewhere; results come back as acknowledgements. The
  server (\<open>internal/server\<close>) puts the controller behind gRPC, and, when it has a Raft node
  (\<open>internal/raft\<close>), proposes commands instead of changing the memory; committed commands are applied by
  \<open>handleRaftCommand\<close>. The command line (\<open>internal/cli\<close>) wires this up; it never gives the server a node.

  Theories, in the order of the code:

  \<^item> \<open>Prelude\<close>: error values, the monad of fallible steps, orders in which Go may walk a map, lemmas on lists
    and maps. \<open>GoTypes\<close>: \<open>pkg/types\<close>.
  \<^item> \<open>JobManager\<close>: \<open>job_manager.go\<close>, one function per method, over an explicit store of jobs, because the
    index maps, the main map and the callers share pointers. \<open>JobInvariant\<close>: the maps index the store
    correctly, and every method keeps this. \<open>JobSpec\<close>: the abstract manager, a map and a queue, and the
    refinement. \<open>JobStore\<close>: the contracts \<open>job_store\<close> and \<open>job_queue\<close> its clients rely on, provided by the
    manager and by its specification. \<open>JobProps\<close>: the properties.
  \<^item> \<open>WalTypes\<close>, \<open>Wal\<close>: \<open>types.go\<close>, \<open>checksum.go\<close> (CRC-32 bit by bit, at its width) and \<open>wal.go\<close>, \<open>utils.go\<close> as a
    caller sees them that is alone; the results of system calls are arguments. \<open>WalLog\<close>: the contract
    \<open>event_log\<close>. \<open>WalProps\<close>: what is appended is replayed, where replay stops, what the checksum sees.
    \<open>WalWriter\<close>, \<open>WalWriterProps\<close>: the same log under concurrency, with the goroutine \<open>batchWriter\<close>, as a step
    machine; what its callers may rely on, and that a lone caller gets the \<open>Append\<close> of \<open>Wal\<close>. A rotated file is
    archived under the second of its rotation, as the code names it, and replaces one archived in that second.
    \<open>WalUtils\<close>: the stubs of \<open>utils.go\<close> and \<open>batch_writer.go\<close>, which report success on any file, and the
    error structs of \<open>errors.go\<close>.
  \<^item> \<open>SnapshotManager\<close>: a write as its sequence of system calls, each of which may fail, with a crash possible
    between any two. The disk (\<open>SnapDisk\<close>) tells what the processes see from what a crash leaves: data is on the
    disk after a \<open>Sync\<close> of its file only, and a rename, whose directory the code never syncs, may be undone.
  \<^item> \<open>Worker\<close>: the pool with its channels as a step relation, and the execution of a task. \<open>PullPool\<close>: the pool
    of a worker node with \<open>pollerLoop\<close> and \<open>ackLoop\<close>.
  \<^item> \<open>Controller\<close>: \<open>controller.go\<close>, \<open>job_source_impl.go\<close>. \<open>Recovery\<close>, \<open>RecoveryProps\<close>: what a log replays to,
    and that the handlers keep it in step with the memory. \<open>CrashProps\<close>, \<open>CrashLimits\<close>: recovery after clean
    runs, and the runs after which it is wrong or impossible. \<open>RestartProps\<close>: what a restart can know at all.
    \<open>ControllerProps\<close>: the handlers one by one and the replicated commands. \<open>TimeoutProps\<close>: a tick of the timeout
    loop as a map over the jobs.
  \<^item> \<open>Concurrent\<close>: the controller as a running system, \<open>Sys\<close>, whose steps (\<open>sys_step\<close>) are the critical sections of
    its four dispatch loops, its other loops and its callers. \<open>Races\<close>: what may happen between the two halves of
    a checkpoint, and a stop. \<open>Handouts\<close>: attempts and hand-outs accounted for in every handler. \<open>ConcurrentProps\<close>:
    the invariant of the system, after any successful start: no job is stranded, none runs too often.
  \<^item> \<open>Raft\<close>: \<open>log.go\<close>, \<open>raft.go\<close>, \<open>rpc.go\<close>: one node. \<open>RaftLog\<close>: the contract \<open>log_store\<close>, with the in-memory store as
    its provider. \<open>RaftProps\<close>: appending, committing, applying, compacting. \<open>RaftCluster\<close>: nodes and the calls
    in flight between them, delivered in any order or never, with crashes and restarts. \<open>RaftElection\<close>: one
    leader per term. \<open>RaftMatching\<close>: log matching. \<open>RaftReplication\<close>: under one leadership nothing is applied
    before a majority holds it. \<open>RaftLimits\<close>: what the missing checks allow.
  \<^item> \<open>RaftChosen\<close>, \<open>RaftSafety\<close>, \<open>RaftHandover\<close>, \<open>RaftSteps\<close>, \<open>RaftSafetyProps\<close>: what the cluster keeps across any
    number of leaders when every vote that is given is one that the check \<open>rpc.go\<close> leaves as a TODO (\<open>isUpToDate\<close>)
    would allow (\<open>votes_checked\<close>: the code's own handlers, on the runs without the votes that the check refuses). In
    this order: which entries are chosen and which can no longer be, and the invariant; what one node's step does to
    it, receiving entries above all; elections and proposals; the other events; the properties. \<open>ReplicaProps\<close>: the
    nodes as replicas of one job table, under one leadership or with checked votes.
  \<^item> \<open>RaftTimers\<close>: a node with its clock, the loops of \<open>raft.go\<close> around the handlers: a follower that hears its leader
    in time starts no election, one that hears nobody does. \<open>Transport\<close>: the cache of connections of \<open>transport.go\<close>.
  \<^item> \<open>Server\<close>, \<open>ServerProps\<close>: \<open>server.go\<close>, \<open>grpc_source.go\<close>, \<open>transport.go\<close>; the messages, the handlers, and calls
    that arrive, get lost, or lose their answer. \<open>JobSource\<close>: the interface of \<open>source.go\<close> as the contract
    \<open>job_source\<close>, provided by the controller and by the gRPC client. \<open>WorkerNode\<close>: a worker node and its master.
  \<^item> \<open>Cli\<close>, \<open>CliProps\<close>: \<open>cli.go\<close>: configuration, \<open>run\<close>, \<open>enqueue\<close>, \<open>status\<close>. \<open>EntryPoint\<close>: \<open>cmd/queue\<close>, from the command line
    to the exit status. \<open>Demo\<close>,
    \<open>DemoProps\<close>: \<open>cmd/demo\<close>, the program that demonstrates recovery.
  \<^item> \<open>Metrics\<close>: the collector of \<open>metrics.go\<close>, with the Prometheus library as a parameter.
\<close>

text \<open>
  How the state corresponds to the code. A struct is a record with the code's field names where they are
  free. A mutex makes each method one function from state to state; a method that releases it, and every
  goroutine, is split where it does: \<open>snapshot_copy\<close> and \<open>snapshot_save\<close>, the phases of the dispatch loop,
  the halves of \<open>startElection\<close> and \<open>replicateToPeer\<close>, the steps of the log's writer and of the pools.
  Errors are values of \<open>gerror\<close>; a panic is \<^term>\<open>None\<close> or an outcome of its own. What the environment decides is
  an argument: the clock (one reading per handler, in milliseconds), failing calls (\<open>flush_io\<close>, \<open>rotate_io\<close>,
  \<open>snap_step option\<close>, \<open>rpc\<close>), the order of a walk over a map, random numbers, the choice of a \<open>select\<close>, the
  JSON encoding of a Raft command and the YAML decoder.

  History variables. The pools list the tasks accepted and the results delivered and dropped; the cluster
  has the ballot of every vote (\<open>history\<close>), the log of each term's leader (\<open>book\<close>) and how much of it each node
  has accepted (\<open>acceptance\<close>). They belong to the proofs and are read by no operation.

  Bounds and fuel. \<open>applyLogs\<close> and the commit scan run a number of rounds that is known at their start
  (the distance of the two indexes), so the recursion is structural and nothing is cut short. Runs of the
  machines (\<open>cluster_run\<close>, \<open>writer_run\<close>, \<open>pull_run\<close>, \<open>sys_run\<close>) are over lists of steps of any length. \<open>work_off\<close> takes
  its number of rounds, and ten jobs a round are shown to be enough. Sequence numbers and checksums are
  words; durations that the code multiplies wrap at 64 bits (\<open>wrap64\<close>); \<open>int32\<close> is the wire's conversion. Terms
  and indexes of Raft, attempt counters and Unix times are unbounded integers where the code has 64 bits: they
  grow by one, or are read from a clock. An attempt counter agrees with Go's as long as it stays below \<open>2\<^sup>6\<^sup>3\<close>;
  an operation raises it by at most one, so a counter that is that far from the bound stays below it
  (\<open>finished_jobs_stay_finished\<close>). Terms and indexes start at 0. \<open>Poll\<close> takes its number of jobs as a natural number;
  the request's number is checked in \<open>PollJobs\<close>, where a negative one is a panic, as it is in \<open>Poll\<close>'s \<open>make\<close>.
  Strings are lists of byte-sized characters.

  What the properties show, in short. The manager is correct: it refines its specification, its indexes
  are consistent, finished jobs stay finished. The log holds what it acknowledged, in every interleaving in
  which no two rotations fall in one second. Snapshots are atomic, also on a disk that loses what was not synced. Recovery reproduces the memory after a checkpoint and any run of clean handlers.
  A queue is worked off by local and remote workers, and a worker node keeps track of each job it has
  polled. In every interleaving of the controller's goroutines an unfinished job is queued, about to be
  marked, or in flight with a deadline, and is handed out a bounded number of times. A graceful stop keeps
  every job. Raft elects at most one leader per term as long as no process restarts, its logs match, and
  under one leadership the replicas run one history, each command of it held by a majority first. With any
  number of leaders this is so if voters look at the candidate's log: then what a node has applied every later
  leader has, and no two nodes apply different commands at an index.
  A follower that hears its leader within every
  election timeout starts no election.
  And what the code does not give: enqueue events carry no data, so jobs since the last checkpoint are
  lost or block the restart (killed before its first checkpoint, the demonstration recovers no job and, once it
  has dispatched one, does not start again); a second rotation in one second replaces the archive of the first;
  a late acknowledgement blocks it as well; events logged while a checkpoint is written are forgotten; a job
  in flight at a crash is queued twice; a shut log leaves callers waiting;
  a stopping worker node may drop results; votes are granted without looking at the candidate's log and
  are not persistent, so a committed entry can be replaced and a term can have two leaders; an acknowledgement
  is lost on the replicas that did not dispatch the job; the goroutines of an
  election write the cache of connections at the same time; \<open>main\<close> recovers only from panics of its own goroutine.

  Not modelled. The code generated from the protocol file; \<open>integration_example.go\<close>, which is commented out;
  \<open>StartServer\<close> of the metrics, which serves HTTP; \<open>compressFile\<close> (gzip of a file) and the deprecated \<open>flush\<close> of
  the log; Cobra, whose result is an argument; logging and printing; tickers, which only decide when a step happens,
  except that a ticker of a non-positive interval panics, which is modelled. JSON text is not parsed: a file or a payload stands for
  what the decoder makes of it, with its numbers turned into doubles. The leases the server hands out are
  modelled and read by nobody, as in the code.
\<close>

end
